(* ===== verification/Prelude.thy ===== *)
theory Prelude
  imports Main "HOL-Library.Word" "HOL-Library.Mapping" "HOL-Library.AList_Mapping"
    "HOL-Library.Char_ord" "HOL-Library.List_Lexorder" "HOL-Library.Multiset"
    "HOL-Library.Sublist"
begin

text \<open>
  What the component theories share: the Go values they compute with (fallible results, panics,
  maps and the order in which a range loop visits them), the functions of the Go packages
  \<^verbatim>\<open>strings\<close> and \<^verbatim>\<open>sort\<close> that the code calls, and the generic lemmas about them.

  A Go string is a sequence of bytes and is modelled as an Isabelle \<^typ>\<open>string\<close> (a list of
  8-bit characters). The case and white space functions of \<^verbatim>\<open>strings\<close> are modelled on
  ASCII: a byte above 127 is left alone, so on text outside ASCII the model says nothing
  about the Unicode tables of Go.
\<close>

named_theorems go_strings \<open>rewrite rules for the string functions\<close>
named_theorems go_maps \<open>rewrite rules for Go maps and range loops\<close>

subsection \<open>Fallible results\<close>

datatype panic = Panic string

definition sum_bind :: "'e + 'a \<Rightarrow> ('a \<Rightarrow> 'e + 'b) \<Rightarrow> 'e + 'b" where
  "sum_bind r k = (case r of Inl e \<Rightarrow> Inl e | Inr a \<Rightarrow> k a)"

lemma sum_bind_simps [simp]:
  "sum_bind (Inl e) k = Inl e"
  "sum_bind (Inr a) k = k a"
  by (simp_all add: sum_bind_def)

lemma map_sum_eq_Inr: "map_sum f g r = Inr y \<longleftrightarrow> (\<exists>x. r = Inr x \<and> y = g x)"
  by (cases r) auto

lemma map_sum_eq_Inl: "map_sum f g r = Inl y \<longleftrightarrow> (\<exists>x. r = Inl x \<and> y = f x)"
  by (cases r) auto

lemma sum_bind_eq_Inr:
  "sum_bind r k = Inr b \<longleftrightarrow> (\<exists>a. r = Inr a \<and> k a = Inr b)"
  by (cases r) auto

subsection \<open>Go maps\<close>

text \<open>
  A Go map value is nil or a table. Reading, deleting from, ranging over and taking the length
  of a nil map behave as for an empty table; only writing to it panics. The order in which
  \<^verbatim>\<open>range\<close> visits the keys is not specified: a range loop takes the order as an
  argument, and \<open>range_order\<close> says which orders are possible.
\<close>

type_synonym ('k, 'v) gomap = "('k, 'v) mapping option"

definition gm_table :: "('k, 'v) gomap \<Rightarrow> ('k, 'v) mapping" where
  "gm_table m = (case m of None \<Rightarrow> Mapping.empty | Some t \<Rightarrow> t)"

definition gm_keys :: "('k, 'v) gomap \<Rightarrow> 'k set" where
  "gm_keys m = Mapping.keys (gm_table m)"

definition gm_len :: "('k, 'v) gomap \<Rightarrow> nat" where
  "gm_len m = Mapping.size (gm_table m)"

definition gm_exists :: "('k, 'v) gomap \<Rightarrow> 'k \<Rightarrow> bool" where
  "gm_exists m k = (Mapping.lookup (gm_table m) k \<noteq> None)"

definition gm_delete :: "'k \<Rightarrow> ('k, 'v) gomap \<Rightarrow> ('k, 'v) gomap" where
  "gm_delete k m = map_option (Mapping.delete k) m"

definition gm_finite :: "('k, 'v) gomap \<Rightarrow> bool" where
  "gm_finite m = finite (gm_keys m)"

definition range_order :: "('k, 'v) gomap \<Rightarrow> 'k list \<Rightarrow> bool" where
  "range_order m ks \<longleftrightarrow> distinct ks \<and> set ks = gm_keys m"

lemma gm_table_simps [simp]:
  "gm_table None = Mapping.empty"
  "gm_table (Some t) = t"
  by (simp_all add: gm_table_def)

lemma lookup_empty_map [simp]: "Mapping.lookup Mapping.empty = Map.empty"
  by (simp add: fun_eq_iff lookup_empty)

lemma gm_keys_simps [simp, go_maps]:
  "gm_keys None = {}"
  "gm_keys (Some t) = Mapping.keys t"
  "gm_keys (gm_delete k m) = gm_keys m - {k}"
  by (cases m; simp add: gm_keys_def gm_delete_def)+

lemma gm_delete_None [simp]: "gm_delete k m = None \<longleftrightarrow> m = None"
  by (simp add: gm_delete_def)

lemma gm_exists_iff [go_maps]: "gm_exists m k \<longleftrightarrow> k \<in> gm_keys m"
  by (cases m) (simp_all add: gm_exists_def gm_keys_def lookup_empty keys_dom_lookup domIff)

lemma gm_len_card [go_maps]: "gm_len m = card (gm_keys m)"
  by (simp add: gm_len_def gm_keys_def Mapping.size_def)

lemma range_orderD:
  assumes "range_order m ks"
  shows "distinct ks" "set ks = gm_keys m" "length ks = gm_len m"
  using assms distinct_card[of ks] by (auto simp: range_order_def gm_len_card)

lemma range_order_exists: "gm_finite m \<Longrightarrow> \<exists>ks. range_order m ks"
  by (auto simp: gm_finite_def range_order_def dest: finite_distinct_list)

lemma range_order_finite: "range_order m ks \<Longrightarrow> gm_finite m"
  by (metis List.finite_set gm_finite_def range_orderD(2))

subsection \<open>Sorting\<close>

text \<open>
  \<^verbatim>\<open>sort.Strings\<close> and \<^verbatim>\<open>sort.Ints\<close> sort in ascending order; Go compares
  strings bytewise and lexicographically, which is the order of \<^theory_text>\<open>Char_ord\<close> and
  \<^theory_text>\<open>List_Lexorder\<close>. Two orders of the same distinct keys sort to the same slice.
\<close>

lemma sort_range_order_unique:
  assumes "range_order m ks" "range_order m ks'"
  shows "sort ks = sort ks'"
proof (rule properties_for_sort)
  show "mset (sort ks') = mset ks"
    using assms set_eq_iff_mset_eq_distinct[of ks' ks] by (simp add: range_order_def)
qed simp

subsection \<open>The package strings\<close>

fun strings_Split :: "char \<Rightarrow> string \<Rightarrow> string list" where
  "strings_Split c [] = [[]]"
| "strings_Split c (x # xs) =
     (if x = c then [] # strings_Split c xs
      else (case strings_Split c xs of [] \<Rightarrow> [[x]] | p # ps \<Rightarrow> (x # p) # ps))"

text \<open>\<^verbatim>\<open>strings.SplitN(s, sep, 2)\<close> for a separator of one byte: one part when the
  separator does not occur, otherwise what is before and after its first occurrence.\<close>

definition strings_SplitN2 :: "char \<Rightarrow> string \<Rightarrow> string list" where
  "strings_SplitN2 c s =
     (case dropWhile (\<lambda>x. x \<noteq> c) s of
        [] \<Rightarrow> [s]
      | _ # rest \<Rightarrow> [takeWhile (\<lambda>x. x \<noteq> c) s, rest])"

fun strings_Join :: "string \<Rightarrow> string list \<Rightarrow> string" where
  "strings_Join sep [] = []"
| "strings_Join sep [x] = x"
| "strings_Join sep (x # y # ys) = x @ sep @ strings_Join sep (y # ys)"

definition lower_char :: "char \<Rightarrow> char" where
  "lower_char c = (let n = of_char c :: nat in if 65 \<le> n \<and> n \<le> 90 then char_of (n + 32) else c)"

definition upper_char :: "char \<Rightarrow> char" where
  "upper_char c = (let n = of_char c :: nat in if 97 \<le> n \<and> n \<le> 122 then char_of (n - 32) else c)"

definition strings_ToLower :: "string \<Rightarrow> string" where
  "strings_ToLower s = map lower_char s"

definition strings_ToUpper :: "string \<Rightarrow> string" where
  "strings_ToUpper s = map upper_char s"

text \<open>The ASCII white space of Go: tab, newline, vertical tab, form feed, return, space.\<close>

definition is_space :: "char \<Rightarrow> bool" where
  "is_space c = (let n = of_char c :: nat in n = 32 \<or> (9 \<le> n \<and> n \<le> 13))"

definition strings_TrimSpace :: "string \<Rightarrow> string" where
  "strings_TrimSpace s = rev (dropWhile is_space (rev (dropWhile is_space s)))"

text \<open>A digit of the verb \<^verbatim>\<open>%x\<close> of \<^verbatim>\<open>fmt\<close>.\<close>

definition hex_digit :: "nat \<Rightarrow> char" where
  "hex_digit d = (if d < 10 then char_of (48 + d) else char_of (87 + d))"

definition strings_HasPrefix :: "string \<Rightarrow> string \<Rightarrow> bool" where
  "strings_HasPrefix s p = prefix p s"

definition strings_TrimPrefix :: "string \<Rightarrow> string \<Rightarrow> string" where
  "strings_TrimPrefix s p = (if strings_HasPrefix s p then drop (length p) s else s)"

definition strings_TrimSuffix :: "string \<Rightarrow> string \<Rightarrow> string" where
  "strings_TrimSuffix s p = (if suffix p s then take (length s - length p) s else s)"

lemma strings_Split_not_Nil [simp]: "strings_Split c s \<noteq> []"
  by (cases s) (auto split: list.splits)

lemma strings_Split_no_sep: "c \<notin> set s \<Longrightarrow> strings_Split c s = [s]"
  by (induction s) auto

lemma strings_Split_append:
  "c \<notin> set s \<Longrightarrow> strings_Split c (s @ c # t) = s # strings_Split c t"
  by (induction s) auto

lemma strings_Split_parts: "p \<in> set (strings_Split c s) \<Longrightarrow> c \<notin> set p \<and> set p \<subseteq> set s"
proof (induction s arbitrary: p)
  case (Cons x xs)
  then show ?case
    by (cases "strings_Split c xs") (fastforce split: if_splits)+
qed simp

lemma strings_Split_Join [go_strings]:
  "xs \<noteq> [] \<Longrightarrow> \<forall>x \<in> set xs. c \<notin> set x \<Longrightarrow> strings_Split c (strings_Join [c] xs) = xs"
proof (induction "[c]" xs rule: strings_Join.induct)
  case (3 x y ys)
  then show ?case by (simp add: strings_Split_append)
qed (simp_all add: strings_Split_no_sep)

lemma strings_Join_Split [go_strings]: "strings_Join [c] (strings_Split c s) = s"
proof (induction s)
  case (Cons x xs)
  then show ?case
    by (cases "strings_Split c xs"; cases "tl (strings_Split c xs)") auto
qed simp

lemma strings_SplitN2_no_sep [go_strings]: "c \<notin> set s \<Longrightarrow> strings_SplitN2 c s = [s]"
proof -
  assume "c \<notin> set s"
  then have "dropWhile (\<lambda>x. x \<noteq> c) s = []" by (auto simp: dropWhile_eq_Nil_conv)
  then show ?thesis unfolding strings_SplitN2_def by (simp only: list.case)
qed

lemma strings_SplitN2_append [go_strings]:
  "c \<notin> set k \<Longrightarrow> strings_SplitN2 c (k @ c # v) = [k, v]"
proof -
  assume k: "c \<notin> set k"
  then have "dropWhile (\<lambda>x. x \<noteq> c) (k @ c # v) = c # v"
    and "takeWhile (\<lambda>x. x \<noteq> c) (k @ c # v) = k"
    by (induction k) auto
  then show ?thesis by (simp add: strings_SplitN2_def)
qed

lemma strings_SplitN2_pair:
  "strings_SplitN2 c s = [k, v] \<longleftrightarrow> s = k @ c # v \<and> c \<notin> set k"
proof (cases "c \<in> set s")
  case True
  then obtain a b where "s = a @ c # b" "c \<notin> set a" by (meson split_list_first)
  then show ?thesis
    by (auto simp: strings_SplitN2_append append_eq_append_conv2 Cons_eq_append_conv
        append_eq_Cons_conv)
next
  case False
  then show ?thesis by (auto simp: strings_SplitN2_no_sep)
qed

lemma strings_SplitN2_cases:
  obtains "strings_SplitN2 c s = [s]" "c \<notin> set s"
  | k v where "strings_SplitN2 c s = [k, v]" "s = k @ c # v" "c \<notin> set k"
proof (cases "c \<in> set s")
  case True
  then obtain a b where "s = a @ c # b" "c \<notin> set a" by (meson split_list_first)
  then show thesis by (intro that(2)) (simp_all add: strings_SplitN2_append)
next
  case False
  then show thesis by (intro that(1)) (simp_all add: strings_SplitN2_no_sep)
qed

lemma lower_char_idem [simp]: "lower_char (lower_char c) = lower_char c"
  by (auto simp: lower_char_def Let_def)

lemma strings_ToLower_idem [simp]: "strings_ToLower (strings_ToLower s) = strings_ToLower s"
  by (simp add: strings_ToLower_def)

lemma is_space_lower [simp]: "is_space (lower_char c) = is_space c"
  by (auto simp: lower_char_def is_space_def Let_def)

lemma dropWhile_map_lower:
  "dropWhile is_space (map lower_char s) = map lower_char (dropWhile is_space s)"
  by (induction s) auto

lemma strings_Trim_Lower [go_strings]:
  "strings_TrimSpace (strings_ToLower s) = strings_ToLower (strings_TrimSpace s)"
  by (simp add: strings_TrimSpace_def strings_ToLower_def dropWhile_map_lower rev_map)

lemma dropWhile_rev_dropWhile:
  "dropWhile P (rev (dropWhile P (rev (dropWhile P s)))) = rev (dropWhile P (rev (dropWhile P s)))"
proof (cases "dropWhile P s")
  case Nil
  show ?thesis unfolding Nil by simp
next
  case (Cons x xs)
  then have x: "\<not> P x" by (metis hd_dropWhile list.discI list.sel(1))
  have "dropWhile P (rev xs @ [x]) = dropWhile P (rev xs) @ [x]"
    using x by (simp add: dropWhile_append)
  then show ?thesis using Cons x by simp
qed

lemma strings_TrimSpace_idem [simp]:
  "strings_TrimSpace (strings_TrimSpace s) = strings_TrimSpace s"
  by (simp add: strings_TrimSpace_def dropWhile_rev_dropWhile dropWhile_idem)

lemma strings_TrimSpace_subset: "set (strings_TrimSpace s) \<subseteq> set s"
  unfolding strings_TrimSpace_def by (metis set_dropWhileD set_rev subsetI)

subsection \<open>Sums over a list of processes\<close>

text \<open>The components of a concurrent state are lists that change at one index; what they hold
  together is a sum over the list.\<close>

definition sum_over :: "('a \<Rightarrow> 'b::comm_monoid_add) \<Rightarrow> 'a list \<Rightarrow> 'b" where
  "sum_over f xs = sum_list (map f xs)"

lemma sum_over_simps [simp]:
  "sum_over f [] = 0" "sum_over f (x # xs) = f x + sum_over f xs" "sum_over f (xs @ ys) = sum_over f xs + sum_over f ys"
  by (simp_all add: sum_over_def)

lemma sum_over_update:
  "i < length xs \<Longrightarrow> sum_over f (xs[i := y]) + f (xs ! i) = sum_over f xs + f y"
proof (induction xs arbitrary: i)
  case (Cons x xs)
  then show ?case by (cases i) (auto simp: add.assoc add.commute add.left_commute)
qed simp

lemma sum_over_update_same: "i < length xs \<Longrightarrow> f y = f (xs ! i) \<Longrightarrow> sum_over f (xs[i := y]) = sum_over f xs"
  for f :: "'a \<Rightarrow> 'b::cancel_comm_monoid_add"
  using sum_over_update[of i xs f y] by simp

lemma sum_over_member_le: "x \<in> set xs \<Longrightarrow> f x \<le> sum_over f xs" for f :: "'a \<Rightarrow> nat"
  by (induction xs) auto

lemma sum_over_mono: "(\<And>x. x \<in> set xs \<Longrightarrow> f x \<le> g x) \<Longrightarrow> sum_over f xs \<le> sum_over g xs" for f :: "'a \<Rightarrow> nat"
  by (induction xs) (auto intro: add_mono)

subsection \<open>Decimal numbers\<close>

text \<open>The verb \<^verbatim>\<open>%d\<close> of \<^verbatim>\<open>fmt\<close> on a natural number, and its inverse.\<close>

fun decimal :: "nat \<Rightarrow> string" where
  "decimal n = (if n < 10 then [char_of (48 + n)] else decimal (n div 10) @ [char_of (48 + n mod 10)])"

definition decimal_value :: "string \<Rightarrow> nat" where
  "decimal_value s = foldl (\<lambda>v c. 10 * v + (of_char c - 48)) 0 s"

declare decimal.simps [simp del]

lemma decimal_value_decimal [simp]: "decimal_value (decimal n) = n"
proof (induction n rule: decimal.induct)
  case (1 n)
  show ?case
  proof (cases "n < 10")
    case False
    then have "decimal_value (decimal (n div 10)) = n div 10" using 1 by simp
    moreover have "of_char (char_of (48 + n mod 10) :: char) = 48 + n mod 10" by simp
    ultimately show ?thesis using False by (simp add: decimal.simps[of n] decimal_value_def)
  qed (simp add: decimal.simps[of n] decimal_value_def)
qed

lemma decimal_inject [simp]: "decimal m = decimal n \<longleftrightarrow> m = n"
  by (metis decimal_value_decimal)

lemma decimal_digits: "\<forall>c \<in> set (decimal n). 48 \<le> (of_char c :: nat) \<and> (of_char c :: nat) \<le> 57"
proof (induction n rule: decimal.induct)
  case (1 n)
  then show ?case by (subst decimal.simps) auto
qed

lemma decimal_not_Nil [simp]: "decimal n \<noteq> []"
  by (subst decimal.simps) simp

subsection \<open>The process environment\<close>

type_synonym env = "string \<rightharpoonup> string"

definition nul :: char where "nul = CHR 0x00"

definition os_Getenv :: "env \<Rightarrow> string \<Rightarrow> string" where
  "os_Getenv env key = (case env key of Some v \<Rightarrow> v | None \<Rightarrow> [])"

text \<open>\<^verbatim>\<open>os.Setenv\<close> fails on a name or a value that the environment cannot hold, and then changes
  nothing.\<close>

definition setenv_ok :: "string \<Rightarrow> string \<Rightarrow> bool" where
  "setenv_ok key value \<longleftrightarrow> key \<noteq> [] \<and> CHR ''='' \<notin> set key \<and> nul \<notin> set key \<and> nul \<notin> set value"

definition os_Setenv :: "string \<Rightarrow> string \<Rightarrow> env \<Rightarrow> env" where
  "os_Setenv key value env = (if setenv_ok key value then env(key \<mapsto> value) else env)"

text \<open>The environment a process finds when it is started with a list of entries.\<close>

fun env_of :: "string list \<Rightarrow> env" where
  "env_of [] = Map.empty"
| "env_of (e # es) =
     (case strings_SplitN2 (CHR ''='') e of [k, v] \<Rightarrow> (env_of es)(k \<mapsto> v) | _ \<Rightarrow> env_of es)"

lemma env_of_entry: "CHR ''='' \<notin> set k \<Longrightarrow> env_of ((k @ CHR ''='' # v) # es) = (env_of es)(k \<mapsto> v)"
  by (simp add: strings_SplitN2_append)

lemma env_of_Cons_cases:
  obtains "env_of (e # es) = env_of es" "CHR ''='' \<notin> set e"
  | k v where "e = k @ CHR ''='' # v" "CHR ''='' \<notin> set k" "env_of (e # es) = (env_of es)(k \<mapsto> v)"
  by (cases rule: strings_SplitN2_cases[of "CHR ''=''" e]) auto

lemma env_of_append: "env_of (es @ es') = env_of es' ++ env_of es"
proof (induction es)
  case (Cons e es)
  then show ?case
    using env_of.simps(2)[of e es] env_of.simps(2)[of e "es @ es'"] by (simp split: list.split)
qed simp

lemma finite_env_of: "finite (dom (env_of es))"
proof (induction es)
  case (Cons e es)
  then show ?case by (cases rule: env_of_Cons_cases[of e es]) (auto simp: dom_if simp del: env_of.simps(2))
qed simp

lemma env_of_keys: "k \<in> dom (env_of es) \<Longrightarrow> CHR ''='' \<notin> set k"
proof (induction es)
  case (Cons e es)
  then show ?case by (cases rule: env_of_Cons_cases[of e es]) (auto simp: dom_def simp del: env_of.simps(2) split: if_splits)
qed simp

text \<open>Where every name has one entry the order of the entries does not matter.\<close>

definition entry_key :: "string \<Rightarrow> string" where
  "entry_key e = takeWhile (\<lambda>c. c \<noteq> CHR ''='') e"

lemma entry_key_simp [simp]: "CHR ''='' \<notin> set k \<Longrightarrow> entry_key (k @ CHR ''='' # v) = k"
  unfolding entry_key_def by (subst takeWhile_append2) auto

lemma env_of_dom: "dom (env_of es) \<subseteq> entry_key ` set es"
proof (induction es)
  case (Cons e es)
  then show ?case
    by (cases rule: env_of_Cons_cases[of e es]) (auto simp: dom_def split: if_splits simp del: env_of.simps(2))
qed simp

lemma env_of_rev: "distinct (map entry_key es) \<Longrightarrow> env_of (rev es) = env_of es"
proof (induction es)
  case (Cons e es)
  have "env_of (rev (e # es)) = env_of [e] ++ env_of es" using Cons by (simp add: env_of_append del: env_of.simps(2))
  also have "\<dots> = env_of (e # es)"
  proof (cases rule: env_of_Cons_cases[of e es])
    case 1
    then have "env_of [e] = Map.empty" by (simp add: strings_SplitN2_no_sep)
    then show ?thesis using 1(1) by (simp del: env_of.simps(2))
  next
    case (2 k v)
    then have "k \<notin> dom (env_of es)" using Cons.prems env_of_dom[of es] by auto
    moreover have "env_of [e] = [k \<mapsto> v]" using 2 env_of_entry[of k v "[]"] by simp
    ultimately show ?thesis using 2(3) by (auto simp: map_add_def fun_eq_iff split: option.split simp del: env_of.simps(2))
  qed
  finally show ?case .
qed simp

end
