(* ===== verification/StringSet.thy ===== *)
theory StringSet
  imports Prelude
begin

text \<open>
  The package \<^verbatim>\<open>set\<close>: \<^verbatim>\<open>Strings\<close> (\<^verbatim>\<open>src/set/strings.go\<close>)
  and \<^verbatim>\<open>Tags\<close> (\<^verbatim>\<open>src/set/tags.go\<close>), two sets written over a Go map to
  \<^verbatim>\<open>bool\<close>. The contract they share is the locale \<open>go_set\<close>, whose lemmas are
  proved once and interpreted on both. The tags themselves come from another repository
  (\<^verbatim>\<open>github.com/juju/names\<close>): their type is a type variable, and
  \<^verbatim>\<open>String\<close> and \<^verbatim>\<open>ParseTag\<close> are arguments.
\<close>

subsection \<open>Strings\<close>

type_synonym Strings = "(string, bool) gomap"

definition Strings_Add :: "Strings \<Rightarrow> string \<Rightarrow> panic + Strings" where
  "Strings_Add s value =
     (case s of
        None \<Rightarrow> Inl (Panic ''uninitalised set'')
      | Some m \<Rightarrow> Inr (Some (Mapping.update value True m)))"

definition NewStrings :: "string list \<Rightarrow> panic + Strings" where
  "NewStrings initial =
     foldl (\<lambda>r value. sum_bind r (\<lambda>result. Strings_Add result value))
       (Inr (Some Mapping.empty)) initial"

definition Strings_Size :: "Strings \<Rightarrow> nat" where
  "Strings_Size s = gm_len s"

definition Strings_IsEmpty :: "Strings \<Rightarrow> bool" where
  "Strings_IsEmpty s \<longleftrightarrow> gm_len s = 0"

definition Strings_Remove :: "Strings \<Rightarrow> string \<Rightarrow> Strings" where
  "Strings_Remove s value = gm_delete value s"

definition Strings_Contains :: "Strings \<Rightarrow> string \<Rightarrow> bool" where
  "Strings_Contains s value = gm_exists s value"

text \<open>The loop of \<^verbatim>\<open>Values\<close> writes each key at the next index of a slice made with
  the length of the map.\<close>

fun fill_slice :: "'a list \<Rightarrow> nat \<Rightarrow> 'a list \<Rightarrow> 'a list" where
  "fill_slice [] i result = result"
| "fill_slice (key # keys) i result = fill_slice keys (Suc i) (result[i := key])"

definition Strings_Values :: "Strings \<Rightarrow> string list \<Rightarrow> string list" where
  "Strings_Values s order = fill_slice order 0 (replicate (gm_len s) [])"

definition Strings_SortedValues :: "Strings \<Rightarrow> string list \<Rightarrow> string list" where
  "Strings_SortedValues s order = sort (Strings_Values s order)"

definition Strings_Union :: "Strings \<Rightarrow> string list \<Rightarrow> Strings \<Rightarrow> string list \<Rightarrow> Strings" where
  "Strings_Union s order other order' =
     (let result = fold (\<lambda>value r. Mapping.update value True r) order Mapping.empty
      in Some (fold (\<lambda>value r. Mapping.update value True r) order' result))"

definition Strings_Intersection :: "Strings \<Rightarrow> string list \<Rightarrow> Strings \<Rightarrow> Strings" where
  "Strings_Intersection s order other =
     Some (fold (\<lambda>value r. if Strings_Contains other value then Mapping.update value True r else r)
       order Mapping.empty)"

definition Strings_Difference :: "Strings \<Rightarrow> string list \<Rightarrow> Strings \<Rightarrow> Strings" where
  "Strings_Difference s order other =
     Some (fold (\<lambda>value r. if \<not> Strings_Contains other value then Mapping.update value True r else r)
       order Mapping.empty)"

subsection \<open>Tags\<close>

type_synonym 'tag Tags = "('tag, bool) gomap"

definition Tags_Add :: "'tag Tags \<Rightarrow> 'tag \<Rightarrow> panic + 'tag Tags" where
  "Tags_Add t value =
     (case t of
        None \<Rightarrow> Inl (Panic ''uninitalised set'')
      | Some m \<Rightarrow> Inr (Some (Mapping.update value True m)))"

definition NewTags :: "'tag list \<Rightarrow> panic + 'tag Tags" where
  "NewTags initial =
     foldl (\<lambda>r value. sum_bind r (\<lambda>result. Tags_Add result value))
       (Inr (Some Mapping.empty)) initial"

text \<open>The loop of \<^verbatim>\<open>NewTagsFromStrings\<close> stops at the first string that does not
  parse and returns the tags added so far together with the error.\<close>

fun add_parsed :: "(string \<Rightarrow> 'err + 'tag) \<Rightarrow> 'tag Tags \<Rightarrow> string list \<Rightarrow> panic + ('tag Tags \<times> 'err option)" where
  "add_parsed ParseTag result [] = Inr (result, None)"
| "add_parsed ParseTag result (value # values) =
     (case ParseTag value of
        Inl err \<Rightarrow> Inr (result, Some err)
      | Inr tag \<Rightarrow> sum_bind (Tags_Add result tag) (\<lambda>result'. add_parsed ParseTag result' values))"

definition NewTagsFromStrings ::
  "(string \<Rightarrow> 'err + 'tag) \<Rightarrow> string list \<Rightarrow> panic + ('tag Tags \<times> 'err option)" where
  "NewTagsFromStrings ParseTag initial = add_parsed ParseTag (Some Mapping.empty) initial"

definition Tags_Size :: "'tag Tags \<Rightarrow> nat" where
  "Tags_Size t = gm_len t"

definition Tags_IsEmpty :: "'tag Tags \<Rightarrow> bool" where
  "Tags_IsEmpty t \<longleftrightarrow> gm_len t = 0"

definition Tags_Remove :: "'tag Tags \<Rightarrow> 'tag \<Rightarrow> 'tag Tags" where
  "Tags_Remove t value = gm_delete value t"

definition Tags_Contains :: "'tag Tags \<Rightarrow> 'tag \<Rightarrow> bool" where
  "Tags_Contains t value = gm_exists t value"

text \<open>A slice of \<^verbatim>\<open>names.Tag\<close> is made with nil entries: an entry is \<^const>\<open>None\<close> until it
  is written.\<close>

definition Tags_Values :: "'tag Tags \<Rightarrow> 'tag list \<Rightarrow> 'tag option list" where
  "Tags_Values t order = fill_slice (map Some order) 0 (replicate (gm_len t) None)"

definition Tags_stringValues :: "('tag \<Rightarrow> string) \<Rightarrow> 'tag Tags \<Rightarrow> 'tag list \<Rightarrow> string list" where
  "Tags_stringValues String t order = fill_slice (map String order) 0 (replicate (Tags_Size t) [])"

definition Tags_SortedValues ::
  "('tag \<Rightarrow> string) \<Rightarrow> (string \<Rightarrow> 'err + 'tag) \<Rightarrow> 'tag Tags \<Rightarrow> 'tag list \<Rightarrow> 'tag option list" where
  "Tags_SortedValues String ParseTag t order =
     (let values = sort (Tags_stringValues String t order)
      in map (\<lambda>value. case ParseTag value of Inl _ \<Rightarrow> None | Inr tag \<Rightarrow> Some tag) values)"

definition Tags_Union :: "'tag Tags \<Rightarrow> 'tag list \<Rightarrow> 'tag Tags \<Rightarrow> 'tag list \<Rightarrow> 'tag Tags" where
  "Tags_Union t order other order' =
     (let result = fold (\<lambda>value r. Mapping.update value True r) order Mapping.empty
      in Some (fold (\<lambda>value r. Mapping.update value True r) order' result))"

definition Tags_Intersection :: "'tag Tags \<Rightarrow> 'tag list \<Rightarrow> 'tag Tags \<Rightarrow> 'tag Tags" where
  "Tags_Intersection t order other =
     Some (fold (\<lambda>value r. if Tags_Contains other value then Mapping.update value True r else r)
       order Mapping.empty)"

definition Tags_Difference :: "'tag Tags \<Rightarrow> 'tag list \<Rightarrow> 'tag Tags \<Rightarrow> 'tag Tags" where
  "Tags_Difference t order other =
     Some (fold (\<lambda>value r. if \<not> Tags_Contains other value then Mapping.update value True r else r)
       order Mapping.empty)"

subsection \<open>Loops over a map\<close>

lemma fill_slice_append:
  "length xs = i \<Longrightarrow> length ys = length ks \<Longrightarrow> fill_slice ks i (xs @ ys) = xs @ ks"
proof (induction ks arbitrary: i xs ys)
  case (Cons k ks)
  then obtain y ys' where ys: "ys = y # ys'" by (cases ys) auto
  with Cons.prems have "fill_slice ks (Suc i) ((xs @ [k]) @ ys') = (xs @ [k]) @ ks"
    by (intro Cons.IH) auto
  with ys Cons.prems show ?case by (simp add: list_update_append)
qed simp

lemma fill_slice_all: "length ks = n \<Longrightarrow> fill_slice ks 0 (replicate n x) = ks"
  using fill_slice_append[of "[]" 0 "replicate n x" ks] by simp

lemma keys_fold_update [go_maps]:
  "Mapping.keys (fold (\<lambda>k r. if P k then Mapping.update k True r else r) ks m) =
     {k \<in> set ks. P k} \<union> Mapping.keys m"
  by (induction ks arbitrary: m) auto

lemma keys_fold_update_all [go_maps]:
  "Mapping.keys (fold (\<lambda>k r. Mapping.update k True r) ks m) = set ks \<union> Mapping.keys m"
  using keys_fold_update[of "\<lambda>_. True"] by simp

subsection \<open>The contract of a set\<close>

locale go_set =
  fixes keys :: "'s \<Rightarrow> 'a set"
    and is_nil :: "'s \<Rightarrow> bool"
    and new :: "'a list \<Rightarrow> panic + 's"
    and add :: "'s \<Rightarrow> 'a \<Rightarrow> panic + 's"
    and remove :: "'s \<Rightarrow> 'a \<Rightarrow> 's"
    and contains :: "'s \<Rightarrow> 'a \<Rightarrow> bool"
    and size :: "'s \<Rightarrow> nat"
    and order :: "'s \<Rightarrow> 'a list \<Rightarrow> bool"
    and union :: "'s \<Rightarrow> 'a list \<Rightarrow> 's \<Rightarrow> 'a list \<Rightarrow> 's"
    and inter :: "'s \<Rightarrow> 'a list \<Rightarrow> 's \<Rightarrow> 's"
    and diff :: "'s \<Rightarrow> 'a list \<Rightarrow> 's \<Rightarrow> 's"
  assumes new: "new xs = foldl (\<lambda>r x. sum_bind r (\<lambda>s. add s x)) (new []) xs"
    and new_empty: "\<exists>s. new [] = Inr s \<and> \<not> is_nil s \<and> keys s = {}"
    and add_nil: "is_nil s \<Longrightarrow> \<exists>p. add s x = Inl p"
    and add_ok: "\<not> is_nil s \<Longrightarrow> \<exists>s'. add s x = Inr s' \<and> \<not> is_nil s' \<and> keys s' = insert x (keys s)"
    and keys_nil: "is_nil s \<Longrightarrow> keys s = {}"
    and contains: "contains s x \<longleftrightarrow> x \<in> keys s"
    and keys_remove: "keys (remove s x) = keys s - {x}"
    and nil_remove: "is_nil (remove s x) = is_nil s"
    and size: "size s = card (keys s)"
    and order: "order s ks \<longleftrightarrow> distinct ks \<and> set ks = keys s"
    and union: "order s ks \<Longrightarrow> order t js \<Longrightarrow> keys (union s ks t js) = keys s \<union> keys t"
    and inter: "order s ks \<Longrightarrow> keys (inter s ks t) = keys s \<inter> keys t"
    and diff: "order s ks \<Longrightarrow> keys (diff s ks t) = keys s - keys t"
begin

lemma foldl_add_ok:
  "\<not> is_nil s \<Longrightarrow>
     \<exists>s'. foldl (\<lambda>r x. sum_bind r (\<lambda>s. add s x)) (Inr s) xs = Inr s'
        \<and> \<not> is_nil s' \<and> keys s' = keys s \<union> set xs"
proof (induction xs arbitrary: s)
  case (Cons x xs)
  from add_ok[OF Cons.prems, of x]
  obtain s1 where s1: "add s x = Inr s1" "\<not> is_nil s1" "keys s1 = insert x (keys s)" by blast
  from Cons.IH[OF s1(2)] s1 show ?case by auto
qed auto

lemma new_keys: "\<exists>s. new xs = Inr s \<and> \<not> is_nil s \<and> keys s = set xs"
proof -
  from new_empty obtain s where s: "new [] = Inr s" "\<not> is_nil s" "keys s = {}" by blast
  show ?thesis using foldl_add_ok[OF s(2), of xs] s new[of xs] by auto
qed

lemma new_contains: "new xs = Inr s \<Longrightarrow> contains s x \<longleftrightarrow> x \<in> set xs"
  using new_keys[of xs] by (auto simp: contains)

lemma finite_keys: "order s ks \<Longrightarrow> finite (keys s)"
  by (metis List.finite_set order)

lemma boolean_algebra:
  assumes "order s ks" "order t js"
  shows "contains (union s ks t js) x \<longleftrightarrow> contains s x \<or> contains t x"
    and "contains (inter s ks t) x \<longleftrightarrow> contains s x \<and> contains t x"
    and "contains (diff s ks t) x \<longleftrightarrow> contains s x \<and> \<not> contains t x"
  using assms by (auto simp: contains union inter diff)

lemma sizes:
  assumes "order s ks" "order t js"
  shows "size (union s ks t js) + size (inter s ks t) = size s + size t"
    and "size (diff s ks t) + size (inter s ks t) = size s"
proof -
  have fin: "finite (keys s)" "finite (keys t)" using assms finite_keys by auto
  show "size (union s ks t js) + size (inter s ks t) = size s + size t"
    using assms card_Un_Int[OF fin] by (simp add: size union inter)
  have "keys s = (keys s - keys t) \<union> (keys s \<inter> keys t)" by blast
  then have "card (keys s) = card (keys s - keys t) + card (keys s \<inter> keys t)"
    using fin card_Un_disjoint[of "keys s - keys t" "keys s \<inter> keys t"] by auto
  then show "size (diff s ks t) + size (inter s ks t) = size s"
    using assms by (simp add: size diff inter)
qed

end

interpretation strs: go_set gm_keys "\<lambda>s. s = None" NewStrings Strings_Add Strings_Remove
  Strings_Contains Strings_Size range_order Strings_Union Strings_Intersection Strings_Difference
proof unfold_locales
  show "NewStrings xs = foldl (\<lambda>r x. sum_bind r (\<lambda>s. Strings_Add s x)) (NewStrings []) xs" for xs
    by (simp add: NewStrings_def)
qed (auto simp: NewStrings_def Strings_Add_def Strings_Remove_def Strings_Contains_def
      Strings_Size_def Strings_Union_def Strings_Intersection_def Strings_Difference_def
      range_order_def Let_def go_maps)

interpretation tags: go_set gm_keys "\<lambda>t. t = None" NewTags Tags_Add Tags_Remove
  Tags_Contains Tags_Size range_order Tags_Union Tags_Intersection Tags_Difference
proof unfold_locales
  show "NewTags xs = foldl (\<lambda>r x. sum_bind r (\<lambda>s. Tags_Add s x)) (NewTags []) xs" for xs :: "'a list"
    by (simp add: NewTags_def)
qed (auto simp: NewTags_def Tags_Add_def Tags_Remove_def Tags_Contains_def
      Tags_Size_def Tags_Union_def Tags_Intersection_def Tags_Difference_def
      range_order_def Let_def go_maps)

subsection \<open>Sorted values\<close>

lemma Strings_Values_order: "range_order s order \<Longrightarrow> Strings_Values s order = order"
  by (simp add: Strings_Values_def fill_slice_all range_orderD)

lemma Tags_Values_order: "range_order t order \<Longrightarrow> Tags_Values t order = map Some order"
  by (simp add: Tags_Values_def fill_slice_all range_orderD)

lemma Tags_stringValues_order: "range_order t order \<Longrightarrow> Tags_stringValues String t order = map String order"
  by (simp add: Tags_stringValues_def Tags_Size_def fill_slice_all range_orderD)

lemma Strings_SortedValues_spec:
  assumes "range_order s order"
  shows "sorted (Strings_SortedValues s order)" "distinct (Strings_SortedValues s order)"
    "set (Strings_SortedValues s order) = gm_keys s"
  using assms by (simp_all add: Strings_SortedValues_def Strings_Values_order range_orderD)

text \<open>The three binary operations of Strings are union, intersection and difference, whatever
  order the map iteration takes: for every string the result contains it exactly when the operands
  say so, and the sizes add up.\<close>

theorem Strings_set_operations:
  assumes "range_order s ks" "range_order t js"
  shows "(\<forall>x. Strings_Contains (Strings_Union s ks t js) x \<longleftrightarrow> Strings_Contains s x \<or> Strings_Contains t x)
    \<and> (\<forall>x. Strings_Contains (Strings_Intersection s ks t) x \<longleftrightarrow> Strings_Contains s x \<and> Strings_Contains t x)
    \<and> (\<forall>x. Strings_Contains (Strings_Difference s ks t) x \<longleftrightarrow> Strings_Contains s x \<and> \<not> Strings_Contains t x)
    \<and> Strings_Size (Strings_Union s ks t js) + Strings_Size (Strings_Intersection s ks t) =
      Strings_Size s + Strings_Size t
    \<and> Strings_Size (Strings_Difference s ks t) + Strings_Size (Strings_Intersection s ks t) =
      Strings_Size s"
  using strs.boolean_algebra[OF assms] strs.sizes[OF assms] by blast

theorem Strings_set_operations_witness:
  "let s = Some (Mapping.update ''a'' True (Mapping.update ''b'' True Mapping.empty)) :: Strings;
       t = Some (Mapping.update ''b'' True Mapping.empty) :: Strings
   in Strings_Contains (Strings_Union s [''b'', ''a''] t [''b'']) ''a''
    \<and> Strings_Size (Strings_Difference s [''b'', ''a''] t) + Strings_Size (Strings_Intersection s [''b'', ''a''] t) = 2"
proof -
  let ?s = "Some (Mapping.update ''a'' True (Mapping.update ''b'' True Mapping.empty)) :: Strings"
  let ?t = "Some (Mapping.update ''b'' True Mapping.empty) :: Strings"
  have o: "range_order ?s [''b'', ''a'']" "range_order ?t [''b'']"
    by (auto simp: range_order_def)
  have "Strings_Contains ?s ''a''" "Strings_Size ?s = 2"
    by (simp_all add: Strings_Contains_def Strings_Size_def go_maps)
  then show ?thesis using Strings_set_operations[OF o] unfolding Let_def by metis
qed

text \<open>SortedValues of a Strings set is sorted, has every member exactly once, and does not
  depend on the order the map iteration took.\<close>

theorem Strings_SortedValues_canonical:
  assumes "range_order s order"
  shows "sorted (Strings_SortedValues s order) \<and> distinct (Strings_SortedValues s order)
    \<and> (\<forall>x. x \<in> set (Strings_SortedValues s order) \<longleftrightarrow> Strings_Contains s x)
    \<and> length (Strings_SortedValues s order) = Strings_Size s
    \<and> (\<forall>order'. range_order s order' \<longrightarrow> Strings_SortedValues s order' = Strings_SortedValues s order)"
proof -
  have "Strings_SortedValues s order' = Strings_SortedValues s order" if "range_order s order'" for order'
    using sort_range_order_unique[OF that assms] that assms
    by (simp add: Strings_SortedValues_def Strings_Values_order)
  with Strings_SortedValues_spec[OF assms] range_orderD[OF assms] show ?thesis
    by (simp add: Strings_Contains_def gm_exists_iff Strings_Size_def Strings_SortedValues_def
        Strings_Values_order[OF assms])
qed

text \<open>SortedValues of a Tags set, under the documented behaviour of the names package that
  parsing the string of a tag gives the tag back: no entry of the slice is nil although the parse
  error is dropped, every member occurs exactly once, and the strings of the tags are sorted.\<close>

theorem Tags_SortedValues_complete:
  assumes names: "\<And>tag. ParseTag (String tag) = Inr tag"
    and ord: "range_order t order"
  shows "\<exists>ts. Tags_SortedValues String ParseTag t order = map Some ts
     \<and> distinct ts \<and> set ts = {tag. Tags_Contains t tag} \<and> sorted (map String ts)"
proof -
  have inj: "inj String" by (metis injI names sum.inject(2))
  let ?ss = "sort (map String order)"
  let ?ts = "map (the_inv String) ?ss"
  have strs: "map String ?ts = ?ss"
    by (auto intro!: map_idI simp: the_inv_f_f[OF inj])
  have "Tags_SortedValues String ParseTag t order = map Some ?ts"
    using f_the_inv_into_f[OF inj] names
    by (auto simp: Tags_SortedValues_def Tags_stringValues_order[OF ord] the_inv_f_f[OF inj])
  moreover have "distinct ?ts"
    using strs ord inj by (metis distinct_map distinct_sort inj_on_subset range_orderD(1) subset_UNIV)
  moreover have "set ?ts = {tag. Tags_Contains t tag}"
    using ord by (auto simp: Tags_Contains_def gm_exists_iff the_inv_f_f[OF inj] range_orderD(2)[symmetric]
        image_image)
  ultimately show ?thesis using strs by (metis sorted_sort)
qed

theorem Tags_SortedValues_complete_witness:
  "\<exists>ts. Tags_SortedValues (\<lambda>n. replicate n CHR ''x'') (\<lambda>s. Inr (length s) :: unit + nat)
     (Some (Mapping.update 2 True (Mapping.update 1 True Mapping.empty))) [2, 1] = map Some ts
     \<and> distinct ts"
proof -
  have o: "range_order (Some (Mapping.update (2::nat) True (Mapping.update 1 True Mapping.empty)) :: nat Tags) [2, 1]"
    by (auto simp: range_order_def)
  from Tags_SortedValues_complete[of "\<lambda>s. Inr (length s) :: unit + nat" "\<lambda>n. replicate n CHR ''x''", OF _ o]
  show ?thesis by auto
qed

end
