(* ===== verification/FeatureFlag.thy ===== *)
theory FeatureFlag
  imports StringSet
begin

text \<open>
  The package \<^verbatim>\<open>featureflag\<close> (\<^verbatim>\<open>src/featureflag/flags.go\<close>): a global
  set of flags, read from an environment variable and printed back to one. The global variable
  \<^verbatim>\<open>flags\<close> is an argument and a result; the environment is a function that gives the
  empty string for an unset variable, as \<^verbatim>\<open>os.Getenv\<close> does.
\<close>

type_synonym environ = "string \<Rightarrow> string"

fun add_flags :: "Strings \<Rightarrow> string list \<Rightarrow> panic + Strings" where
  "add_flags flags [] = Inr flags"
| "add_flags flags (flag # rest) =
     (let flag' = strings_TrimSpace flag
      in if flag' \<noteq> [] then sum_bind (Strings_Add flags flag') (\<lambda>flags'. add_flags flags' rest)
         else add_flags flags rest)"

definition SetFlagsFromEnvironment :: "environ \<Rightarrow> string \<Rightarrow> panic + Strings" where
  "SetFlagsFromEnvironment env envVarName =
     (let values = strings_ToLower (env envVarName)
      in sum_bind (NewStrings []) (\<lambda>flags. add_flags flags (strings_Split CHR '','' values)))"

definition Enabled :: "Strings \<Rightarrow> string \<Rightarrow> bool" where
  "Enabled flags flag = Strings_Contains flags (strings_TrimSpace (strings_ToLower flag))"

definition All :: "Strings \<Rightarrow> string list \<Rightarrow> string list" where
  "All flags order = Strings_Values flags order"

definition AsEnvironmentValue :: "Strings \<Rightarrow> string list \<Rightarrow> string" where
  "AsEnvironmentValue flags order = strings_Join '','' (Strings_SortedValues flags order)"

text \<open>\<^verbatim>\<open>String\<close> quotes each flag with the verb \<^verbatim>\<open>%q\<close>; on ASCII text
  that is \<^verbatim>\<open>strconv.Quote\<close>: quotes and backslashes escaped, the control characters
  as their short escapes or \<^verbatim>\<open>\xNN\<close>.\<close>

definition quote_char :: "char \<Rightarrow> string" where
  "quote_char c =
     (let n = of_char c :: nat in
      if n = 34 \<or> n = 92 then [CHR 0x5C, c]
      else if n = 7 then [CHR 0x5C, CHR ''a'']
      else if n = 8 then [CHR 0x5C, CHR ''b'']
      else if n = 12 then [CHR 0x5C, CHR ''f'']
      else if n = 10 then [CHR 0x5C, CHR ''n'']
      else if n = 13 then [CHR 0x5C, CHR ''r'']
      else if n = 9 then [CHR 0x5C, CHR ''t'']
      else if n = 11 then [CHR 0x5C, CHR ''v'']
      else if n < 32 \<or> n = 127 then [CHR 0x5C, CHR ''x'', hex_digit (n div 16), hex_digit (n mod 16)]
      else [c])"

definition strconv_Quote :: "string \<Rightarrow> string" where
  "strconv_Quote s = [CHR 0x22] @ concat (map quote_char s) @ [CHR 0x22]"

definition String_flags :: "Strings \<Rightarrow> string list \<Rightarrow> string" where
  "String_flags flags order = strings_Join '', '' (map strconv_Quote (Strings_SortedValues flags order))"

subsection \<open>What is set\<close>

definition flag_list :: "string \<Rightarrow> string list" where
  "flag_list v = filter (\<lambda>f. f \<noteq> []) (map strings_TrimSpace (strings_Split CHR '','' v))"

lemma add_flags_ok:
  "flags \<noteq> None \<Longrightarrow>
     \<exists>flags'. add_flags flags parts = Inr flags' \<and> flags' \<noteq> None
        \<and> gm_keys flags' = gm_keys flags \<union> set (filter (\<lambda>f. f \<noteq> []) (map strings_TrimSpace parts))"
proof (induction parts arbitrary: flags)
  case (Cons p ps)
  show ?case
  proof (cases "strings_TrimSpace p = []")
    case True
    with Cons.IH[OF Cons.prems] show ?thesis by simp
  next
    case False
    from strs.add_ok[OF Cons.prems, of "strings_TrimSpace p"] obtain f1 where
      f1: "Strings_Add flags (strings_TrimSpace p) = Inr f1" "f1 \<noteq> None"
        "gm_keys f1 = insert (strings_TrimSpace p) (gm_keys flags)" by blast
    from Cons.IH[OF f1(2)] f1 False show ?thesis by auto
  qed
qed auto

lemma SetFlagsFromEnvironment_keys:
  "\<exists>flags. SetFlagsFromEnvironment env name = Inr flags
     \<and> gm_keys flags = set (flag_list (strings_ToLower (env name)))"
proof -
  from strs.new_keys[of "[]"] obtain s where s: "NewStrings [] = Inr s" "s \<noteq> None" "gm_keys s = {}"
    by auto
  from add_flags_ok[OF s(2), of "strings_Split CHR '','' (strings_ToLower (env name))"] s
  show ?thesis by (auto simp: SetFlagsFromEnvironment_def flag_list_def)
qed

lemma flag_list_lower_normal:
  assumes "f \<in> set (flag_list (strings_ToLower v))"
  shows "f \<noteq> []" "strings_TrimSpace f = f" "strings_ToLower f = f" "CHR '','' \<notin> set f"
proof -
  from assms obtain p where p: "p \<in> set (strings_Split CHR '','' (strings_ToLower v))"
    "f = strings_TrimSpace p" "f \<noteq> []" by (auto simp: flag_list_def)
  from strings_Split_parts[OF p(1)] have comma: "CHR '','' \<notin> set p"
    and sub: "set p \<subseteq> set (strings_ToLower v)" by auto
  have "map lower_char p = p"
    using sub by (intro map_idI) (auto simp: strings_ToLower_def)
  then have "strings_ToLower p = p" by (simp add: strings_ToLower_def)
  with p show "strings_ToLower f = f" by (metis strings_Trim_Lower)
  show "f \<noteq> []" "strings_TrimSpace f = f" "CHR '','' \<notin> set f"
    using p comma strings_TrimSpace_subset by auto
qed

lemma flag_list_Join:
  assumes "\<forall>f \<in> set fs. f \<noteq> [] \<and> strings_TrimSpace f = f \<and> CHR '','' \<notin> set f"
  shows "flag_list (strings_Join '','' fs) = fs"
proof (cases "fs = []")
  case True
  then show ?thesis by (simp add: flag_list_def strings_TrimSpace_def)
next
  case False
  have "map strings_TrimSpace fs = fs" using assms by (simp add: map_idI)
  moreover have "filter (\<lambda>f. f \<noteq> []) fs = fs" using assms by (simp add: filter_id_conv)
  ultimately show ?thesis
    using strings_Split_Join[OF False, of "CHR '',''"] assms by (simp add: flag_list_def)
qed

lemma strings_ToLower_Join:
  "\<forall>f \<in> set fs. strings_ToLower f = f \<Longrightarrow> strings_ToLower (strings_Join '','' fs) = strings_Join '','' fs"
proof (induction "'',''" fs rule: strings_Join.induct)
  case (3 x y ys)
  then show ?case by (simp add: strings_ToLower_def lower_char_def)
qed (simp_all add: strings_ToLower_def)

text \<open>After the flags are read from an environment variable, a flag is enabled exactly when,
  up to case and surrounding white space, it is one of the non-empty comma separated parts of the
  value; reading the flags never panics.\<close>

theorem Enabled_after_SetFlags:
  "\<exists>flags. SetFlagsFromEnvironment env name = Inr flags
     \<and> (\<forall>flag. Enabled flags flag \<longleftrightarrow>
          strings_TrimSpace (strings_ToLower flag) \<noteq> []
          \<and> (\<exists>part \<in> set (strings_Split CHR '','' (env name)).
               strings_TrimSpace (strings_ToLower part) = strings_TrimSpace (strings_ToLower flag)))"
proof -
  have split: "strings_Split CHR '','' (strings_ToLower v) = map strings_ToLower (strings_Split CHR '','' v)" for v
  proof (induction v)
    case (Cons x xs)
    have "lower_char x = CHR '','' \<longleftrightarrow> x = CHR '',''"
      by (auto simp: lower_char_def Let_def of_char_eq_iff dest: arg_cong[of _ _ "of_char :: char \<Rightarrow> nat"])
    with Cons show ?case
      by (cases "strings_Split CHR '','' xs") (auto simp: strings_ToLower_def)
  qed (simp add: strings_ToLower_def)
  obtain flags where "SetFlagsFromEnvironment env name = Inr flags"
    "gm_keys flags = set (flag_list (strings_ToLower (env name)))"
    using SetFlagsFromEnvironment_keys by blast
  then show ?thesis
    by (auto simp: Enabled_def Strings_Contains_def gm_exists_iff flag_list_def split
        intro: rev_image_eqI)
qed

text \<open>The value AsEnvironmentValue prints, read back by SetFlagsFromEnvironment from any
  variable, gives the same set of flags, for every set of flags that was read from an environment
  and every order of the map iteration.\<close>

theorem AsEnvironmentValue_roundtrip:
  assumes "SetFlagsFromEnvironment env name = Inr flags"
    and "range_order flags order"
    and "env' name' = AsEnvironmentValue flags order"
  shows "\<exists>flags'. SetFlagsFromEnvironment env' name' = Inr flags'
     \<and> (\<forall>flag. Strings_Contains flags' flag \<longleftrightarrow> Strings_Contains flags flag)"
proof -
  let ?fs = "Strings_SortedValues flags order"
  have keys: "gm_keys flags = set (flag_list (strings_ToLower (env name)))"
    using SetFlagsFromEnvironment_keys[of env name] assms(1) by auto
  have fs: "set ?fs = gm_keys flags" using Strings_SortedValues_spec(3)[OF assms(2)] .
  then have normal: "\<forall>f \<in> set ?fs. f \<noteq> [] \<and> strings_TrimSpace f = f \<and> CHR '','' \<notin> set f"
    and lower: "\<forall>f \<in> set ?fs. strings_ToLower f = f"
    using flag_list_lower_normal keys by auto
  have "flag_list (strings_ToLower (env' name')) = ?fs"
    using flag_list_Join[OF normal] strings_ToLower_Join[OF lower] assms(3)
    by (simp add: AsEnvironmentValue_def)
  then show ?thesis
    using SetFlagsFromEnvironment_keys[of env' name'] fs
    by (auto simp: Strings_Contains_def gm_exists_iff)
qed

theorem AsEnvironmentValue_roundtrip_witness:
  "\<exists>flags flags'. SetFlagsFromEnvironment (\<lambda>_. '' Special, mess,'') ''JUJU'' = Inr flags
     \<and> SetFlagsFromEnvironment (\<lambda>_. AsEnvironmentValue flags [''mess'', ''special'']) ''OTHER'' = Inr flags'
     \<and> Strings_Contains flags' ''special''"
proof -
  obtain flags where f: "SetFlagsFromEnvironment (\<lambda>_. '' Special, mess,'') ''JUJU'' = Inr flags"
    "gm_keys flags = set (flag_list (strings_ToLower '' Special, mess,''))"
    using SetFlagsFromEnvironment_keys[of "\<lambda>_. '' Special, mess,''" "''JUJU''"] by auto
  have "flag_list (strings_ToLower '' Special, mess,'') = [''special'', ''mess'']"
    by code_simp
  then have k: "gm_keys flags = {''special'', ''mess''}" using f(2) by simp
  then have "range_order flags [''mess'', ''special'']" by (auto simp: range_order_def)
  from AsEnvironmentValue_roundtrip[OF f(1) this, of "\<lambda>_. AsEnvironmentValue flags [''mess'', ''special'']"]
  obtain flags' where g: "SetFlagsFromEnvironment (\<lambda>_. AsEnvironmentValue flags [''mess'', ''special'']) ''OTHER'' = Inr flags'"
    "\<forall>flag. Strings_Contains flags' flag \<longleftrightarrow> Strings_Contains flags flag" by blast
  have "Strings_Contains flags ''special''" using k by (simp add: Strings_Contains_def gm_exists_iff)
  with f(1) g show ?thesis by blast
qed

end
