(* ===== verification/KeyValues.thy ===== *)
theory KeyValues
  imports Prelude
begin

text \<open>
  The package \<^verbatim>\<open>keyvalues\<close> (\<^verbatim>\<open>src/keyvalues/keyvalues.go\<close>): parsing
  \<^verbatim>\<open>key=value\<close> arguments into a map. An error value is a constructor with the
  argument its message is formatted from.
\<close>

datatype kv_error = ExpectedKeyValue string | DuplicateError string

fun Parse_loop ::
  "bool \<Rightarrow> (string, string) mapping \<Rightarrow> string list \<Rightarrow> kv_error + (string, string) mapping" where
  "Parse_loop allowEmptyValues results [] = Inr results"
| "Parse_loop allowEmptyValues results (kv # src) =
     (let parts = strings_SplitN2 CHR ''='' kv in
      if length parts \<noteq> 2 \<or> length (parts ! 0) = 0 then Inl (ExpectedKeyValue kv)
      else if \<not> allowEmptyValues \<and> length (parts ! 1) = 0 then Inl (ExpectedKeyValue kv)
      else if Mapping.lookup results (parts ! 0) \<noteq> None then Inl (DuplicateError (parts ! 0))
      else Parse_loop allowEmptyValues (Mapping.update (parts ! 0) (parts ! 1) results) src)"

definition Parse :: "string list \<Rightarrow> bool \<Rightarrow> kv_error + (string, string) mapping" where
  "Parse src allowEmptyValues = Parse_loop allowEmptyValues Mapping.empty src"

subsection \<open>The grammar of an argument\<close>

definition kv_pair :: "bool \<Rightarrow> string \<times> string \<Rightarrow> bool" where
  "kv_pair allowEmptyValues = (\<lambda>(k, v). k \<noteq> [] \<and> CHR ''='' \<notin> set k \<and> (allowEmptyValues \<or> v \<noteq> []))"

definition kv_print :: "string \<times> string \<Rightarrow> string" where
  "kv_print = (\<lambda>(k, v). k @ ''='' @ v)"

declare Parse_loop.simps(2) [simp del]

lemma Parse_loop_pair:
  assumes "kv_pair e (k, v)"
  shows "Parse_loop e m (kv_print (k, v) # src) =
    (if Mapping.lookup m k \<noteq> None then Inl (DuplicateError k) else Parse_loop e (Mapping.update k v m) src)"
proof -
  have "strings_SplitN2 CHR ''='' (kv_print (k, v)) = [k, v]"
    using assms by (simp add: kv_pair_def kv_print_def strings_SplitN2_append)
  then show ?thesis using assms by (auto simp: kv_pair_def Let_def Parse_loop.simps)
qed

lemma Parse_loop_bad:
  assumes "\<nexists>p. kv_pair e p \<and> kv = kv_print p"
  shows "Parse_loop e m (kv # src) = Inl (ExpectedKeyValue kv)"
proof (cases rule: strings_SplitN2_cases[of "CHR ''=''" kv])
  case 1
  then show ?thesis by (simp add: Parse_loop.simps)
next
  case (2 k v)
  with assms have "\<not> kv_pair e (k, v)" by (auto simp: kv_print_def)
  with 2 show ?thesis by (auto simp: kv_pair_def Parse_loop.simps Let_def)
qed

lemma Parse_loop_app:
  "Parse_loop e m (xs @ ys) = sum_bind (Parse_loop e m xs) (\<lambda>m'. Parse_loop e m' ys)"
proof (induction xs arbitrary: m)
  case (Cons x xs)
  show ?case
  proof (cases "\<exists>p. kv_pair e p \<and> x = kv_print p")
    case True
    then obtain k v where "kv_pair e (k, v)" "x = kv_print (k, v)" by force
    with Cons show ?thesis by (simp add: Parse_loop_pair)
  next
    case False
    then show ?thesis by (simp add: Parse_loop_bad)
  qed
qed simp

lemma Parse_loop_pairs:
  "\<forall>p \<in> set kvs. kv_pair e p \<Longrightarrow> distinct (map fst kvs) \<Longrightarrow> \<forall>k \<in> fst ` set kvs. Mapping.lookup m k = None
   \<Longrightarrow> \<exists>m'. Parse_loop e m (map kv_print kvs) = Inr m' \<and> Mapping.lookup m' = Mapping.lookup m ++ map_of kvs"
proof (induction kvs arbitrary: m)
  case (Cons p kvs)
  obtain k v where p: "p = (k, v)" by force
  have IH: "\<exists>m'. Parse_loop e (Mapping.update k v m) (map kv_print kvs) = Inr m'
      \<and> Mapping.lookup m' = Mapping.lookup (Mapping.update k v m) ++ map_of kvs"
    using Cons.prems p by (intro Cons.IH) (auto simp: lookup_update')
  have img_snd: False if "(k, x) \<in> set kvs" for x
    using that Cons.prems(2) p by force
  then have "Mapping.lookup (Mapping.update k v m) ++ map_of kvs = Mapping.lookup m ++ map_of (p # kvs)"
    using Cons.prems(2) p
    by (auto simp: fun_eq_iff lookup_update' map_add_def split: option.splits
        dest!: map_of_SomeD dest: img_snd)
  moreover have "Parse_loop e m (map kv_print (p # kvs)) = Parse_loop e (Mapping.update k v m) (map kv_print kvs)"
    using Cons.prems p by (simp add: Parse_loop_pair)
  ultimately show ?case using IH by metis
qed simp

lemma Parse_loop_Inr:
  "Parse_loop e m src = Inr m' \<Longrightarrow>
     \<exists>kvs. src = map kv_print kvs \<and> (\<forall>p \<in> set kvs. kv_pair e p) \<and> distinct (map fst kvs)
       \<and> (\<forall>k \<in> fst ` set kvs. Mapping.lookup m k = None)"
proof (induction src arbitrary: m)
  case (Cons kv src)
  then obtain k v where kv: "kv_pair e (k, v)" "kv = kv_print (k, v)"
    by (metis Inl_Inr_False Parse_loop_bad surj_pair)
  with Cons.prems have free: "Mapping.lookup m k = None"
    and "Parse_loop e (Mapping.update k v m) src = Inr m'"
    by (auto simp: Parse_loop_pair split: if_splits)
  from Cons.IH[OF this(2)] obtain kvs where
    "src = map kv_print kvs" "\<forall>p \<in> set kvs. kv_pair e p" "distinct (map fst kvs)"
    "\<forall>j \<in> fst ` set kvs. Mapping.lookup (Mapping.update k v m) j = None" by blast
  with kv free show ?case
    by (intro exI[of _ "(k, v) # kvs"]) (auto simp: lookup_update' split: if_splits)
qed simp

text \<open>Parse succeeds exactly on printed lists of well-formed pairs with distinct keys, and the
  map it returns holds exactly those pairs: printing and parsing are inverse.\<close>

theorem Parse_roundtrip:
  "(\<exists>m. Parse src e = Inr m \<and> Mapping.lookup m = f) \<longleftrightarrow>
   (\<exists>kvs. src = map kv_print kvs \<and> list_all (kv_pair e) kvs \<and> distinct (map fst kvs) \<and> f = map_of kvs)"
  (is "?L \<longleftrightarrow> ?R")
proof
  assume ?R
  then obtain kvs where kvs: "src = map kv_print kvs" "list_all (kv_pair e) kvs"
    "distinct (map fst kvs)" "f = map_of kvs" by blast
  then show ?L
    using Parse_loop_pairs[of kvs e Mapping.empty] by (auto simp: Parse_def list_all_iff)
next
  assume ?L
  then obtain m where m: "Parse_loop e Mapping.empty src = Inr m" "Mapping.lookup m = f"
    by (auto simp: Parse_def)
  from Parse_loop_Inr[OF m(1)] obtain kvs where kvs: "src = map kv_print kvs"
    "\<forall>p \<in> set kvs. kv_pair e p" "distinct (map fst kvs)" by blast
  with Parse_loop_pairs[OF kvs(2,3), of Mapping.empty] m show ?R
    by (intro exI[of _ kvs]) (auto simp: list_all_iff)
qed

lemma Parse_loop_Inl:
  "Parse_loop e m src = Inl err \<Longrightarrow>
     \<exists>pre kv post m' er. src = pre @ kv # post \<and> Parse_loop e m pre = Inr m'
      \<and> Parse_loop e m' (kv # post) = Inl err \<and> Parse_loop e m' [kv] = Inl er"
proof (induction src arbitrary: m)
  case (Cons kv src)
  show ?case
  proof (cases "Parse_loop e m [kv]")
    case (Inl er)
    with Cons.prems show ?thesis by (metis Parse_loop.simps(1) append_Nil)
  next
    case (Inr m1)
    then have step: "Parse_loop e m (kv # ys) = Parse_loop e m1 ys" for ys
      using Parse_loop_app[of e m "[kv]" ys] by simp
    with Cons.prems have "Parse_loop e m1 src = Inl err" by simp
    from Cons.IH[OF this] obtain pre k2 post m' er where
      "src = pre @ k2 # post" "Parse_loop e m1 pre = Inr m'"
      "Parse_loop e m' (k2 # post) = Inl err" "Parse_loop e m' [k2] = Inl er" by blast
    then have "kv # src = (kv # pre) @ k2 # post \<and> Parse_loop e m (kv # pre) = Inr m'
        \<and> Parse_loop e m' (k2 # post) = Inl err \<and> Parse_loop e m' [k2] = Inl er"
      by (simp add: step)
    then show ?thesis by blast
  qed
qed simp

text \<open>The error of Parse is about the first argument that cannot be accepted: everything before it
  parses, and it is either malformed or repeats a key that was given before it.\<close>

theorem Parse_error_first:
  assumes "Parse src e = Inl err"
  shows "\<exists>pre kv post m. src = pre @ kv # post \<and> Parse pre e = Inr m
    \<and> (err = ExpectedKeyValue kv \<and> (\<nexists>p. kv_pair e p \<and> kv = kv_print p)
       \<or> (\<exists>k v. kv = kv_print (k, v) \<and> kv_pair e (k, v) \<and> Mapping.lookup m k \<noteq> None
            \<and> err = DuplicateError k))"
proof -
  from Parse_loop_Inl[OF assms[unfolded Parse_def]] obtain pre kv post m er where
    r: "src = pre @ kv # post" "Parse pre e = Inr m" "Parse_loop e m (kv # post) = Inl err"
      "Parse_loop e m [kv] = Inl er"
    by (auto simp: Parse_def)
  show ?thesis
  proof (cases "\<exists>p. kv_pair e p \<and> kv = kv_print p")
    case True
    then obtain k v where kv: "kv_pair e (k, v)" "kv = kv_print (k, v)" by force
    with r(4) have "Mapping.lookup m k \<noteq> None" by (auto simp: Parse_loop_pair split: if_splits)
    with r kv have "err = DuplicateError k" by (auto simp: Parse_loop_pair)
    with r kv \<open>Mapping.lookup m k \<noteq> None\<close> show ?thesis by blast
  next
    case False
    with r Parse_loop_bad[OF False, of m post] have "err = ExpectedKeyValue kv" by simp
    with r False show ?thesis by blast
  qed
qed

theorem Parse_error_first_witness:
  "\<exists>pre kv post m. [''a=1'', ''b=2'', ''a=3'', ''c''] = pre @ kv # post \<and> Parse pre False = Inr m
    \<and> (DuplicateError ''a'' = ExpectedKeyValue kv \<and> (\<nexists>p. kv_pair False p \<and> kv = kv_print p)
       \<or> (\<exists>k v. kv = kv_print (k, v) \<and> kv_pair False (k, v) \<and> Mapping.lookup m k \<noteq> None
            \<and> DuplicateError ''a'' = DuplicateError k))"
proof -
  have "Parse [''a=1'', ''b=2'', ''a=3'', ''c''] False = Inl (DuplicateError ''a'')"
    by (simp add: Parse_def Parse_loop.simps Let_def strings_SplitN2_def lookup_update' lookup_empty)
  from Parse_error_first[OF this] show ?thesis .
qed

end
