(* ===== verification/Attempt.thy ===== *)
theory Attempt
  imports Prelude
begin

text \<open>
  Retry strategies (\<^verbatim>\<open>src/attempt.go\<close>). Times and durations are integers (nanoseconds):
  the model has no wrap-around, so it speaks about strategies whose times fit in Go's 64-bit
  durations. Every reading of \<^verbatim>\<open>time.Now\<close> is an argument: \<open>now\<close> is the reading at
  the start of a call and \<open>woke\<close> the one after \<^verbatim>\<open>time.Sleep\<close>, so that a
  statement over all readings is a statement over all clocks.
\<close>

record AttemptStrategy =
  s_Total :: int
  s_Delay :: int
  s_Min :: int

record Attempt =
  a_strategy :: AttemptStrategy
  a_last :: int
  a_end :: int
  a_force :: bool
  a_count :: int

definition AttemptStrategy_Start :: "AttemptStrategy \<Rightarrow> int \<Rightarrow> Attempt" where
  "AttemptStrategy_Start s now =
     \<lparr>a_strategy = s, a_last = now, a_end = now + s_Total s, a_force = True, a_count = 0\<rparr>"

definition Attempt_nextSleep :: "Attempt \<Rightarrow> int \<Rightarrow> int" where
  "Attempt_nextSleep a now =
     (let sleep = s_Delay (a_strategy a) - (now - a_last a) in if sleep < 0 then 0 else sleep)"

definition Attempt_Next :: "Attempt \<Rightarrow> int \<Rightarrow> int \<Rightarrow> bool \<times> Attempt" where
  "Attempt_Next a now woke =
     (let sleep = Attempt_nextSleep a now in
      if \<not> a_force a \<and> \<not> now + sleep < a_end a \<and> s_Min (a_strategy a) \<le> a_count a then (False, a)
      else (let now' = (if sleep > 0 \<and> a_count a > 0 then woke else now)
            in (True, a\<lparr>a_force := False, a_count := a_count a + 1, a_last := now'\<rparr>)))"

definition Attempt_HasNext :: "Attempt \<Rightarrow> int \<Rightarrow> bool \<times> Attempt" where
  "Attempt_HasNext a now =
     (if a_force a \<or> s_Min (a_strategy a) > a_count a then (True, a)
      else if now + Attempt_nextSleep a now < a_end a then (True, a\<lparr>a_force := True\<rparr>)
      else (False, a))"

subsection \<open>The retry loop\<close>

text \<open>
  \<^verbatim>\<open>for a := strategy.Start(); a.Next(); { ... }\<close>: the number of times the body runs
  when the calls of \<^verbatim>\<open>Next\<close> read the given clock readings, and whether the loop ended
  before the readings did. \<open>clock_ok\<close> says that time does not run backwards and that a sleep
  lasts at least as long as it was asked to.
\<close>

fun attempt_loop :: "Attempt \<Rightarrow> (int \<times> int) list \<Rightarrow> nat \<times> bool" where
  "attempt_loop a [] = (0, False)"
| "attempt_loop a ((now, woke) # clock) =
     (let (again, a') = Attempt_Next a now woke in
      if again then (let (n, ended) = attempt_loop a' clock in (Suc n, ended)) else (0, True))"

fun clock_ok :: "int \<Rightarrow> Attempt \<Rightarrow> (int \<times> int) list \<Rightarrow> bool" where
  "clock_ok t a [] = True"
| "clock_ok t a ((now, woke) # clock) =
     (t \<le> now \<and> now + Attempt_nextSleep a now \<le> woke
      \<and> clock_ok (a_last (snd (Attempt_Next a now woke))) (snd (Attempt_Next a now woke)) clock)"

subsection \<open>One call\<close>

lemma nextSleep_ge: "s_Delay (a_strategy a) \<le> Attempt_nextSleep a now + (now - a_last a)"
  by (simp add: Attempt_nextSleep_def Let_def)

lemma nextSleep_nonneg [simp]: "0 \<le> Attempt_nextSleep a now"
  by (simp add: Attempt_nextSleep_def Let_def)

lemma Attempt_Next_False:
  "Attempt_Next a now woke = (False, a') \<longleftrightarrow>
     a' = a \<and> \<not> a_force a \<and> a_end a \<le> now + Attempt_nextSleep a now \<and> s_Min (a_strategy a) \<le> a_count a"
  by (auto simp: Attempt_Next_def Let_def)

lemma Attempt_Next_True:
  assumes "Attempt_Next a now woke = (True, a')"
  shows "a_strategy a' = a_strategy a" "a_end a' = a_end a" "\<not> a_force a'" "a_count a' = a_count a + 1"
    and "a_force a \<or> now + Attempt_nextSleep a now < a_end a \<or> a_count a < s_Min (a_strategy a)"
    and "a_last a' = (if Attempt_nextSleep a now > 0 \<and> a_count a > 0 then woke else now)"
  using assms by (auto simp: Attempt_Next_def Let_def split: if_splits)

text \<open>A successful call after the first one moves the time of the last attempt on by at least the
  delay.\<close>

lemma Attempt_Next_delay:
  assumes "Attempt_Next a now woke = (True, a')" and "0 < a_count a"
    and "now + Attempt_nextSleep a now \<le> woke"
  shows "a_last a + s_Delay (a_strategy a) \<le> a_last a'"
  using Attempt_Next_True(6)[OF assms(1)] assms(2,3) nextSleep_ge[of a now] nextSleep_nonneg[of a now]
  by (auto split: if_splits)

text \<open>The state after some successful calls from a start at time \<open>t0\<close>.\<close>

definition attempt_inv :: "int \<Rightarrow> AttemptStrategy \<Rightarrow> Attempt \<Rightarrow> bool" where
  "attempt_inv t0 s a \<longleftrightarrow> a_strategy a = s \<and> a_end a = t0 + s_Total s \<and> 0 \<le> a_count a
     \<and> a_force a = (a_count a = 0) \<and> t0 + (a_count a - 1) * s_Delay s \<le> a_last a \<and> t0 \<le> a_last a"

lemma attempt_inv_Start: "0 \<le> s_Delay s \<Longrightarrow> attempt_inv t0 s (AttemptStrategy_Start s t0)"
  by (simp add: attempt_inv_def AttemptStrategy_Start_def)

lemma attempt_inv_Next:
  assumes "attempt_inv t0 s a" and "Attempt_Next a now woke = (True, a')"
    and "now + Attempt_nextSleep a now \<le> woke" and "a_last a \<le> now" and "0 \<le> s_Delay s"
  shows "attempt_inv t0 s a'"
proof (cases "a_count a = 0")
  case True
  then show ?thesis using assms Attempt_Next_True[OF assms(2)] by (auto simp: attempt_inv_def)
next
  case False
  with assms(1) have "0 < a_count a" by (simp add: attempt_inv_def)
  from Attempt_Next_delay[OF assms(2) this assms(3)] have
    "t0 + (a_count a - 1) * s_Delay s + s_Delay s \<le> a_last a'"
    using assms(1) by (simp add: attempt_inv_def)
  then have "t0 + (a_count a + 1 - 1) * s_Delay s \<le> a_last a'" by (simp add: algebra_simps)
  moreover have "t0 \<le> a_last a'"
    using Attempt_Next_delay[OF assms(2) \<open>0 < a_count a\<close> assms(3)] assms(1,5)
    by (simp add: attempt_inv_def)
  ultimately show ?thesis
    using assms(1) Attempt_Next_True[OF assms(2)] by (auto simp: attempt_inv_def)
qed

text \<open>Once the minimum number of tries is made and the delays fill the total time, the next call
  ends the loop.\<close>

lemma attempt_inv_ends:
  assumes "attempt_inv t0 s a" and "0 < a_count a" and "s_Min s \<le> a_count a" and "s_Total s \<le> a_count a * s_Delay s"
  shows "Attempt_Next a now woke = (False, a)"
proof -
  have "t0 + (a_count a - 1) * s_Delay s + s_Delay s \<le> now + Attempt_nextSleep a now"
    using assms(1) nextSleep_ge[of a now] by (simp add: attempt_inv_def)
  then have "t0 + a_count a * s_Delay s \<le> now + Attempt_nextSleep a now" by (simp add: algebra_simps)
  then show ?thesis using assms by (simp add: Attempt_Next_False attempt_inv_def)
qed

lemma attempt_loop_bounds:
  assumes "clock_ok (a_last a) a clock" and "attempt_inv t0 s a" and "0 \<le> s_Delay s"
    and "attempt_loop a clock = (n, ended)"
  shows "(ended \<longrightarrow> 1 \<le> a_count a + int n \<and> s_Min s \<le> a_count a + int n)
    \<and> (0 < n \<longrightarrow> a_count a + int n \<le> max 1 (s_Min s) \<or> (a_count a + int n - 1) * s_Delay s < s_Total s)
    \<and> (\<not> ended \<longrightarrow> n = length clock)"
  using assms
proof (induction a clock arbitrary: n rule: attempt_loop.induct)
  case (2 a now woke clock)
  show ?case
  proof (cases "Attempt_Next a now woke")
    case (Pair again a')
    show ?thesis
    proof (cases again)
      case False
      with Pair have nx: "Attempt_Next a now woke = (False, a')" by simp
      with 2(5) have "n = 0" "ended" by auto
      with nx 2(3) show ?thesis by (auto simp: Attempt_Next_False attempt_inv_def)
    next
      case True
      with Pair have nx: "Attempt_Next a now woke = (True, a')" by simp
      from 2(2) nx have ck: "a_last a \<le> now" "now + Attempt_nextSleep a now \<le> woke"
        "clock_ok (a_last a') a' clock" by auto
      have inv': "attempt_inv t0 s a'" using attempt_inv_Next[OF 2(3) nx ck(2,1) 2(4)] .
      obtain m where m: "attempt_loop a' clock = (m, ended)" "n = Suc m"
        using 2(5) nx by (auto split: prod.splits)
      have "a_count a + 1 \<le> max 1 (s_Min s) \<or> a_count a * s_Delay s < s_Total s"
        using attempt_inv_ends[OF 2(3), of now woke] nx 2(3)
        by (fastforce simp: attempt_inv_def not_less)
      moreover have cnt: "a_count a' = a_count a + 1" using Attempt_Next_True(4)[OF nx] .
      ultimately show ?thesis
        using 2(1)[OF refl Pair[symmetric] True ck(3) inv' 2(4) m(1)] m
        by (cases "m = 0") (auto simp: algebra_simps)
    qed
  qed
qed simp

text \<open>A retry loop over a strategy makes at least one attempt and at least the minimum; it makes a
  further attempt beyond the minimum only while the delays before it have not used up the total
  time. Whatever the clock shows, as long as it does not run backwards and sleeps are not cut short.\<close>

theorem attempt_loop_count:
  assumes "0 \<le> s_Delay s" and "clock_ok t0 (AttemptStrategy_Start s t0) clock"
    and "attempt_loop (AttemptStrategy_Start s t0) clock = (n, ended)"
  shows "(ended \<longrightarrow> 1 \<le> n \<and> s_Min s \<le> int n)
    \<and> (0 < n \<longrightarrow> int n \<le> max 1 (s_Min s) \<or> (int n - 1) * s_Delay s < s_Total s)"
  using attempt_loop_bounds[of "AttemptStrategy_Start s t0" clock t0 s n ended] assms
    attempt_inv_Start[OF assms(1)]
  by (auto simp: AttemptStrategy_Start_def)

theorem attempt_loop_count_witness:
  "let s = \<lparr>s_Total = 25, s_Delay = 10, s_Min = 0\<rparr>;
       clock = [(0, 10), (4, 10), (13, 20), (26, 30)]
   in attempt_loop (AttemptStrategy_Start s 0) clock = (3, True)
      \<and> (1 \<le> (3::nat) \<and> s_Min s \<le> 3) \<and> ((3::int) \<le> max 1 (s_Min s) \<or> (3 - 1) * s_Delay s < s_Total s)"
proof -
  let ?s = "\<lparr>s_Total = 25, s_Delay = 10, s_Min = 0\<rparr>"
  let ?c = "[(0, 10), (4, 10), (13, 20), (26, 30)] :: (int \<times> int) list"
  have l: "attempt_loop (AttemptStrategy_Start ?s 0) ?c = (3, True)"
    by (simp add: AttemptStrategy_Start_def Attempt_Next_def Attempt_nextSleep_def Let_def)
  have c: "clock_ok 0 (AttemptStrategy_Start ?s 0) ?c"
    by (simp add: AttemptStrategy_Start_def Attempt_Next_def Attempt_nextSleep_def Let_def)
  from attempt_loop_count[OF _ c l] l show ?thesis by simp
qed

text \<open>The retry loop ends: with a positive delay, after more calls of Next than the minimum and than
  the number of delays that fit in the total time, one of them has returned false.\<close>

theorem attempt_loop_terminates:
  assumes "0 < s_Delay s" and "clock_ok t0 (AttemptStrategy_Start s t0) clock"
    and "int (length clock) > max 1 (s_Min s)"
    and "(int (length clock) - 1) * s_Delay s \<ge> s_Total s"
  shows "\<exists>n. attempt_loop (AttemptStrategy_Start s t0) clock = (n, True)"
proof -
  obtain n ended where l: "attempt_loop (AttemptStrategy_Start s t0) clock = (n, ended)" by force
  from attempt_loop_bounds[of "AttemptStrategy_Start s t0" clock t0 s n ended] assms l
    attempt_inv_Start[of s t0]
  have "\<not> ended \<longrightarrow> n = length clock"
    and "0 < n \<longrightarrow> int n \<le> max 1 (s_Min s) \<or> (int n - 1) * s_Delay s < s_Total s"
    by (auto simp: AttemptStrategy_Start_def)
  with assms l show ?thesis by (cases ended) auto
qed

theorem attempt_loop_terminates_witness:
  "\<exists>n. attempt_loop (AttemptStrategy_Start \<lparr>s_Total = 25, s_Delay = 10, s_Min = 0\<rparr> 0)
     [(0, 10), (4, 10), (13, 20), (26, 30)] = (n, True)"
  by (rule attempt_loop_terminates)
    (simp_all add: AttemptStrategy_Start_def Attempt_Next_def Attempt_nextSleep_def Let_def)

text \<open>HasNext keeps its promise: when it returns true, the call of Next that follows returns true
  whatever time it is by then; when it returns false it changes nothing and, if no time has
  passed, Next returns false as well.\<close>

theorem HasNext_promise:
  "(\<forall>a'. Attempt_HasNext a now = (True, a') \<longrightarrow> fst (Attempt_Next a' now' woke))
   \<and> (\<forall>a'. Attempt_HasNext a now = (False, a') \<longrightarrow> a' = a \<and> Attempt_Next a now woke = (False, a))"
  by (auto simp: Attempt_HasNext_def Attempt_Next_def Let_def split: if_splits)

theorem HasNext_promise_witness:
  "fst (Attempt_Next (snd (Attempt_HasNext
      \<lparr>a_strategy = \<lparr>s_Total = 25, s_Delay = 10, s_Min = 0\<rparr>, a_last = 0, a_end = 25, a_force = False, a_count = 1\<rparr> 5))
      1000 2000)"
proof -
  let ?a = "\<lparr>a_strategy = \<lparr>s_Total = 25, s_Delay = 10, s_Min = 0\<rparr>, a_last = 0, a_end = 25, a_force = False, a_count = 1\<rparr>"
  have "Attempt_HasNext ?a 5 = (True, ?a\<lparr>a_force := True\<rparr>)"
    by (simp add: Attempt_HasNext_def Attempt_nextSleep_def)
  then show ?thesis using HasNext_promise[of ?a 5 1000 2000] by simp
qed

end
