(* ===== verification/Limiter.thy ===== *)
theory Limiter
  imports Prelude
begin

text \<open>
  The limiter (\<^verbatim>\<open>src/limiter.go\<close>): a semaphore made of a buffered channel of empty
  structs. The channel is its capacity and the number of values queued in it; a send to a full
  channel blocks and a \<^verbatim>\<open>select\<close> with a default case does not. The Go interface
  \<^verbatim>\<open>Limiter\<close> is the locale \<open>limiter_contract\<close>.
\<close>

record limiter =
  chan_cap :: nat
  chan_len :: nat

datatype lim_error = ReleaseWithoutAcquire

definition NewLimiter :: "int \<Rightarrow> panic + limiter" where
  "NewLimiter mx =
     (if mx < 0 then Inl (Panic ''makechan: size out of range'')
      else Inr \<lparr>chan_cap = nat mx, chan_len = 0\<rparr>)"

definition limiter_Acquire :: "limiter \<Rightarrow> bool \<times> limiter" where
  "limiter_Acquire l =
     (if chan_len l < chan_cap l then (True, l\<lparr>chan_len := Suc (chan_len l)\<rparr>) else (False, l))"

text \<open>\<^const>\<open>None\<close>: the send blocks.\<close>

definition limiter_AcquireWait :: "limiter \<Rightarrow> limiter option" where
  "limiter_AcquireWait l =
     (if chan_len l < chan_cap l then Some (l\<lparr>chan_len := Suc (chan_len l)\<rparr>) else None)"

definition limiter_Release :: "limiter \<Rightarrow> lim_error + limiter" where
  "limiter_Release l =
     (if 0 < chan_len l then Inr (l\<lparr>chan_len := chan_len l - 1\<rparr>) else Inl ReleaseWithoutAcquire)"

subsection \<open>Clients of a limiter\<close>

text \<open>The calls any number of clients make, in the order the channel serves them. A call of
  \<^verbatim>\<open>AcquireWait\<close> appears where its send completes. The run counts the units given out
  and the units given back; it is \<^const>\<open>None\<close> when the sequence has a send that would block.\<close>

datatype lim_call = CallAcquire | CallAcquireWait | CallRelease

fun lim_run :: "('s \<Rightarrow> bool \<times> 's) \<Rightarrow> ('s \<Rightarrow> 's option) \<Rightarrow> ('s \<Rightarrow> 'e + 's) \<Rightarrow> 's \<Rightarrow> lim_call list
    \<Rightarrow> (nat \<times> nat \<times> 's) option" where
  "lim_run acq wait rel l [] = Some (0, 0, l)"
| "lim_run acq wait rel l (CallAcquire # cs) =
     (let (ok, l') = acq l in
      map_option (\<lambda>(a, r, l''). (if ok then Suc a else a, r, l'')) (lim_run acq wait rel l' cs))"
| "lim_run acq wait rel l (CallAcquireWait # cs) =
     Option.bind (wait l) (\<lambda>l'. map_option (\<lambda>(a, r, l''). (Suc a, r, l'')) (lim_run acq wait rel l' cs))"
| "lim_run acq wait rel l (CallRelease # cs) =
     (case rel l of
        Inl _ \<Rightarrow> lim_run acq wait rel l cs
      | Inr l' \<Rightarrow> map_option (\<lambda>(a, r, l''). (a, Suc r, l'')) (lim_run acq wait rel l' cs))"

locale limiter_contract =
  fixes acquire :: "'s \<Rightarrow> bool \<times> 's"
    and acquire_wait :: "'s \<Rightarrow> 's option"
    and release :: "'s \<Rightarrow> 'e + 's"
    and taken :: "'s \<Rightarrow> nat"
    and limit :: "'s \<Rightarrow> nat"
  assumes acquire_free: "taken l < limit l \<Longrightarrow>
      \<exists>l'. acquire l = (True, l') \<and> taken l' = Suc (taken l) \<and> limit l' = limit l"
    and acquire_full: "limit l \<le> taken l \<Longrightarrow> acquire l = (False, l)"
    and wait_free: "taken l < limit l \<Longrightarrow>
      \<exists>l'. acquire_wait l = Some l' \<and> taken l' = Suc (taken l) \<and> limit l' = limit l"
    and wait_full: "limit l \<le> taken l \<Longrightarrow> acquire_wait l = None"
    and release_taken: "0 < taken l \<Longrightarrow>
      \<exists>l'. release l = Inr l' \<and> Suc (taken l') = taken l \<and> limit l' = limit l"
    and release_none: "taken l = 0 \<Longrightarrow> \<exists>e. release l = Inl e"
begin

text \<open>One call, seen by what it does to the counts.\<close>

lemma run_Cons:
  assumes "lim_run acquire acquire_wait release l (c # cs) = Some (a, r, l')" and "taken l \<le> limit l"
  obtains l1 a' r' where "lim_run acquire acquire_wait release l1 cs = Some (a', r', l')"
    "taken l1 \<le> limit l1" "limit l1 = limit l" "taken l + a + r' = taken l1 + a' + r"
proof (cases c)
  case CallAcquire
  then show thesis
  proof (cases "taken l < limit l")
    case True
    from acquire_free[OF this] CallAcquire True assms show thesis by (fastforce intro: that)
  next
    case False
    with acquire_full[of l] CallAcquire assms show thesis by (fastforce intro: that)
  qed
next
  case CallAcquireWait
  then show thesis
  proof (cases "taken l < limit l")
    case True
    from wait_free[OF this] CallAcquireWait True assms show thesis by (fastforce intro: that)
  next
    case False
    with wait_full[of l] CallAcquireWait assms show thesis by simp
  qed
next
  case CallRelease
  then show thesis
  proof (cases "0 < taken l")
    case True
    from release_taken[OF this] CallRelease assms show thesis by (fastforce intro: that)
  next
    case False
    with release_none[of l] CallRelease assms show thesis by (fastforce intro: that)
  qed
qed

lemma run_accounts:
  "lim_run acquire acquire_wait release l cs = Some (a, r, l') \<Longrightarrow> taken l \<le> limit l
   \<Longrightarrow> taken l' + r = taken l + a \<and> taken l' \<le> limit l' \<and> limit l' = limit l"
proof (induction cs arbitrary: l a r)
  case (Cons c cs)
  from run_Cons[OF Cons.prems] obtain l1 a' r' where
    "lim_run acquire acquire_wait release l1 cs = Some (a', r', l')"
    "taken l1 \<le> limit l1" "limit l1 = limit l" "taken l + a + r' = taken l1 + a' + r" .
  with Cons.IH[of l1 a' r'] show ?case by simp
qed simp

text \<open>A client that waits is served after a release, whatever the state was.\<close>

lemma release_unblocks:
  assumes "acquire_wait l = None" "taken l \<le> limit l" "0 < limit l"
  shows "\<exists>l' l''. release l = Inr l' \<and> acquire_wait l' = Some l''"
proof -
  have "taken l = limit l" using assms wait_free[of l] by force
  with assms(3) obtain l' where l': "release l = Inr l'" "Suc (taken l') = taken l" "limit l' = limit l"
    using release_taken[of l] by auto
  with \<open>taken l = limit l\<close> have "taken l' < limit l'" by simp
  from wait_free[OF this] l' show ?thesis by blast
qed

end

interpretation lim: limiter_contract limiter_Acquire limiter_AcquireWait limiter_Release chan_len chan_cap
  by unfold_locales (auto simp: limiter_Acquire_def limiter_AcquireWait_def limiter_Release_def)

lemma NewLimiter_ok: "NewLimiter mx = Inr l \<Longrightarrow> chan_len l = 0 \<and> chan_cap l = nat mx \<and> 0 \<le> mx"
  by (auto simp: NewLimiter_def split: if_splits)

text \<open>(C40) However many clients share a limiter and in whatever order their calls are served, the units
  acquired minus the units released are the units in use, and they never exceed the limit the
  limiter was made with; in particular there are never more successful releases than acquires.\<close>

theorem limiter_accounts:
  assumes "NewLimiter mx = Inr l"
    and "lim_run limiter_Acquire limiter_AcquireWait limiter_Release l cs = Some (acquired, released, l')"
  shows "released \<le> acquired \<and> acquired - released = chan_len l' \<and> int (acquired - released) \<le> mx"
  using lim.run_accounts[OF assms(2)] NewLimiter_ok[OF assms(1)] by auto

theorem limiter_accounts_witness:
  "\<exists>acquired released l'. lim_run limiter_Acquire limiter_AcquireWait limiter_Release \<lparr>chan_cap = 1, chan_len = 0\<rparr>
      [CallRelease, CallAcquireWait, CallAcquire, CallRelease, CallAcquire] = Some (acquired, released, l')
     \<and> (acquired, released) = (2, 1) \<and> int (acquired - released) \<le> 1"
proof -
  have run: "lim_run limiter_Acquire limiter_AcquireWait limiter_Release \<lparr>chan_cap = 1, chan_len = 0\<rparr>
      [CallRelease, CallAcquireWait, CallAcquire, CallRelease, CallAcquire] =
      Some (2, 1, \<lparr>chan_cap = 1, chan_len = 1\<rparr>)"
    by (simp add: limiter_Acquire_def limiter_AcquireWait_def limiter_Release_def)
  have "NewLimiter 1 = Inr \<lparr>chan_cap = 1, chan_len = 0\<rparr>" by (simp add: NewLimiter_def)
  from limiter_accounts[OF this run] run show ?thesis by auto
qed

text \<open>Acquire fails exactly when AcquireWait would block, and a Release then succeeds and lets the
  waiting client through: on a limiter of positive size no client waits for ever for a unit that
  has been given back.\<close>

theorem limiter_release_unblocks:
  assumes "chan_len l \<le> chan_cap l" and "0 < chan_cap l"
  shows "(fst (limiter_Acquire l) \<longleftrightarrow> limiter_AcquireWait l \<noteq> None)
    \<and> (limiter_AcquireWait l = None \<longrightarrow>
         (\<exists>l' l''. limiter_Release l = Inr l' \<and> limiter_AcquireWait l' = Some l'' \<and> chan_len l'' = chan_cap l))"
proof -
  have "fst (limiter_Acquire l) \<longleftrightarrow> limiter_AcquireWait l \<noteq> None"
    by (simp add: limiter_Acquire_def limiter_AcquireWait_def)
  moreover have "\<exists>l' l''. limiter_Release l = Inr l' \<and> limiter_AcquireWait l' = Some l'' \<and> chan_len l'' = chan_cap l"
    if "limiter_AcquireWait l = None"
    using lim.release_unblocks[OF that assms] that assms
    by (auto simp: limiter_Release_def limiter_AcquireWait_def split: if_splits)
  ultimately show ?thesis by blast
qed

end
