(* ===== verification/Registry.thy ===== *)
theory Registry
  imports Prelude
begin

text \<open>
  The package \<^verbatim>\<open>registry\<close> (\<^verbatim>\<open>src/registry/registry.go\<close>): objects
  registered under a name and a version. What Go's reflection does is an argument: \<open>convertible\<close>
  is \<^verbatim>\<open>reflect.TypeOf(obj).ConvertibleTo\<close> and \<open>convert\<close> is
  \<^verbatim>\<open>reflect.ValueOf(obj).Convert\<close>. A nil object is \<^const>\<open>None\<close>: it has no type
  and the call of a method on it panics.
\<close>

type_synonym 'obj Versions = "(int, 'obj) mapping"

record ('ty, 'obj) TypedNameVersion =
  requiredType :: 'ty
  versions :: "(string, 'obj Versions) gomap"

record Description =
  d_Name :: string
  d_Versions :: "int list"

datatype reg_error = NotConvertible | AlreadyRegistered string int | NotFound string int

definition NewTypedNameVersion :: "'ty \<Rightarrow> ('ty, 'obj) TypedNameVersion" where
  "NewTypedNameVersion ty = \<lparr>requiredType = ty, versions = Some Mapping.empty\<rparr>"

definition Register ::
  "('obj \<Rightarrow> 'ty \<Rightarrow> bool) \<Rightarrow> ('obj \<Rightarrow> 'ty \<Rightarrow> 'obj) \<Rightarrow> ('ty, 'obj) TypedNameVersion \<Rightarrow> string \<Rightarrow> int
    \<Rightarrow> 'obj option \<Rightarrow> panic + (reg_error option \<times> ('ty, 'obj) TypedNameVersion)" where
  "Register convertible convert r name version obj =
     (case obj of
        None \<Rightarrow> Inl (Panic ''nil pointer dereference'')
      | Some ob \<Rightarrow>
          if \<not> convertible ob (requiredType r) then Inr (Some NotConvertible, r)
          else
            (let ob' = convert ob (requiredType r);
                 vs = (case versions r of None \<Rightarrow> Mapping.empty | Some m \<Rightarrow> m);
                 r' = r\<lparr>versions := Some vs\<rparr>
             in case Mapping.lookup vs name of
                  Some w \<Rightarrow>
                    if Mapping.lookup w version \<noteq> None then Inr (Some (AlreadyRegistered name version), r')
                    else Inr (None, r'\<lparr>versions := Some (Mapping.update name (Mapping.update version ob' w) vs)\<rparr>)
                | None \<Rightarrow>
                    Inr (None, r'\<lparr>versions := Some (Mapping.update name (Mapping.update version ob' Mapping.empty) vs)\<rparr>)))"

text \<open>The range loop over the versions appends to a slice, in the order the iteration takes.\<close>

definition descriptionFromVersions :: "string \<Rightarrow> 'obj Versions \<Rightarrow> int list \<Rightarrow> Description" where
  "descriptionFromVersions name vs order = \<lparr>d_Name = name, d_Versions = sort order\<rparr>"

definition Registry_List ::
  "('ty, 'obj) TypedNameVersion \<Rightarrow> string list \<Rightarrow> (string \<Rightarrow> int list) \<Rightarrow> Description list" where
  "Registry_List r order vorder =
     (let names = sort order
      in map (\<lambda>name. descriptionFromVersions name
            (case Mapping.lookup (gm_table (versions r)) name of None \<Rightarrow> Mapping.empty | Some w \<Rightarrow> w)
            (vorder name)) names)"

definition Registry_Get :: "('ty, 'obj) TypedNameVersion \<Rightarrow> string \<Rightarrow> int \<Rightarrow> reg_error + 'obj" where
  "Registry_Get r name version =
     (case Mapping.lookup (gm_table (versions r)) name of
        Some w \<Rightarrow>
          (case Mapping.lookup w version of
             Some factory \<Rightarrow> Inr factory
           | None \<Rightarrow> Inl (NotFound name version))
      | None \<Rightarrow> Inl (NotFound name version))"

subsection \<open>The registry as a partial function\<close>

text \<open>What the registry promises is a partial function from a name and a version to an object.
  \<open>reg_abs\<close> reads it off the nested maps.\<close>

definition reg_abs :: "('ty, 'obj) TypedNameVersion \<Rightarrow> string \<times> int \<rightharpoonup> 'obj" where
  "reg_abs r = (\<lambda>(name, version).
     Option.bind (Mapping.lookup (gm_table (versions r)) name) (\<lambda>w. Mapping.lookup w version))"

lemma Registry_Get_abs:
  "Registry_Get r name version =
     (case reg_abs r (name, version) of None \<Rightarrow> Inl (NotFound name version) | Some ob \<Rightarrow> Inr ob)"
  by (simp add: Registry_Get_def reg_abs_def split: option.splits)

lemma reg_abs_New: "reg_abs (NewTypedNameVersion ty) = Map.empty"
  by (auto simp: fun_eq_iff reg_abs_def NewTypedNameVersion_def lookup_empty)

lemma Register_outcome:
  "\<exists>r'. Register convertible convert r name version (Some ob) =
     Inr (if \<not> convertible ob (requiredType r) then Some NotConvertible
          else if reg_abs r (name, version) \<noteq> None then Some (AlreadyRegistered name version) else None, r')"
  by (auto simp: Register_def reg_abs_def Let_def gm_table_def lookup_empty split: option.splits)

lemma Register_refines_abs:
  assumes "Register convertible convert r name version (Some ob) = Inr (err, r')"
  shows "requiredType r' = requiredType r
    \<and> reg_abs r' = (if err = None then (reg_abs r)((name, version) \<mapsto> convert ob (requiredType r)) else reg_abs r)"
  using assms
  by (auto simp: Register_def reg_abs_def Let_def gm_table_def lookup_empty lookup_update' fun_eq_iff
      split: option.splits if_splits)


text \<open>A registered object is found by Get under its name and version, converted to the required type,
  and no other lookup changes; a second registration at the same place is refused.\<close>

theorem Get_after_Register:
  assumes "Register convertible convert r name version (Some ob) = Inr (None, r')"
  shows "Registry_Get r' name version = Inr (convert ob (requiredType r))
    \<and> (\<forall>n v. (n, v) \<noteq> (name, version) \<longrightarrow> Registry_Get r' n v = Registry_Get r n v)
    \<and> (\<forall>ob2. convertible ob2 (requiredType r) \<longrightarrow>
         (\<exists>r''. Register convertible convert r' name version (Some ob2) = Inr (Some (AlreadyRegistered name version), r'')))"
proof -
  from Register_refines_abs[OF assms] have r': "requiredType r' = requiredType r"
    "reg_abs r' = (reg_abs r)((name, version) \<mapsto> convert ob (requiredType r))" by auto
  moreover have "\<exists>r''. Register convertible convert r' name version (Some ob2) = Inr (Some (AlreadyRegistered name version), r'')"
    if "convertible ob2 (requiredType r)" for ob2
    using Register_outcome[of convertible convert r' name version ob2] r' that by auto
  ultimately show ?thesis by (auto simp: Registry_Get_abs)
qed

theorem Get_after_Register_witness:
  "\<exists>r'. Register (\<lambda>(ob::nat) (ty::nat). ob < ty) (\<lambda>ob ty. ob) (NewTypedNameVersion 10) ''facade'' 2 (Some 7) = Inr (None, r')
     \<and> Registry_Get r' ''facade'' 2 = Inr 7"
proof -
  obtain r' where r': "Register (\<lambda>(ob::nat) (ty::nat). ob < ty) (\<lambda>ob ty. ob) (NewTypedNameVersion 10) ''facade'' 2 (Some 7) = Inr (None, r')"
    by (auto simp: Register_def NewTypedNameVersion_def lookup_empty Let_def)
  from Get_after_Register[OF r'] r' show ?thesis by auto
qed

subsection \<open>Listing\<close>

text \<open>List describes every name that was registered, in sorted order without repetition, and under it
  exactly its registered versions, sorted and without repetition, whatever orders the two map
  iterations took.\<close>

theorem List_describes:
  assumes "range_order (versions r) order"
    and "\<forall>name w. Mapping.lookup (gm_table (versions r)) name = Some w \<longrightarrow> range_order (Some w) (vorder name)"
  shows "sorted (map d_Name (Registry_List r order vorder)) \<and> distinct (map d_Name (Registry_List r order vorder))
    \<and> (\<forall>d \<in> set (Registry_List r order vorder). sorted (d_Versions d) \<and> distinct (d_Versions d))
    \<and> (\<forall>name version. (\<exists>d \<in> set (Registry_List r order vorder). d_Name d = name \<and> version \<in> set (d_Versions d))
         \<longleftrightarrow> (\<exists>ob. Registry_Get r name version = Inr ob))"
proof -
  let ?L = "Registry_List r order vorder"
  have names: "map d_Name ?L = sort order"
    by (simp add: Registry_List_def descriptionFromVersions_def Let_def o_def)
  have elems: "d \<in> set ?L \<longleftrightarrow> (\<exists>name w. Mapping.lookup (gm_table (versions r)) name = Some w
      \<and> d = \<lparr>d_Name = name, d_Versions = sort (vorder name)\<rparr>)" for d
    using range_orderD(2)[OF assms(1)]
    by (auto simp: Registry_List_def descriptionFromVersions_def Let_def gm_keys_def keys_dom_lookup domIff)
  have vs: "distinct (vorder name)" "set (vorder name) = dom (Mapping.lookup w)"
    if "Mapping.lookup (gm_table (versions r)) name = Some w" for name w
    using range_orderD[OF assms(2)[rule_format, OF that]] by (auto simp: keys_dom_lookup)
  have "(\<exists>d \<in> set ?L. d_Name d = name \<and> version \<in> set (d_Versions d)) \<longleftrightarrow> (\<exists>ob. Registry_Get r name version = Inr ob)"
    for name version
    using vs(2)[of name] unfolding Bex_def elems by (fastforce simp: Registry_Get_def domIff split: option.splits)
  with names range_orderD(1)[OF assms(1)] vs(1) show ?thesis by (auto simp: elems)
qed

theorem List_describes_witness:
  "let r = \<lparr>requiredType = (), versions = Some (Mapping.update ''b'' (Mapping.update 2 () (Mapping.update 1 () Mapping.empty)) Mapping.empty)\<rparr>
   in sorted (map d_Name (Registry_List r [''b''] (\<lambda>_. [2, 1])))
     \<and> (\<exists>d \<in> set (Registry_List r [''b''] (\<lambda>_. [2, 1])). d_Name d = ''b'' \<and> 2 \<in> set (d_Versions d))"
proof -
  let ?r = "\<lparr>requiredType = (), versions = Some (Mapping.update ''b'' (Mapping.update (2::int) () (Mapping.update 1 () Mapping.empty)) Mapping.empty)\<rparr>"
  have o: "range_order (versions ?r) [''b'']" by (auto simp: range_order_def)
  have v: "\<forall>name w. Mapping.lookup (gm_table (versions ?r)) name = Some w \<longrightarrow> range_order (Some w) [2, 1]"
    by (auto simp: range_order_def lookup_update' split: if_splits)
  have g: "Registry_Get ?r ''b'' 2 = Inr ()" by (simp add: Registry_Get_def)
  show ?thesis using List_describes[of ?r "[''b'']" "\<lambda>_. [2, 1]", OF o v] g unfolding Let_def by blast
qed

end
