(* ===== verification/Voyeur.thy ===== *)
theory Voyeur
  imports Prelude
begin

text \<open>
  The package \<^verbatim>\<open>voyeur\<close> (\<^verbatim>\<open>src/voyeur/value.go\<close>): a shared value with
  watchers that block until it changes. The operations are functions on a value and a watcher;
  their interleaving by any number of goroutines is the step relation \<open>vstep\<close>. A step is one
  critical section of the mutex; \<^verbatim>\<open>Broadcast\<close> is called after the mutex is released, so it
  is a step of its own and other steps may come between. \<^verbatim>\<open>Cond.Wait\<close> queues the
  goroutine before it gives up the lock, and a broadcast wakes every queued goroutine.
\<close>

record 'a Value =
  val :: "'a option"
  version :: "64 word"
  wait_L :: bool
  closed :: bool

record 'a Watcher =
  w_version :: "64 word"
  w_current :: "'a option"
  w_closed :: bool

definition zero_Value :: "'a Value" where
  "zero_Value = \<lparr>val = None, version = 0, wait_L = False, closed = False\<rparr>"

definition Value_needsInit :: "'a Value \<Rightarrow> bool" where
  "Value_needsInit v \<longleftrightarrow> \<not> wait_L v"

definition Value_init :: "'a Value \<Rightarrow> 'a Value" where
  "Value_init v = (if Value_needsInit v then v\<lparr>wait_L := True\<rparr> else v)"

definition NewValue :: "'a option \<Rightarrow> 'a Value" where
  "NewValue initial =
     (let v = Value_init zero_Value
      in if initial \<noteq> None then v\<lparr>val := initial, version := version v + 1\<rparr> else v)"

text \<open>The critical sections of \<^verbatim>\<open>Set\<close> and \<^verbatim>\<open>Close\<close>; the broadcast that follows is a step of the
  system below.\<close>

definition Value_Set :: "'a option \<Rightarrow> 'a Value \<Rightarrow> 'a Value" where
  "Value_Set x v = (let v' = Value_init v in v'\<lparr>val := x, version := version v' + 1\<rparr>)"

definition Value_Close :: "'a Value \<Rightarrow> 'a Value" where
  "Value_Close v = (let v' = Value_init v in v'\<lparr>closed := True\<rparr>)"

definition Value_Closed :: "'a Value \<Rightarrow> bool" where
  "Value_Closed v = closed v"

definition Value_Get :: "'a Value \<Rightarrow> 'a option" where
  "Value_Get v = val v"

definition Value_Watch :: "'a Watcher" where
  "Value_Watch = \<lparr>w_version = 0, w_current = None, w_closed = False\<rparr>"

text \<open>One turn of the loop of \<^verbatim>\<open>Next\<close>: it returns, or it waits (\<^const>\<open>None\<close>).\<close>

definition Watcher_Next_turn :: "'a Value \<Rightarrow> 'a Watcher \<Rightarrow> (bool \<times> 'a Watcher) option" where
  "Watcher_Next_turn v w =
     (if w_version w \<noteq> version v then Some (True, w\<lparr>w_version := version v, w_current := val v\<rparr>)
      else if closed v \<or> w_closed w then Some (False, w)
      else None)"

definition Watcher_Close :: "'a Watcher \<Rightarrow> 'a Watcher" where
  "Watcher_Close w = w\<lparr>w_closed := True\<rparr>"

definition Watcher_Value :: "'a Watcher \<Rightarrow> 'a option" where
  "Watcher_Value w = w_current w"

subsection \<open>The system\<close>

text \<open>
  Watchers are numbered; one that was not created yet is what \<^verbatim>\<open>Watch\<close> will return, since
  that does not look at the value. A goroutine in \<^verbatim>\<open>Next\<close> counts the turns of its loop.
  The fields \<open>history\<close> (the values set so far, the initial one included) and \<open>seen\<close> (how much of it
  each watcher was given) only record what happened: no step reads them.
\<close>

datatype pc = Idle | Waiting nat | Runnable nat | Returned bool nat

record 'a voyeur =
  the_value :: "'a Value"
  watchers :: "nat \<Rightarrow> 'a Watcher"
  pcs :: "nat \<Rightarrow> pc"
  broadcasts :: nat
  history :: "'a option list"
  seen :: "nat \<Rightarrow> nat"

definition voyeur_start :: "'a option \<Rightarrow> 'a voyeur" where
  "voyeur_start initial =
     \<lparr>the_value = NewValue initial, watchers = (\<lambda>_. Value_Watch), pcs = (\<lambda>_. Idle), broadcasts = 0,
      history = (if initial \<noteq> None then [initial] else []), seen = (\<lambda>_. 0)\<rparr>"

definition turn :: "nat \<Rightarrow> nat \<Rightarrow> 'a voyeur \<Rightarrow> 'a voyeur" where
  "turn i n s =
     (case Watcher_Next_turn (the_value s) (watchers s i) of
        None \<Rightarrow> s\<lparr>pcs := (pcs s)(i := Waiting (Suc n))\<rparr>
      | Some (r, w) \<Rightarrow>
          s\<lparr>pcs := (pcs s)(i := Returned r (Suc n)), watchers := (watchers s)(i := w),
            seen := (seen s)(i := if r then length (history s) else seen s i)\<rparr>)"

inductive vstep :: "'a voyeur \<Rightarrow> 'a voyeur \<Rightarrow> bool" where
  do_Set: "vstep s (s\<lparr>the_value := Value_Set x (the_value s), broadcasts := Suc (broadcasts s),
      history := history s @ [x]\<rparr>)"
| do_Close: "vstep s (s\<lparr>the_value := Value_Close (the_value s), broadcasts := Suc (broadcasts s)\<rparr>)"
| do_Watcher_Close:
    "vstep s (s\<lparr>the_value := Value_init (the_value s), watchers := (watchers s)(i := Watcher_Close (watchers s i)),
      broadcasts := Suc (broadcasts s)\<rparr>)"
| do_Broadcast: "broadcasts s = Suc b \<Longrightarrow>
    vstep s (s\<lparr>broadcasts := b, pcs := (\<lambda>i. case pcs s i of Waiting n \<Rightarrow> Runnable n | p \<Rightarrow> p)\<rparr>)"
| call_Next: "pcs s i = Idle \<or> pcs s i = Returned r m \<Longrightarrow>
    vstep s (turn i 0 (s\<lparr>the_value := Value_init (the_value s)\<rparr>))"
| woken: "pcs s i = Runnable n \<Longrightarrow> vstep s (turn i n s)"

inductive vreach :: "'a option \<Rightarrow> 'a voyeur \<Rightarrow> bool" for initial where
  start: "vreach initial (voyeur_start initial)"
| step: "vreach initial s \<Longrightarrow> vstep s t \<Longrightarrow> vreach initial t"

subsection \<open>No wake-up is lost and no value is missed\<close>

text \<open>A goroutine that waits has nothing to return, unless a broadcast is still to come.\<close>

definition wait_inv :: "'a voyeur \<Rightarrow> bool" where
  "wait_inv s \<longleftrightarrow>
     (\<forall>i n. pcs s i = Waiting n \<longrightarrow>
        0 < broadcasts s \<or> Watcher_Next_turn (the_value s) (watchers s i) = None)"

text \<open>The version counts the values set, and a watcher holds the last value it was given.\<close>

definition seen_inv :: "'a voyeur \<Rightarrow> bool" where
  "seen_inv s \<longleftrightarrow>
     version (the_value s) = of_nat (length (history s))
     \<and> val (the_value s) = (if history s = [] then None else last (history s))
     \<and> (\<forall>i. seen s i \<le> length (history s)
          \<and> w_version (watchers s i) = of_nat (seen s i)
          \<and> w_current (watchers s i) = (if seen s i = 0 then None else history s ! (seen s i - 1)))"

lemmas voyeur_defs = Value_Set_def Value_Close_def Value_init_def Value_needsInit_def
  Watcher_Close_def Let_def

lemma turn_simps [simp]:
  "broadcasts (turn i n s) = broadcasts s" "history (turn i n s) = history s"
  "the_value (turn i n s) = the_value s" "j \<noteq> i \<Longrightarrow> pcs (turn i n s) j = pcs s j"
  "j \<noteq> i \<Longrightarrow> watchers (turn i n s) j = watchers s j"
  "j \<noteq> i \<Longrightarrow> seen (turn i n s) j = seen s j"
  by (auto simp: turn_def split: option.splits)

lemma Value_init_simps [simp]:
  "version (Value_init v) = version v" "val (Value_init v) = val v" "closed (Value_init v) = closed v"
  by (simp_all add: Value_init_def)

lemma Next_turn_init [simp]: "Watcher_Next_turn (Value_init v) w = Watcher_Next_turn v w"
  by (simp add: Watcher_Next_turn_def)

lemma wait_inv_turn: "wait_inv s \<Longrightarrow> wait_inv (turn i n s)"
  unfolding wait_inv_def
proof (intro allI impI)
  fix j m
  assume inv: "\<forall>i n. pcs s i = Waiting n \<longrightarrow>
      0 < broadcasts s \<or> Watcher_Next_turn (the_value s) (watchers s i) = None"
    and j: "pcs (turn i n s) j = Waiting m"
  show "0 < broadcasts (turn i n s)
      \<or> Watcher_Next_turn (the_value (turn i n s)) (watchers (turn i n s) j) = None"
  proof (cases "j = i")
    case True
    with j show ?thesis by (auto simp: turn_def split: option.splits)
  next
    case False
    with inv j show ?thesis by simp
  qed
qed

lemma wait_inv_step: "vstep s t \<Longrightarrow> wait_inv s \<Longrightarrow> wait_inv t"
proof (induction rule: vstep.induct)
  case (call_Next s i r m)
  then show ?case by (intro wait_inv_turn) (simp add: wait_inv_def)
next
  case (woken s i n)
  then show ?case by (simp add: wait_inv_turn)
qed (auto simp: wait_inv_def split: pc.splits)

lemma seen_inv_turn: "seen_inv s \<Longrightarrow> seen_inv (turn i n s)"
  unfolding seen_inv_def
  by (auto simp: turn_def Watcher_Next_turn_def last_conv_nth split: option.splits if_splits)

lemma seen_inv_step: "vstep s t \<Longrightarrow> seen_inv s \<Longrightarrow> seen_inv t"
proof (induction rule: vstep.induct)
  case (do_Set s x)
  have lt: "seen s i - Suc 0 < length (history s)" if "0 < seen s i" for i
  proof -
    have "seen s i \<le> length (history s)" using do_Set by (simp add: seen_inv_def)
    with that show ?thesis by linarith
  qed
  then show ?case using do_Set
    by (simp add: seen_inv_def voyeur_defs nth_append add.commute le_SucI)
next
  case (call_Next s i r m)
  then show ?case by (intro seen_inv_turn) (simp add: seen_inv_def)
next
  case (woken s i n)
  then show ?case by (simp add: seen_inv_turn)
qed (auto simp: seen_inv_def voyeur_defs)

lemma vreach_invs: "vreach initial s \<Longrightarrow> wait_inv s \<and> seen_inv s"
proof (induction rule: vreach.induct)
  case start
  show ?case
    by (auto simp: wait_inv_def seen_inv_def voyeur_start_def NewValue_def zero_Value_def Value_Watch_def
        voyeur_defs)
next
  case (step s t)
  then show ?case using wait_inv_step seen_inv_step by blast
qed

lemma seen_version_eq:
  assumes "seen_inv s" and "length (history s) < 2 ^ 64"
  shows "w_version (watchers s i) = version (the_value s) \<longleftrightarrow> seen s i = length (history s)"
proof -
  have v: "w_version (watchers s i) = of_nat (seen s i)" "version (the_value s) = of_nat (length (history s))"
    and le: "seen s i \<le> length (history s)"
    using assms(1) by (simp_all add: seen_inv_def)
  have "unat (of_nat (seen s i) :: 64 word) = seen s i"
    "unat (of_nat (length (history s)) :: 64 word) = length (history s)"
    using le assms(2) by (simp_all add: unat_of_nat take_bit_nat_eq_self)
  then show ?thesis by (metis v)
qed

text \<open>(C35) No wake-up is lost: in every reachable state, however the goroutines were scheduled, a watcher
  that is blocked in Next while no broadcast is under way has been given the last value set (as
  long as fewer than 2^64 values were set, the width of the version counter), and neither the
  value nor the watcher is closed.\<close>

theorem Next_blocks_only_up_to_date:
  assumes "vreach initial s" and "pcs s i = Waiting n" and "broadcasts s = 0"
    and "length (history s) < 2 ^ 64"
  shows "seen s i = length (history s) \<and> Watcher_Value (watchers s i) = Value_Get (the_value s)
    \<and> \<not> Value_Closed (the_value s) \<and> \<not> w_closed (watchers s i)"
proof -
  from vreach_invs[OF assms(1)] have inv: "wait_inv s" "seen_inv s" by auto
  with assms(2,3) have turn: "Watcher_Next_turn (the_value s) (watchers s i) = None"
    by (auto simp: wait_inv_def)
  then have "w_version (watchers s i) = version (the_value s)"
    by (simp add: Watcher_Next_turn_def split: if_splits)
  with seen_version_eq[OF inv(2) assms(4)] have "seen s i = length (history s)" by simp
  with inv(2) turn show ?thesis
    by (auto simp: seen_inv_def Watcher_Value_def Value_Get_def Value_Closed_def Watcher_Next_turn_def
        last_conv_nth split: if_splits)
qed

theorem Next_blocks_only_up_to_date_witness:
  "let s = turn 0 0 (voyeur_start (None :: nat option))
   in vreach None s \<and> pcs s 0 = Waiting 1 \<and> seen s 0 = length (history s)"
proof -
  let ?s = "turn 0 0 (voyeur_start (None :: nat option))"
  have i: "Value_init (the_value (voyeur_start None)) = the_value (voyeur_start (None :: nat option))"
    by (simp add: voyeur_start_def NewValue_def voyeur_defs)
  have "vstep (voyeur_start None) (turn 0 0 (voyeur_start None\<lparr>the_value := Value_init (the_value (voyeur_start (None :: nat option)))\<rparr>))"
    by (rule vstep.call_Next) (simp add: voyeur_start_def)
  then have r: "vreach None ?s" using vreach.step[OF vreach.start] unfolding i by simp
  moreover have w: "pcs ?s 0 = Waiting 1" "broadcasts ?s = 0" "length (history ?s) < 2 ^ 64"
    by (simp_all add: turn_def voyeur_start_def NewValue_def zero_Value_def Value_Watch_def
        Watcher_Next_turn_def voyeur_defs)
  ultimately show ?thesis using Next_blocks_only_up_to_date[OF r w] unfolding Let_def by blast
qed

text \<open>What Next returns: in every reachable state, a goroutine whose Next is about to go round its loop
  returns true exactly when the watcher has not been given the value of the current version, and
  then Value gives the current value; it returns false only when the value or the watcher is
  closed and the watcher has the current version, so that a value set before the close is
  delivered before the end is reported.\<close>

theorem Next_delivers_before_close:
  assumes "vreach initial s" and "length (history s) < 2 ^ 64"
  shows "(\<forall>w'. Watcher_Next_turn (the_value s) (watchers s i) = Some (True, w') \<longrightarrow>
            seen s i < length (history s) \<and> Watcher_Value w' = last (history s)
            \<and> Watcher_Next_turn (Value_Close (the_value s)) w' = Some (False, w'))
    \<and> (\<forall>w'. Watcher_Next_turn (the_value s) (watchers s i) = Some (False, w') \<longrightarrow>
            w' = watchers s i \<and> seen s i = length (history s)
            \<and> (Value_Closed (the_value s) \<or> w_closed (watchers s i)))"
proof -
  from vreach_invs[OF assms(1)] have inv: "seen_inv s" by auto
  then have val: "history s \<noteq> [] \<Longrightarrow> val (the_value s) = last (history s)"
    and le: "seen s i \<le> length (history s)" by (simp_all add: seen_inv_def)
  note eq = seen_version_eq[OF inv assms(2), of i]
  show ?thesis
  proof (cases "seen s i = length (history s)")
    case True
    with eq show ?thesis by (simp add: Watcher_Next_turn_def Value_Closed_def)
  next
    case False
    with le have "seen s i < length (history s)" "history s \<noteq> []" by auto
    with False eq val show ?thesis
      by (simp add: Watcher_Next_turn_def Watcher_Value_def Value_Close_def Let_def)
  qed
qed

subsection \<open>How often a watcher goes round its loop\<close>

text \<open>The state in which watcher 0 has gone round \<open>n\<close> times and waits, with nothing set and no
  broadcast under way.\<close>

lemma extra_turn:
  assumes "vreach None s" and "pcs s 0 = Waiting n" and "broadcasts s = 0"
  shows "\<exists>t. vreach None t \<and> pcs t 0 = Waiting (Suc n) \<and> broadcasts t = 0
    \<and> history t = history s \<and> (\<forall>i. i \<noteq> 1 \<longrightarrow> watchers t i = watchers s i)"
proof -
  let ?a = "s\<lparr>the_value := Value_init (the_value s), watchers := (watchers s)(1 := Watcher_Close (watchers s 1)),
      broadcasts := Suc (broadcasts s)\<rparr>"
  let ?b = "?a\<lparr>broadcasts := 0, pcs := (\<lambda>i. case pcs ?a i of Waiting n \<Rightarrow> Runnable n | p \<Rightarrow> p)\<rparr>"
  have "Watcher_Next_turn (the_value s) (watchers s 0) = None"
    using vreach_invs[OF assms(1)] assms(2,3) by (auto simp: wait_inv_def)
  then have c: "turn 0 n ?b = ?b\<lparr>pcs := (pcs ?b)(0 := Waiting (Suc n))\<rparr>"
    by (simp add: turn_def)
  have a: "vstep s ?a" by (rule vstep.do_Watcher_Close)
  have b: "vstep ?a ?b" using vstep.do_Broadcast[of ?a 0] assms(3) by simp
  have "vstep ?b (turn 0 n ?b)" by (rule vstep.woken) (simp add: assms(2))
  then have "vreach None (turn 0 n ?b)"
    by (rule vreach.step[OF vreach.step[OF vreach.step[OF assms(1) a] b]])
  then show ?thesis unfolding c by (intro exI[of _ "?b\<lparr>pcs := (pcs ?b)(0 := Waiting (Suc n))\<rparr>"]) simp
qed

text \<open>A watcher may go round the loop of Next any number of times although nothing was set and
  neither the value nor the watcher was closed: closing another watcher of the same value wakes
  it too. (The comment in the code says at most two.)\<close>

theorem Next_turns_unbounded:
  "\<exists>s. vreach (None :: 'a option) s \<and> pcs s 0 = Waiting (Suc n) \<and> broadcasts s = 0
     \<and> history s = [] \<and> \<not> w_closed (watchers s 0)"
proof (induction n)
  case 0
  let ?v = "voyeur_start (None :: 'a option)"
  have i: "Value_init (the_value ?v) = the_value ?v"
    by (simp add: voyeur_start_def NewValue_def voyeur_defs)
  have "vstep ?v (turn 0 0 (?v\<lparr>the_value := Value_init (the_value ?v)\<rparr>))"
    by (rule vstep.call_Next) (simp add: voyeur_start_def)
  then have "vreach None (turn 0 0 ?v)" using vreach.step[OF vreach.start] unfolding i by simp
  then show ?case
    by (intro exI[of _ "turn 0 0 ?v"]) (simp add: turn_def voyeur_start_def NewValue_def zero_Value_def
        Value_Watch_def Watcher_Next_turn_def voyeur_defs)
next
  case (Suc n)
  then obtain s :: "'a voyeur" where s: "vreach None s" "pcs s 0 = Waiting (Suc n)" "broadcasts s = 0" "history s = []"
    "\<not> w_closed (watchers s 0)" by blast
  from extra_turn[OF s(1-3)] s(4,5) show ?case by fastforce
qed

end
