(* ===== verification/FileSystem.thy ===== *)
theory FileSystem
  imports Prelude
begin

text \<open>
  The operations of the package \<^verbatim>\<open>os\<close> that the code uses, on a file system that is a tree.
  A path is the list of its components, so \<^verbatim>\<open>path.Join\<close> of clean parts is list append.
  Paths are not resolved through symbolic links: a link is a leaf. An operation either fails with
  an error number and leaves the tree alone, or returns the new tree.
\<close>

datatype node =
    File string nat
  | Link string
  | Dir nat "(string \<times> node) list"

type_synonym path = "string list"

datatype errno = ENOENT | EEXIST | ENOTDIR | EISDIR | ENOTEMPTY | EINVAL | ELOOP | EIO

named_theorems fs_simps \<open>lookup after an update of the tree\<close>

definition ent_set :: "string \<Rightarrow> node \<Rightarrow> (string \<times> node) list \<Rightarrow> (string \<times> node) list" where
  "ent_set x c es = (x, c) # filter (\<lambda>e. fst e \<noteq> x) es"

definition ent_del :: "string \<Rightarrow> (string \<times> node) list \<Rightarrow> (string \<times> node) list" where
  "ent_del x es = filter (\<lambda>e. fst e \<noteq> x) es"

fun fs_lookup :: "node \<Rightarrow> path \<Rightarrow> node option" where
  "fs_lookup n [] = Some n"
| "fs_lookup (Dir m es) (x # p) = (case map_of es x of None \<Rightarrow> None | Some c \<Rightarrow> fs_lookup c p)"
| "fs_lookup _ (x # p) = None"

fun fs_put :: "path \<Rightarrow> node \<Rightarrow> node \<Rightarrow> node" where
  "fs_put [] c n = c"
| "fs_put [x] c (Dir m es) = Dir m (ent_set x c es)"
| "fs_put (x # y # p) c (Dir m es) =
     (case map_of es x of None \<Rightarrow> Dir m es | Some d \<Rightarrow> Dir m (ent_set x (fs_put (y # p) c d) es))"
| "fs_put (x # p) c n = n"

fun fs_del :: "path \<Rightarrow> node \<Rightarrow> node" where
  "fs_del [] n = n"
| "fs_del [x] (Dir m es) = Dir m (ent_del x es)"
| "fs_del (x # y # p) (Dir m es) =
     (case map_of es x of None \<Rightarrow> Dir m es | Some d \<Rightarrow> Dir m (ent_set x (fs_del (y # p) d) es))"
| "fs_del (x # p) n = n"

fun is_dir :: "node option \<Rightarrow> bool" where
  "is_dir (Some (Dir m es)) = True"
| "is_dir _ = False"

text \<open>The error for a path with no node: some component before the end is not a directory, or
  the name is missing.\<close>

fun fs_errno :: "node \<Rightarrow> path \<Rightarrow> errno" where
  "fs_errno n [] = ENOENT"
| "fs_errno (Dir m es) (x # p) = (case map_of es x of None \<Rightarrow> ENOENT | Some c \<Rightarrow> fs_errno c p)"
| "fs_errno _ (x # p) = ENOTDIR"

definition os_Lstat :: "path \<Rightarrow> node \<Rightarrow> errno + node" where
  "os_Lstat p fs = (case fs_lookup fs p of Some n \<Rightarrow> Inr n | None \<Rightarrow> Inl (fs_errno fs p))"

definition os_Mkdir :: "path \<Rightarrow> nat \<Rightarrow> node \<Rightarrow> errno + node" where
  "os_Mkdir p mode fs =
     (if fs_lookup fs p \<noteq> None then Inl EEXIST
      else if \<not> is_dir (fs_lookup fs (butlast p)) then Inl (fs_errno fs p)
      else Inr (fs_put p (Dir mode []) fs))"

definition os_WriteFile :: "path \<Rightarrow> string \<Rightarrow> nat \<Rightarrow> node \<Rightarrow> errno + node" where
  "os_WriteFile p content mode fs =
     (case fs_lookup fs p of
        Some (Dir _ _) \<Rightarrow> Inl EISDIR
      | Some (Link _) \<Rightarrow> Inl EINVAL
      | Some (File _ m) \<Rightarrow> Inr (fs_put p (File content m) fs)
      | None \<Rightarrow> if is_dir (fs_lookup fs (butlast p)) then Inr (fs_put p (File content mode) fs)
               else Inl (fs_errno fs p))"

definition os_ReadFile :: "path \<Rightarrow> node \<Rightarrow> errno + string" where
  "os_ReadFile p fs =
     (case fs_lookup fs p of
        Some (File c _) \<Rightarrow> Inr c
      | Some (Dir _ _) \<Rightarrow> Inl EISDIR
      | Some (Link _) \<Rightarrow> Inl EINVAL
      | None \<Rightarrow> Inl (fs_errno fs p))"

text \<open>\<^verbatim>\<open>rename(2)\<close>: a directory replaces only an empty directory.\<close>

definition os_Rename :: "path \<Rightarrow> path \<Rightarrow> node \<Rightarrow> errno + node" where
  "os_Rename src dst fs =
     (case fs_lookup fs src of
        None \<Rightarrow> Inl (fs_errno fs src)
      | Some n \<Rightarrow>
          if src = dst then Inr fs
          else if prefix src dst then Inl EINVAL
          else if \<not> is_dir (fs_lookup fs (butlast dst)) \<or> dst = [] then Inl (fs_errno fs dst)
          else
            (case (is_dir (Some n), fs_lookup fs dst) of
               (True, Some (Dir _ [])) \<Rightarrow> Inr (fs_put dst n (fs_del src fs))
             | (True, Some (Dir _ _)) \<Rightarrow> Inl ENOTEMPTY
             | (True, Some _) \<Rightarrow> Inl ENOTDIR
             | (False, Some (Dir _ _)) \<Rightarrow> Inl EISDIR
             | (_, _) \<Rightarrow> Inr (fs_put dst n (fs_del src fs))))"

definition os_RemoveAll :: "path \<Rightarrow> node \<Rightarrow> node" where
  "os_RemoveAll p fs = fs_del p fs"

text \<open>\<^verbatim>\<open>MkdirAll\<close>: every missing directory on the way is made with the given mode.\<close>

fun os_MkdirAll :: "path \<Rightarrow> path \<Rightarrow> nat \<Rightarrow> node \<Rightarrow> errno + node" where
  "os_MkdirAll done [] mode fs = Inr fs"
| "os_MkdirAll done (x # p) mode fs =
     (case fs_lookup fs (done @ [x]) of
        Some (Dir _ _) \<Rightarrow> os_MkdirAll (done @ [x]) p mode fs
      | Some _ \<Rightarrow> Inl ENOTDIR
      | None \<Rightarrow> sum_bind (os_Mkdir (done @ [x]) mode fs) (os_MkdirAll (done @ [x]) p mode))"

subsection \<open>Lookup after an update\<close>

lemma strict_prefix_below [simp]:
  "strict_prefix p (p @ x # q)" "strict_prefix (p @ [x]) (p @ [x, y])"
  by (simp_all add: strict_prefix_def)

lemma map_of_filter_other: "x \<noteq> y \<Longrightarrow> map_of (filter (\<lambda>e. fst e \<noteq> y) es) x = map_of es x"
  by (induction es) auto

lemma map_of_filter_same: "map_of (filter (\<lambda>e. fst e \<noteq> y) es) y = None"
  by (induction es) auto

lemma map_of_ent_set [fs_simps]: "map_of (ent_set x c es) y = (if y = x then Some c else map_of es y)"
  by (simp add: ent_set_def map_of_filter_other)

lemma map_of_ent_del [fs_simps]: "map_of (ent_del x es) y = (if y = x then None else map_of es y)"
  by (simp add: ent_del_def map_of_filter_other map_of_filter_same)

lemma fs_lookup_append: "fs_lookup n (p @ q) = Option.bind (fs_lookup n p) (\<lambda>m. fs_lookup m q)"
  by (induction n p rule: fs_lookup.induct) (auto split: option.splits)

lemma fs_lookup_put_below:
  "p \<noteq> [] \<Longrightarrow> is_dir (fs_lookup n (butlast p)) \<Longrightarrow> fs_lookup (fs_put p c n) (p @ q) = fs_lookup c q"
  by (induction p c n rule: fs_put.induct) (auto simp: fs_simps split: option.splits if_splits)

lemma fs_lookup_put_other:
  "\<not> prefix p q \<Longrightarrow> \<not> prefix q p \<Longrightarrow> fs_lookup (fs_put p c n) q = fs_lookup n q"
proof (induction p c n arbitrary: q rule: fs_put.induct)
  case (2 x c m es)
  then show ?case by (cases q) (auto simp: fs_simps)
next
  case (3 x y p c m es)
  then show ?case by (cases q) (auto simp: fs_simps split: option.splits)
qed auto

lemma fs_lookup_del_below:
  "p \<noteq> [] \<Longrightarrow> fs_lookup (fs_del p n) (p @ q) = None"
  by (induction p n rule: fs_del.induct) (auto simp: fs_simps split: option.splits)

lemma fs_lookup_del_other:
  "\<not> prefix p q \<Longrightarrow> \<not> prefix q p \<Longrightarrow> fs_lookup (fs_del p n) q = fs_lookup n q"
proof (induction p n arbitrary: q rule: fs_del.induct)
  case (2 x m es)
  then show ?case by (cases q) (auto simp: fs_simps)
next
  case (3 x y p m es)
  then show ?case by (cases q) (auto simp: fs_simps split: option.splits)
qed auto

text \<open>The directories above the place of an update stay directories.\<close>

lemma is_dir_put_above:
  "strict_prefix q p \<Longrightarrow> is_dir (fs_lookup n q) \<Longrightarrow> is_dir (fs_lookup (fs_put p c n) q)"
proof (induction p c n arbitrary: q rule: fs_put.induct)
  case (2 x c m es)
  then show ?case by (cases q) auto
next
  case (3 x y p c m es)
  then show ?case by (cases q) (auto simp: fs_simps split: option.splits)
qed auto

lemma is_dir_del_above:
  "strict_prefix q p \<Longrightarrow> is_dir (fs_lookup n q) \<Longrightarrow> is_dir (fs_lookup (fs_del p n) q)"
proof (induction p n arbitrary: q rule: fs_del.induct)
  case (2 x m es)
  then show ?case by (cases q) auto
next
  case (3 x y p m es)
  then show ?case by (cases q) (auto simp: fs_simps split: option.splits)
qed auto

subsection \<open>The tree as a function of paths\<close>

text \<open>A node without what is below it. Seen through \<open>fs_view\<close>, an update changes the tree exactly at
  and below its path.\<close>

fun node_head :: "node \<Rightarrow> node" where
  "node_head (Dir m es) = Dir m []"
| "node_head n = n"

definition fs_view :: "node \<Rightarrow> path \<Rightarrow> node option" where
  "fs_view t q = map_option node_head (fs_lookup t q)"

fun is_link :: "node option \<Rightarrow> bool" where
  "is_link (Some (Link t)) = True"
| "is_link _ = False"

lemma node_head_idem [simp]: "node_head (node_head n) = node_head n"
  by (cases n) simp_all

lemma fs_view_None [simp]: "fs_view t q = None \<longleftrightarrow> fs_lookup t q = None" "None = fs_view t q \<longleftrightarrow> fs_lookup t q = None"
  by (auto simp: fs_view_def)

lemma is_dir_view [simp]: "is_dir (fs_view t q) = is_dir (fs_lookup t q)"
  by (cases "fs_lookup t q" rule: is_dir.cases) (simp_all add: fs_view_def)

lemma is_link_view [simp]: "is_link (fs_view t q) = is_link (fs_lookup t q)"
  by (cases "fs_lookup t q" rule: is_link.cases) (simp_all add: fs_view_def)

lemma fs_view_Nil [simp]: "fs_view t [] = Some (node_head t)"
  by (simp add: fs_view_def)

lemma fs_view_Dir [simp]:
  "fs_view (Dir m es) (x # q) = (case map_of es x of None \<Rightarrow> None | Some c \<Rightarrow> fs_view c q)"
  by (simp add: fs_view_def split: option.splits)

lemma fs_view_leaf [simp]: "fs_view (File c m) (x # q) = None" "fs_view (Link l) (x # q) = None"
  by (simp_all add: fs_view_def)

lemma fs_view_append: "fs_lookup t p = Some n \<Longrightarrow> fs_view t (p @ q) = fs_view n q"
  by (simp add: fs_view_def fs_lookup_append)

lemma fs_view_below_None: "fs_view t p = None \<Longrightarrow> fs_view t (p @ q) = None"
  by (simp add: fs_lookup_append)

lemma fs_view_put [fs_simps]:
  "p \<noteq> [] \<Longrightarrow> is_dir (fs_lookup t (butlast p)) \<Longrightarrow>
   fs_view (fs_put p c t) q = (if prefix p q then fs_view c (drop (length p) q) else fs_view t q)"
proof (induction p c t arbitrary: q rule: fs_put.induct)
  case (2 x c m es)
  then show ?case by (cases q) (auto simp: fs_simps)
next
  case (3 x y p c m es)
  then show ?case by (cases q) (auto simp: fs_simps split: option.splits)
qed (auto split: if_splits)

lemma fs_view_put_nodir:
  "p \<noteq> [] \<Longrightarrow> \<not> is_dir (fs_lookup t (butlast p)) \<Longrightarrow> fs_view (fs_put p c t) q = fs_view t q"
proof (induction p c t arbitrary: q rule: fs_put.induct)
  case (3 x y p c m es)
  then show ?case by (cases q) (auto simp: fs_simps split: option.splits)
qed auto

lemma fs_view_put_cases:
  "fs_view (fs_put p c t) q = fs_view t q \<or> prefix p q \<and> fs_view (fs_put p c t) q = fs_view c (drop (length p) q)"
  using fs_view_put[of p t c q] fs_view_put_nodir[of p t c q]
  by (cases "p = []"; cases "is_dir (fs_lookup t (butlast p))") auto

lemma fs_view_del [fs_simps]:
  "p \<noteq> [] \<Longrightarrow> fs_view (fs_del p t) q = (if prefix p q then None else fs_view t q)"
proof (induction p t arbitrary: q rule: fs_del.induct)
  case (2 x m es)
  then show ?case by (cases q) (auto simp: fs_simps)
next
  case (3 x y p m es)
  show ?case
  proof (cases q)
    case (Cons z q')
    then show ?thesis
      using 3 by (cases "map_of es x") (auto simp: fs_simps fs_lookup_append prefix_def split: option.splits)
  qed (simp split: option.splits)
qed (auto simp: prefix_def)

text \<open>Nodes are found only in directories.\<close>

lemma fs_lookup_parent: "fs_lookup t (p @ [x]) \<noteq> None \<Longrightarrow> is_dir (fs_lookup t p)"
  by (cases "fs_lookup t p" rule: is_dir.cases) (auto simp: fs_lookup_append)

lemma fs_errno_below_dir: "is_dir (fs_lookup fs p) \<Longrightarrow> fs_lookup fs (p @ [x]) = None \<Longrightarrow> fs_errno fs (p @ [x]) = ENOENT"
  by (induction fs p rule: fs_lookup.induct) (auto split: option.splits elim: is_dir.elims)

end
