(* ===== verification/FsLock.thy ===== *)
theory FsLock
  imports FileSystem
begin

text \<open>
  The package \<^verbatim>\<open>fslock\<close> (\<^verbatim>\<open>src/fslock/fslock.go\<close>): a mutex on disk. A
  lock is held when a directory of its name exists; it is taken by renaming a private directory
  into place. \<^verbatim>\<open>acquire\<close> and \<^verbatim>\<open>Unlock\<close> are written as step functions, one
  step per system call, so that the same definition runs alone (\<open>Lock_acquire\<close>, \<open>Lock_Unlock\<close>) and
  interleaved with any number of other processes (\<open>lstep\<close>). Every system call may also fail with
  an error of its own (the argument \<open>fault\<close>). Writing to the log and sleeping are left out.
\<close>

record Lock =
  l_name :: string
  l_parent :: path
  l_nonce :: string

datatype lock_error = ErrLockNotHeld | ErrTimeout | InvalidLockName | OsError errno | OtherError string

text \<open>\<^verbatim>\<open>NameRegexp\<close>: one or more lower case letters, then lower case letters, digits, dots and hyphens.\<close>

definition is_lower :: "char \<Rightarrow> bool" where
  "is_lower c = (let n = of_char c :: nat in 97 \<le> n \<and> n \<le> 122)"

definition is_digit :: "char \<Rightarrow> bool" where
  "is_digit c = (let n = of_char c :: nat in 48 \<le> n \<and> n \<le> 57)"

definition validName :: "string \<Rightarrow> bool" where
  "validName s =
     (let rest = dropWhile is_lower s
      in s \<noteq> [] \<and> is_lower (hd s)
         \<and> list_all (\<lambda>c. is_lower c \<or> is_digit c \<or> c = CHR ''.'' \<or> c = CHR ''-'') rest)"

text \<open>\<^verbatim>\<open>NewUUID\<close> is an argument: the nonce it returns, or its error.\<close>

definition NewLock :: "path \<Rightarrow> string \<Rightarrow> lock_error + string \<Rightarrow> node \<Rightarrow> lock_error + (Lock \<times> node)" where
  "NewLock lockDir name uuid fs =
     (if \<not> validName name then Inl InvalidLockName
      else sum_bind uuid (\<lambda>nonce.
        case os_MkdirAll [] lockDir 493 fs of
          Inl e \<Rightarrow> Inl (OsError e)
        | Inr fs' \<Rightarrow> Inr (\<lparr>l_name = name, l_parent = lockDir, l_nonce = nonce\<rparr>, fs')))"

definition Lock_lockDir :: "Lock \<Rightarrow> path" where
  "Lock_lockDir lock = l_parent lock @ [l_name lock]"

definition Lock_heldFile :: "Lock \<Rightarrow> path" where
  "Lock_heldFile lock = Lock_lockDir lock @ [''held'']"

definition Lock_messageFile :: "Lock \<Rightarrow> path" where
  "Lock_messageFile lock = Lock_lockDir lock @ [''message'']"

definition fmt_x :: "string \<Rightarrow> string" where
  "fmt_x s = concat (map (\<lambda>c. let n = of_char c :: nat in [hex_digit (n div 16), hex_digit (n mod 16)]) s)"

definition temp_name :: "Lock \<Rightarrow> string \<Rightarrow> string" where
  "temp_name lock random = ''.'' @ fmt_x (l_nonce lock) @ random"

definition unlock_name :: "Lock \<Rightarrow> string" where
  "unlock_name lock = ''.'' @ l_name lock @ ''.'' @ fmt_x (l_nonce lock)"

subsection \<open>acquire\<close>

datatype acq_pc = A_Stat | A_TempDir | A_WriteHeld string | A_WriteMessage string | A_Rename string
  | A_Cleanup string | A_Done "errno + bool"

definition with_fault :: "errno option \<Rightarrow> errno + 'a \<Rightarrow> errno + 'a" where
  "with_fault fault r = (case fault of Some e \<Rightarrow> Inl e | None \<Rightarrow> r)"

text \<open>\<^verbatim>\<open>ioutil.TempDir\<close> tries another random name when the one it chose exists: the step
  then stays where it is.\<close>

fun acquire_step :: "Lock \<Rightarrow> string \<Rightarrow> string \<Rightarrow> errno option \<Rightarrow> acq_pc \<Rightarrow> node \<Rightarrow> acq_pc \<times> node" where
  "acquire_step lock message random fault A_Stat fs =
     (case with_fault fault (os_Lstat (Lock_lockDir lock) fs) of
        Inr _ \<Rightarrow> (A_Done (Inr False), fs)
      | Inl err \<Rightarrow> if err \<noteq> ENOENT then (A_Done (Inl err), fs) else (A_TempDir, fs))"
| "acquire_step lock message random fault A_TempDir fs =
     (let temp = temp_name lock random in
      case with_fault fault (os_Mkdir (l_parent lock @ [temp]) 448 fs) of
        Inr fs' \<Rightarrow> (A_WriteHeld temp, fs')
      | Inl err \<Rightarrow> if err = EEXIST then (A_TempDir, fs) else (A_Done (Inl err), fs))"
| "acquire_step lock message random fault (A_WriteHeld temp) fs =
     (case with_fault fault (os_WriteFile (l_parent lock @ [temp, ''held'']) (l_nonce lock) 493 fs) of
        Inr fs' \<Rightarrow> (if message \<noteq> [] then A_WriteMessage temp else A_Rename temp, fs')
      | Inl err \<Rightarrow> (A_Done (Inl err), fs))"
| "acquire_step lock message random fault (A_WriteMessage temp) fs =
     (case with_fault fault (os_WriteFile (l_parent lock @ [temp, ''message'']) message 493 fs) of
        Inr fs' \<Rightarrow> (A_Rename temp, fs')
      | Inl err \<Rightarrow> (A_Done (Inl err), fs))"
| "acquire_step lock message random fault (A_Rename temp) fs =
     (case with_fault fault (os_Rename (l_parent lock @ [temp]) (Lock_lockDir lock) fs) of
        Inr fs' \<Rightarrow> (A_Done (Inr True), fs')
      | Inl err \<Rightarrow> (A_Cleanup temp, fs))"
| "acquire_step lock message random fault (A_Cleanup temp) fs =
     (A_Done (Inr False), case fault of None \<Rightarrow> os_RemoveAll (l_parent lock @ [temp]) fs | Some _ \<Rightarrow> fs)"
| "acquire_step lock message random fault (A_Done r) fs = (A_Done r, fs)"

text \<open>Without interference and without faults the call is over after six steps.\<close>

definition Lock_acquire :: "Lock \<Rightarrow> string \<Rightarrow> string \<Rightarrow> node \<Rightarrow> acq_pc \<times> node" where
  "Lock_acquire lock message random fs =
     ((\<lambda>(pc, fs). acquire_step lock message random None pc fs) ^^ 6) (A_Stat, fs)"

subsection \<open>Unlock and the queries\<close>

definition Lock_IsLockHeld :: "Lock \<Rightarrow> node \<Rightarrow> bool" where
  "Lock_IsLockHeld lock fs =
     (case os_ReadFile (Lock_heldFile lock) fs of Inl _ \<Rightarrow> False | Inr heldNonce \<Rightarrow> heldNonce = l_nonce lock)"

definition Lock_IsLocked :: "Lock \<Rightarrow> node \<Rightarrow> bool" where
  "Lock_IsLocked lock fs = (case os_Lstat (Lock_heldFile lock) fs of Inl _ \<Rightarrow> False | Inr _ \<Rightarrow> True)"

definition Lock_Message :: "Lock \<Rightarrow> node \<Rightarrow> string" where
  "Lock_Message lock fs = (case os_ReadFile (Lock_messageFile lock) fs of Inl _ \<Rightarrow> [] | Inr m \<Rightarrow> m)"

definition Lock_BreakLock :: "Lock \<Rightarrow> node \<Rightarrow> node" where
  "Lock_BreakLock lock fs = os_RemoveAll (Lock_lockDir lock) fs"

text \<open>The result of \<^verbatim>\<open>Unlock\<close> tells whether the lock directory was moved away.\<close>

datatype unl_pc = U_Check | U_Rename | U_RemoveAll | U_Done bool "lock_error option"

fun unlock_step :: "Lock \<Rightarrow> errno option \<Rightarrow> unl_pc \<Rightarrow> node \<Rightarrow> unl_pc \<times> node" where
  "unlock_step lock fault U_Check fs =
     (if fault = None \<and> Lock_IsLockHeld lock fs then (U_Rename, fs)
      else (U_Done False (Some ErrLockNotHeld), fs))"
| "unlock_step lock fault U_Rename fs =
     (case with_fault fault (os_Rename (Lock_lockDir lock) (l_parent lock @ [unlock_name lock]) fs) of
        Inl err \<Rightarrow> (U_Done False (Some (OsError err)), fs)
      | Inr fs' \<Rightarrow> (U_RemoveAll, fs'))"
| "unlock_step lock fault U_RemoveAll fs =
     (case fault of
        Some err \<Rightarrow> (U_Done True (Some (OsError err)), fs)
      | None \<Rightarrow> (U_Done True None, os_RemoveAll (l_parent lock @ [unlock_name lock]) fs))"
| "unlock_step lock fault (U_Done b r) fs = (U_Done b r, fs)"

definition Lock_Unlock :: "Lock \<Rightarrow> node \<Rightarrow> unl_pc \<times> node" where
  "Lock_Unlock lock fs = ((\<lambda>(pc, fs). unlock_step lock None pc fs) ^^ 3) (U_Check, fs)"

subsection \<open>lockLoop\<close>

text \<open>
  The loop that \<^verbatim>\<open>Lock\<close>, \<^verbatim>\<open>LockWithTimeout\<close> and
  \<^verbatim>\<open>LockWithFunc\<close> share, over the outcome of the call of \<^verbatim>\<open>acquire\<close> and of
  \<^verbatim>\<open>continueFunc\<close> in each round. It may run for ever: \<^const>\<open>None\<close> is not returning.
\<close>

partial_function (option) lockLoop ::
  "(nat \<Rightarrow> errno + bool) \<Rightarrow> (nat \<Rightarrow> lock_error option) \<Rightarrow> nat \<Rightarrow> lock_error option option" where
  "lockLoop acquire continueFunc n =
     (case acquire n of
        Inl err \<Rightarrow> Some (Some (OsError err))
      | Inr acquired \<Rightarrow>
          if acquired then Some None
          else
            (case continueFunc n of
               Some err \<Rightarrow> Some (Some err)
             | None \<Rightarrow> lockLoop acquire continueFunc (Suc n)))"

definition Lock_Lock :: "(nat \<Rightarrow> errno + bool) \<Rightarrow> lock_error option option" where
  "Lock_Lock acquire = lockLoop acquire (\<lambda>_. None) 0"

text \<open>\<open>clock n\<close> is the reading of \<^verbatim>\<open>time.Now\<close> in round \<open>n\<close>.\<close>

definition Lock_LockWithTimeout ::
  "(nat \<Rightarrow> errno + bool) \<Rightarrow> int \<Rightarrow> (nat \<Rightarrow> int) \<Rightarrow> int \<Rightarrow> lock_error option option" where
  "Lock_LockWithTimeout acquire now clock duration =
     (let deadline = now + duration
      in lockLoop acquire (\<lambda>n. if clock n > deadline then Some ErrTimeout else None) 0)"

definition Lock_LockWithFunc ::
  "(nat \<Rightarrow> errno + bool) \<Rightarrow> (nat \<Rightarrow> lock_error option) \<Rightarrow> lock_error option option" where
  "Lock_LockWithFunc acquire continueFunc = lockLoop acquire continueFunc 0"

subsection \<open>Any number of processes\<close>

text \<open>
  Processes share the parent directory and the name of the lock and have nonces of their own.
  A process is idle, in a call of \<^verbatim>\<open>acquire\<close> (which a lock loop repeats), holding the lock
  as far as it knows, or in a call of \<^verbatim>\<open>Unlock\<close>; \<open>Unlocking\<close> records whether it held the lock
  when it called. The random part of a temporary name is a number.
\<close>

datatype lpc = NotHolding | Acquiring acq_pc | Holding | Unlocking bool unl_pc

record lsys =
  tree :: node
  procs :: "nat \<Rightarrow> lpc"

inductive lstep :: "(nat \<Rightarrow> Lock) \<Rightarrow> lsys \<Rightarrow> lsys \<Rightarrow> bool" for locks where
  call_acquire: "procs s i = NotHolding \<Longrightarrow> lstep locks s (s\<lparr>procs := (procs s)(i := Acquiring A_Stat)\<rparr>)"
| acquire: "procs s i = Acquiring pc \<Longrightarrow> list_all is_digit random \<Longrightarrow>
    acquire_step (locks i) message random fault pc (tree s) = (pc', fs') \<Longrightarrow>
    lstep locks s (s\<lparr>tree := fs', procs := (procs s)(i := Acquiring pc')\<rparr>)"
| acquired: "procs s i = Acquiring (A_Done (Inr True)) \<Longrightarrow> lstep locks s (s\<lparr>procs := (procs s)(i := Holding)\<rparr>)"
| retry: "procs s i = Acquiring (A_Done (Inr False)) \<Longrightarrow>
    lstep locks s (s\<lparr>procs := (procs s)(i := Acquiring A_Stat)\<rparr>)"
| give_up: "procs s i = Acquiring (A_Done r) \<Longrightarrow> r \<noteq> Inr True \<Longrightarrow>
    lstep locks s (s\<lparr>procs := (procs s)(i := NotHolding)\<rparr>)"
| call_Unlock: "procs s i = NotHolding \<and> \<not> b \<or> procs s i = Holding \<and> b \<Longrightarrow>
    lstep locks s (s\<lparr>procs := (procs s)(i := Unlocking b U_Check)\<rparr>)"
| unlock: "procs s i = Unlocking b pc \<Longrightarrow>
    unlock_step (locks i) fault pc (tree s) = (pc', fs') \<Longrightarrow>
    lstep locks s (s\<lparr>tree := fs', procs := (procs s)(i := Unlocking b pc')\<rparr>)"
| unlock_returns: "procs s i = Unlocking b (U_Done moved r) \<Longrightarrow>
    lstep locks s (s\<lparr>procs := (procs s)(i := if b \<and> \<not> moved then Holding else NotHolding)\<rparr>)"

inductive lreach :: "(nat \<Rightarrow> Lock) \<Rightarrow> node \<Rightarrow> lsys \<Rightarrow> bool" for locks fs where
  init: "lreach locks fs \<lparr>tree = fs, procs = (\<lambda>_. NotHolding)\<rparr>"
| step: "lreach locks fs s \<Longrightarrow> lstep locks s t \<Longrightarrow> lreach locks fs t"

text \<open>What the locks of one resource have in common.\<close>

definition same_resource :: "path \<Rightarrow> string \<Rightarrow> (nat \<Rightarrow> Lock) \<Rightarrow> bool" where
  "same_resource parent name locks \<longleftrightarrow>
     validName name \<and> inj (\<lambda>i. l_nonce (locks i))
     \<and> (\<forall>i. l_parent (locks i) = parent \<and> l_name (locks i) = name)"

subsection \<open>Updates below the parent directory\<close>

text \<open>An update of the tree that keeps the parent directory and leaves all of its entries but some
  alone.\<close>

definition touches :: "path \<Rightarrow> string set \<Rightarrow> node \<Rightarrow> node \<Rightarrow> bool" where
  "touches parent X fs fs' \<longleftrightarrow>
     (is_dir (fs_lookup fs parent) \<longrightarrow> is_dir (fs_lookup fs' parent))
     \<and> (\<forall>x q. x \<notin> X \<longrightarrow> fs_lookup fs' (parent @ x # q) = fs_lookup fs (parent @ x # q))"

lemma touches_refl [simp]: "touches parent X fs fs"
  by (simp add: touches_def)

lemma touches_trans: "touches parent X fs fs' \<Longrightarrow> touches parent Y fs' fs'' \<Longrightarrow> touches parent (X \<union> Y) fs fs''"
  by (simp add: touches_def)

lemma touches_mono: "touches parent X fs fs' \<Longrightarrow> X \<subseteq> Y \<Longrightarrow> touches parent Y fs fs'"
  by (auto simp: touches_def)

lemma touches_put: "touches parent {t} fs (fs_put (parent @ t # q) c fs)"
  by (auto simp: touches_def intro: is_dir_put_above intro!: fs_lookup_put_other)

lemma touches_del: "touches parent {t} fs (fs_del (parent @ t # q) fs)"
  by (auto simp: touches_def intro: is_dir_del_above intro!: fs_lookup_del_other)

lemma os_Mkdir_entry:
  assumes "os_Mkdir (parent @ [t]) mode fs = Inr fs'"
  shows "touches parent {t} fs fs'" "fs_lookup fs (parent @ [t]) = None" "is_dir (fs_lookup fs' (parent @ [t]))"
  using assms touches_put[of parent t fs "[]"] fs_lookup_put_below[of "parent @ [t]" fs _ "[]"]
  by (auto simp: os_Mkdir_def split: if_splits)

lemma os_WriteFile_entry:
  assumes "os_WriteFile (parent @ [t, f]) content mode fs = Inr fs'"
    and "is_dir (fs_lookup fs (parent @ [t]))"
  shows "touches parent {t} fs fs'" "is_dir (fs_lookup fs' (parent @ [t]))"
    "\<exists>m. fs_lookup fs' (parent @ [t, f]) = Some (File content m)"
    "g \<noteq> f \<Longrightarrow> fs_lookup fs' (parent @ [t, g]) = fs_lookup fs (parent @ [t, g])"
proof -
  from assms(1) obtain m where fs': "fs' = fs_put (parent @ [t, f]) (File content m) fs"
    by (auto simp: os_WriteFile_def split: option.splits node.splits if_splits)
  show "touches parent {t} fs fs'" using touches_put[of parent t fs "[f]"] fs' by simp
  show "is_dir (fs_lookup fs' (parent @ [t]))"
    using is_dir_put_above[of "parent @ [t]" "parent @ [t, f]" fs] assms(2) fs' by simp
  show "\<exists>m. fs_lookup fs' (parent @ [t, f]) = Some (File content m)"
    using fs_lookup_put_below[of "parent @ [t, f]" fs "File content m" "[]"] assms(2) fs'
    by (simp add: butlast_append)
  show "fs_lookup fs' (parent @ [t, g]) = fs_lookup fs (parent @ [t, g])" if "g \<noteq> f"
    using fs_lookup_put_other[of "parent @ [t, f]" "parent @ [t, g]"] that fs' by simp
qed

lemma os_Rename_entry:
  assumes "os_Rename (parent @ [x]) (parent @ [y]) fs = Inr fs'" and "x \<noteq> y"
    and "is_dir (fs_lookup fs (parent @ [x]))"
  shows "touches parent {x, y} fs fs'" "fs_lookup fs' (parent @ y # q) = fs_lookup fs (parent @ x # q)"
    "fs_lookup fs' (parent @ x # q) = None"
    "fs_lookup fs (parent @ [y]) = None \<or> (\<exists>m. fs_lookup fs (parent @ [y]) = Some (Dir m []))"
proof -
  from assms(3) obtain m es where n: "fs_lookup fs (parent @ [x]) = Some (Dir m es)"
    by (cases "fs_lookup fs (parent @ [x])" rule: is_dir.cases) auto
  with assms(1,2) have fs': "fs' = fs_put (parent @ [y]) (Dir m es) (fs_del (parent @ [x]) fs)"
    and par: "is_dir (fs_lookup fs parent)"
    and dst: "fs_lookup fs (parent @ [y]) = None \<or> (\<exists>m. fs_lookup fs (parent @ [y]) = Some (Dir m []))"
    by (auto simp: os_Rename_def split: if_splits option.splits node.splits list.splits)
  then show "fs_lookup fs (parent @ [y]) = None \<or> (\<exists>m. fs_lookup fs (parent @ [y]) = Some (Dir m []))"
    by simp
  have del: "touches parent {x} fs (fs_del (parent @ [x]) fs)" using touches_del[of parent x fs "[]"] by simp
  then have "touches parent ({x} \<union> {y}) fs fs'"
    unfolding fs' using touches_put[of parent y _ "[]"] by (rule touches_trans)
  then show "touches parent {x, y} fs fs'" by (simp add: insert_commute)
  have "is_dir (fs_lookup (fs_del (parent @ [x]) fs) parent)" using del par by (simp add: touches_def)
  then have "fs_lookup fs' ((parent @ [y]) @ q) = fs_lookup (Dir m es) q"
    unfolding fs' by (intro fs_lookup_put_below) auto
  then show "fs_lookup fs' (parent @ y # q) = fs_lookup fs (parent @ x # q)"
    using fs_lookup_append[of fs "parent @ [x]" q] n by simp
  have "fs_lookup fs' (parent @ x # q) = fs_lookup (fs_del (parent @ [x]) fs) (parent @ x # q)"
    unfolding fs' using assms(2) by (intro fs_lookup_put_other) auto
  then show "fs_lookup fs' (parent @ x # q) = None"
    using fs_lookup_del_below[of "parent @ [x]" fs q] by simp
qed

lemma os_RemoveAll_entry:
  "touches parent {t} fs (os_RemoveAll (parent @ [t]) fs)"
  "fs_lookup (os_RemoveAll (parent @ [t]) fs) (parent @ t # q) = None"
  using touches_del[of parent t fs "[]"] fs_lookup_del_below[of "parent @ [t]" fs q]
  by (simp_all add: os_RemoveAll_def)

subsection \<open>The invariant\<close>

fun temp_of :: "lpc \<Rightarrow> string option" where
  "temp_of (Acquiring (A_WriteHeld t)) = Some t"
| "temp_of (Acquiring (A_WriteMessage t)) = Some t"
| "temp_of (Acquiring (A_Rename t)) = Some t"
| "temp_of (Acquiring (A_Cleanup t)) = Some t"
| "temp_of _ = None"

fun written :: "lpc \<Rightarrow> string option" where
  "written (Acquiring (A_WriteMessage t)) = Some t"
| "written (Acquiring (A_Rename t)) = Some t"
| "written _ = None"

text \<open>The process holds the lock, from the rename that takes it to the rename that gives it back.\<close>

fun holds :: "lpc \<Rightarrow> bool" where
  "holds (Acquiring (A_Done (Inr True))) = True"
| "holds Holding = True"
| "holds (Unlocking b U_Check) = b"
| "holds (Unlocking b U_Rename) = b"
| "holds (Unlocking b (U_Done moved r)) = (b \<and> \<not> moved)"
| "holds _ = False"

fun checked_ok :: "lpc \<Rightarrow> bool" where
  "checked_ok (Unlocking b U_Rename) = b"
| "checked_ok _ = True"

definition temp_shape :: "string \<Rightarrow> bool" where
  "temp_shape t \<longleftrightarrow> (\<exists>u. t = CHR ''.'' # u \<and> CHR ''.'' \<notin> set u)"

definition held_in :: "node \<Rightarrow> path \<Rightarrow> string \<Rightarrow> bool" where
  "held_in fs d nonce \<longleftrightarrow> (\<exists>m. fs_lookup fs (d @ [''held'']) = Some (File nonce m))"

definition linv :: "path \<Rightarrow> string \<Rightarrow> (nat \<Rightarrow> Lock) \<Rightarrow> lsys \<Rightarrow> bool" where
  "linv parent name locks s \<longleftrightarrow>
     is_dir (fs_lookup (tree s) parent)
     \<and> (\<forall>i t. temp_of (procs s i) = Some t \<longrightarrow> temp_shape t \<and> is_dir (fs_lookup (tree s) (parent @ [t]))
          \<and> (\<forall>j. temp_of (procs s j) = Some t \<longrightarrow> j = i))
     \<and> (\<forall>i t. written (procs s i) = Some t \<longrightarrow> held_in (tree s) (parent @ [t]) (l_nonce (locks i)))
     \<and> (\<forall>i. holds (procs s i) \<longleftrightarrow> held_in (tree s) (parent @ [name]) (l_nonce (locks i)))
     \<and> (\<forall>i. checked_ok (procs s i))"

lemma written_temp: "written p = Some t \<Longrightarrow> temp_of p = Some t"
  by (induction p rule: written.induct) auto

lemma held_in_touches:
  "touches parent X fs fs' \<Longrightarrow> x \<notin> X \<Longrightarrow> held_in fs' (parent @ [x]) n \<longleftrightarrow> held_in fs (parent @ [x]) n"
  by (simp add: held_in_def touches_def)

text \<open>One process moves and touches entries that no other process is working on.\<close>

lemma linv_update:
  assumes inv: "linv parent name locks s"
    and tch: "touches parent X (tree s) fs'"
    and others: "\<And>j t. j \<noteq> i \<Longrightarrow> temp_of (procs s j) = Some t \<Longrightarrow> t \<notin> X \<and> temp_of p' \<noteq> Some t"
    and own: "\<And>t. temp_of p' = Some t \<Longrightarrow> temp_shape t \<and> is_dir (fs_lookup fs' (parent @ [t]))"
    and wr: "\<And>t. written p' = Some t \<Longrightarrow> held_in fs' (parent @ [t]) (l_nonce (locks i))"
    and hold: "\<And>j. holds (((procs s)(i := p')) j) \<longleftrightarrow> held_in fs' (parent @ [name]) (l_nonce (locks j))"
    and chk: "checked_ok p'"
  shows "linv parent name locks (s\<lparr>tree := fs', procs := (procs s)(i := p')\<rparr>)"
proof -
  have frame: "is_dir (fs_lookup fs' (parent @ [t]))" "held_in fs' (parent @ [t]) n = held_in (tree s) (parent @ [t]) n"
    if "j \<noteq> i" "temp_of (procs s j) = Some t" for j t n
    using others[OF that] that inv tch held_in_touches[OF tch] by (auto simp: linv_def touches_def)
  show ?thesis
    using inv tch own wr hold chk others frame written_temp
    unfolding linv_def by (auto simp: touches_def split: if_splits) metis+
qed

subsection \<open>Every step keeps the invariant\<close>

lemma fmt_x_no_dot: "CHR ''.'' \<notin> set (fmt_x s)"
proof -
  have "hex_digit d \<noteq> CHR ''.''" if "d < 16" for d
  proof
    assume "hex_digit d = CHR ''.''"
    then have "(of_char (hex_digit d) :: nat) = 46" by simp
    with that show False by (auto simp: hex_digit_def split: if_splits)
  qed
  moreover have "(of_char c :: nat) div 16 < 16" for c
    using nat_of_char_less_256[of c] by (simp add: less_mult_imp_div_less)
  ultimately have "hex_digit (of_char c div 16) \<noteq> CHR ''.''" "hex_digit (of_char c mod 16) \<noteq> CHR ''.''" for c
    by simp_all
  then show ?thesis by (simp add: fmt_x_def Let_def not_sym)
qed

lemma is_digit_dot: "list_all is_digit r \<Longrightarrow> CHR ''.'' \<notin> set r"
  by (auto simp: list_all_iff is_digit_def)

lemma temp_name_shape: "list_all is_digit r \<Longrightarrow> temp_shape (temp_name lock r)"
  using fmt_x_no_dot is_digit_dot by (auto simp: temp_shape_def temp_name_def)

lemma unlock_name_shape: "\<not> temp_shape (unlock_name lock)" "hd (unlock_name lock) = CHR ''.''"
  by (auto simp: temp_shape_def unlock_name_def)

lemma validName_hd: "validName name \<Longrightarrow> name \<noteq> [] \<and> hd name \<noteq> CHR ''.''"
  by (auto simp: validName_def is_lower_def Let_def)

lemma names_distinct:
  assumes "same_resource parent name locks"
  shows "temp_shape t \<Longrightarrow> t \<noteq> name" "unlock_name lock \<noteq> name" "temp_shape t \<Longrightarrow> t \<noteq> unlock_name lock"
  using assms validName_hd unlock_name_shape
  by (auto simp: same_resource_def temp_shape_def) (metis list.sel(1) unlock_name_shape(2))

lemma held_in_unique: "held_in fs d m \<Longrightarrow> held_in fs d n \<Longrightarrow> m = n"
  by (auto simp: held_in_def)

lemma held_in_not_empty:
  assumes "held_in fs (parent @ [x]) n"
  shows "fs_lookup fs (parent @ [x]) \<noteq> None" "fs_lookup fs (parent @ [x]) \<noteq> Some (Dir m [])"
    "is_dir (fs_lookup fs (parent @ [x]))"
proof -
  from assms obtain k where "Option.bind (fs_lookup fs (parent @ [x])) (\<lambda>c. fs_lookup c [''held'']) = Some (File n k)"
    using fs_lookup_append[of fs "parent @ [x]" "[''held'']"] by (auto simp: held_in_def)
  then show "fs_lookup fs (parent @ [x]) \<noteq> None" "fs_lookup fs (parent @ [x]) \<noteq> Some (Dir m [])"
    "is_dir (fs_lookup fs (parent @ [x]))"
    by (cases "fs_lookup fs (parent @ [x])" rule: is_dir.cases; auto)+
qed

lemma IsLockHeld_held_in:
  "Lock_IsLockHeld lock fs \<longleftrightarrow> held_in fs (l_parent lock @ [l_name lock]) (l_nonce lock)"
  by (auto simp: Lock_IsLockHeld_def Lock_heldFile_def Lock_lockDir_def os_ReadFile_def held_in_def
      split: option.splits node.splits)

text \<open>A step that only moves a process between two states which hold the lock alike and own no
  temporary directory.\<close>

lemma linv_move:
  assumes "linv parent name locks s" "temp_of p' = None" "holds p' = holds (procs s i)" "checked_ok p'"
  shows "linv parent name locks (s\<lparr>tree := tree s, procs := (procs s)(i := p')\<rparr>)"
proof (rule linv_update[OF assms(1) touches_refl[of _ "{}"]])
  show "holds (((procs s)(i := p')) j) \<longleftrightarrow> held_in (tree s) (parent @ [name]) (l_nonce (locks j))" for j
    using assms by (auto simp: linv_def)
  show "held_in (tree s) (parent @ [t]) (l_nonce (locks i))" if "written p' = Some t" for t
    using written_temp[OF that] assms(2) by simp
qed (use assms in auto)

text \<open>A step that works in the temporary directory of its own process.\<close>

lemma linv_temp:
  assumes "linv parent name locks s" "temp_of (procs s i) = Some t"
  shows "temp_shape t" "is_dir (fs_lookup (tree s) (parent @ [t]))"
    "j \<noteq> i \<Longrightarrow> temp_of (procs s j) \<noteq> Some t"
  using assms by (auto simp: linv_def)

lemma linv_own_temp:
  assumes res: "same_resource parent name locks" and inv: "linv parent name locks s"
    and t: "temp_shape t" "\<And>j. j \<noteq> i \<Longrightarrow> temp_of (procs s j) \<noteq> Some t"
    and tch: "touches parent {t} (tree s) fs'"
    and hold: "\<not> holds (procs s i)" "\<not> holds p'" "checked_ok p'"
    and own: "temp_of p' = None \<or> temp_of p' = Some t \<and> is_dir (fs_lookup fs' (parent @ [t]))"
    and wr: "written p' = None \<or> held_in fs' (parent @ [t]) (l_nonce (locks i))"
  shows "linv parent name locks (s\<lparr>tree := fs', procs := (procs s)(i := p')\<rparr>)"
proof (rule linv_update[OF inv tch])
  have "t \<noteq> name" using names_distinct(1)[OF res t(1)] .
  then show "holds (((procs s)(i := p')) j) \<longleftrightarrow> held_in fs' (parent @ [name]) (l_nonce (locks j))" for j
    using inv hold held_in_touches[OF tch] by (auto simp: linv_def)
  show "held_in fs' (parent @ [u]) (l_nonce (locks i))" if "written p' = Some u" for u
    using wr written_temp[OF that] own that by auto
qed (use t own hold in auto)

lemma linv_rename:
  assumes res: "same_resource parent name locks" and inv: "linv parent name locks s"
    and pc: "procs s i = Acquiring (A_Rename t)"
    and mv: "os_Rename (parent @ [t]) (parent @ [name]) (tree s) = Inr fs'"
  shows "linv parent name locks (s\<lparr>tree := fs', procs := (procs s)(i := Acquiring (A_Done (Inr True)))\<rparr>)"
proof -
  have own: "temp_of (procs s i) = Some t" "written (procs s i) = Some t" using pc by simp_all
  have t: "temp_shape t" "is_dir (fs_lookup (tree s) (parent @ [t]))" "t \<noteq> name"
    using linv_temp[OF inv own(1)] names_distinct(1)[OF res] by auto
  note ren = os_Rename_entry[OF mv t(3,2)]
  have mine: "held_in fs' (parent @ [name]) (l_nonce (locks i))"
    using inv own(2) ren(2)[of "[''held'']"] by (auto simp: linv_def held_in_def)
  have none: "\<not> holds (procs s j)" for j
    using ren(4) inv held_in_not_empty[of "tree s" parent name] by (auto simp: linv_def)
  show ?thesis
  proof (rule linv_update[OF inv ren(1)])
    show "u \<notin> {t, name} \<and> temp_of (Acquiring (A_Done (Inr True))) \<noteq> Some u"
      if "j \<noteq> i" "temp_of (procs s j) = Some u" for j u
      using that linv_temp(3)[OF inv own(1) that(1)] linv_temp(1)[OF inv that(2)]
        names_distinct(1)[OF res, of u] by auto
    show "holds (((procs s)(i := Acquiring (A_Done (Inr True)))) j) \<longleftrightarrow>
        held_in fs' (parent @ [name]) (l_nonce (locks j))" for j
    proof (cases "j = i")
      case False
      then have "l_nonce (locks j) \<noteq> l_nonce (locks i)" using res by (auto simp: same_resource_def dest: injD)
      then show ?thesis using False none[of j] held_in_unique[OF mine, of "l_nonce (locks j)"] by auto
    qed (use mine in simp)
  qed auto
qed

lemma linv_write:
  assumes res: "same_resource parent name locks" and inv: "linv parent name locks s"
    and pc: "procs s i = Acquiring pc" and t: "pc = A_WriteHeld t \<or> pc = A_WriteMessage t"
    and stp: "acquire_step (locks i) message random fault pc (tree s) = (pc', fs')"
  shows "linv parent name locks (s\<lparr>tree := fs', procs := (procs s)(i := Acquiring pc')\<rparr>)"
proof -
  have par: "l_parent (locks i) = parent" using res by (simp add: same_resource_def)
  have own: "temp_of (procs s i) = Some t" using pc t by auto
  note tmp = linv_temp[OF inv own]
  show ?thesis
  proof (cases "\<exists>e. pc' = A_Done (Inl e)")
    case True
    with stp t have "fs' = tree s" by (auto simp: with_fault_def split: sum.splits option.splits if_splits)
    with True show ?thesis using linv_move[OF inv, of "Acquiring pc'" i] pc t by auto
  next
    case False
    let ?f = "if pc = A_WriteHeld t then ''held'' else ''message''"
    obtain content where w: "os_WriteFile (parent @ [t, ?f]) content 493 (tree s) = Inr fs'"
      "pc = A_WriteHeld t \<longrightarrow> content = l_nonce (locks i)"
      using False stp t par by (auto simp: with_fault_def split: sum.splits option.splits)
    note e = os_WriteFile_entry[OF w(1) tmp(2)]
    have "held_in fs' (parent @ [t]) (l_nonce (locks i))"
      using e(3) e(4)[of "''held''"] w(2) t inv pc by (auto simp: held_in_def linv_def split: if_splits)
    moreover have "pc' = A_WriteMessage t \<or> pc' = A_Rename t"
      using False stp t by (auto simp: with_fault_def split: sum.splits option.splits if_splits)
    ultimately show ?thesis
      using linv_own_temp[OF res inv tmp(1) tmp(3) e(1), where p' = "Acquiring pc'"] e(2) pc t by auto
  qed
qed

lemma linv_acquire:
  assumes res: "same_resource parent name locks" and inv: "linv parent name locks s"
    and pc: "procs s i = Acquiring pc" and rnd: "list_all is_digit random"
    and stp: "acquire_step (locks i) message random fault pc (tree s) = (pc', fs')"
  shows "linv parent name locks (s\<lparr>tree := fs', procs := (procs s)(i := Acquiring pc')\<rparr>)"
proof -
  have par: "l_parent (locks i) = parent" "Lock_lockDir (locks i) = parent @ [name]"
    using res by (simp_all add: same_resource_def Lock_lockDir_def)
  note [simp] = with_fault_def
  show ?thesis
  proof (cases pc)
    case A_Stat
    with stp have "fs' = tree s" "pc' = A_TempDir \<or> (\<exists>r. pc' = A_Done r \<and> r \<noteq> Inr True)"
      by (auto split: sum.splits if_splits)
    moreover have "\<not> holds (Acquiring (A_Done r))" if "r \<noteq> Inr True" for r
      using that by (cases r) auto
    ultimately show ?thesis using linv_move[OF inv, of "Acquiring pc'" i] pc A_Stat by auto
  next
    case A_TempDir
    show ?thesis
    proof (cases "pc' = A_WriteHeld (temp_name (locks i) random)")
      case True
      with A_TempDir stp par have mk: "os_Mkdir (parent @ [temp_name (locks i) random]) 448 (tree s) = Inr fs'"
        by (auto simp: Let_def split: sum.splits option.splits if_splits)
      note e = os_Mkdir_entry[OF mk]
      have "temp_of (procs s j) \<noteq> Some (temp_name (locks i) random)" for j
        using linv_temp(2)[OF inv, of j "temp_name (locks i) random"] e(2) by auto
      then show ?thesis
        using linv_own_temp[OF res inv temp_name_shape[OF rnd] _ e(1)] e(3) True pc A_TempDir by auto
    next
      case False
      with A_TempDir stp have "fs' = tree s" "pc' = A_TempDir \<or> (\<exists>r. pc' = A_Done (Inl r))"
        by (auto simp: Let_def split: sum.splits if_splits)
      then show ?thesis using linv_move[OF inv, of "Acquiring pc'" i] pc A_TempDir by auto
    qed
  next
    case (A_Rename t)
    show ?thesis
    proof (cases "pc' = A_Done (Inr True)")
      case True
      with A_Rename stp par have "os_Rename (parent @ [t]) (parent @ [name]) (tree s) = Inr fs'"
        by (auto split: sum.splits option.splits)
      from linv_rename[OF res inv _ this] True pc A_Rename show ?thesis by simp
    next
      case False
      with A_Rename stp have "fs' = tree s" "pc' = A_Cleanup t" by (auto split: sum.splits)
      moreover have "temp_of (procs s i) = Some t" using pc A_Rename by simp
      ultimately show ?thesis
        using linv_own_temp[OF res inv, of t i "tree s" "Acquiring pc'"] linv_temp[OF inv, of i t] pc A_Rename
        by auto
    qed
  next
    case (A_Cleanup t)
    then have own: "temp_of (procs s i) = Some t" using pc by simp
    have "touches parent {t} (tree s) fs'" "pc' = A_Done (Inr False)"
      using A_Cleanup stp par os_RemoveAll_entry(1) by (auto split: option.splits)
    then show ?thesis
      using linv_own_temp[OF res inv, of t i fs' "Acquiring pc'"] linv_temp[OF inv own] pc A_Cleanup by auto
  next
    case (A_Done r)
    with stp show ?thesis using linv_move[OF inv, of "Acquiring pc" i] pc by auto
  next
    case (A_WriteHeld t)
    then show ?thesis using linv_write[OF res inv pc _ stp] by auto
  next
    case (A_WriteMessage t)
    then show ?thesis using linv_write[OF res inv pc _ stp] by auto
  qed
qed

lemma linv_release:
  assumes res: "same_resource parent name locks" and inv: "linv parent name locks s"
    and pc: "procs s i = Unlocking b U_Rename"
    and mv: "os_Rename (parent @ [name]) (parent @ [unlock_name (locks i)]) (tree s) = Inr fs'"
  shows "linv parent name locks (s\<lparr>tree := fs', procs := (procs s)(i := Unlocking b U_RemoveAll)\<rparr>)"
proof -
  have "checked_ok (procs s i)" using inv by (auto simp: linv_def)
  then have "holds (procs s i)" using pc by simp
  then have mine: "held_in (tree s) (parent @ [name]) (l_nonce (locks i))" using inv by (auto simp: linv_def)
  have other: "\<not> holds (procs s j)" if "j \<noteq> i" for j
    using inv held_in_unique[OF mine, of "l_nonce (locks j)"] res that
    by (auto simp: linv_def same_resource_def dest: injD)
  note ren = os_Rename_entry[OF mv names_distinct(2)[OF res, THEN not_sym] held_in_not_empty(3)[OF mine]]
  have "\<not> held_in fs' (parent @ [name]) n" for n
    using ren(3)[of "[''held'']"] by (simp add: held_in_def)
  then show ?thesis
    using other linv_temp(1)[OF inv] names_distinct[OF res]
    by (intro linv_update[OF inv ren(1)]) auto
qed

lemma linv_unlock:
  assumes res: "same_resource parent name locks" and inv: "linv parent name locks s"
    and pc: "procs s i = Unlocking b pc"
    and stp: "unlock_step (locks i) fault pc (tree s) = (pc', fs')"
  shows "linv parent name locks (s\<lparr>tree := fs', procs := (procs s)(i := Unlocking b pc')\<rparr>)"
proof -
  have par: "l_parent (locks i) = parent" "Lock_lockDir (locks i) = parent @ [name]" "l_name (locks i) = name"
    using res by (simp_all add: same_resource_def Lock_lockDir_def)
  have move: ?thesis if "fs' = tree s" "holds (Unlocking b pc') = holds (procs s i)" "checked_ok (Unlocking b pc')"
    using linv_move[OF inv, of "Unlocking b pc'" i] that by simp
  show ?thesis
  proof (cases pc)
    case U_Check
    show ?thesis
    proof (cases "Lock_IsLockHeld (locks i) (tree s)")
      case True
      with inv par have "holds (procs s i)" by (simp add: IsLockHeld_held_in linv_def)
      with pc U_Check have b by simp
      show ?thesis by (rule move) (use stp pc U_Check \<open>b\<close> in \<open>auto split: if_splits\<close>)
    next
      case False
      show ?thesis by (rule move) (use stp pc U_Check False in \<open>auto split: if_splits\<close>)
    qed
  next
    case U_Rename
    show ?thesis
    proof (cases "pc' = U_RemoveAll")
      case True
      with U_Rename stp par have "os_Rename (parent @ [name]) (parent @ [unlock_name (locks i)]) (tree s) = Inr fs'"
        by (auto simp: with_fault_def split: sum.splits option.splits)
      from linv_release[OF res inv _ this] True pc U_Rename show ?thesis by simp
    next
      case False
      then show ?thesis using U_Rename stp pc by (intro move) (auto simp: with_fault_def split: sum.splits)
    qed
  next
    case U_RemoveAll
    have tch: "touches parent {unlock_name (locks i)} (tree s) fs'" and pc': "\<exists>r. pc' = U_Done True r"
      using U_RemoveAll stp par os_RemoveAll_entry(1) by (auto split: option.splits)
    have "held_in fs' (parent @ [name]) n \<longleftrightarrow> held_in (tree s) (parent @ [name]) n" for n
      using held_in_touches[OF tch] names_distinct(2)[OF res, of "locks i"] by auto
    moreover have "\<not> holds (procs s i)" using pc U_RemoveAll by simp
    ultimately show ?thesis
      using pc' inv linv_temp(1)[OF inv] names_distinct(3)[OF res]
      by (intro linv_update[OF inv tch]) (auto simp: linv_def)
  next
    case (U_Done moved r)
    then show ?thesis using stp pc by (intro move) auto
  qed
qed

lemma linv_pc:
  assumes "linv parent name locks s" "temp_of p' = None" "holds p' = holds (procs s i)" "checked_ok p'"
  shows "linv parent name locks (s\<lparr>procs := (procs s)(i := p')\<rparr>)"
  using linv_move[OF assms] by simp

lemma linv_lstep:
  assumes "same_resource parent name locks" "lstep locks s t" "linv parent name locks s"
  shows "linv parent name locks t"
  using assms(2,3)
proof cases
  case (acquire i pc random message fault pc' fs')
  then show ?thesis using linv_acquire[OF assms(1,3)] by simp
next
  case (unlock i b pc fault pc' fs')
  then show ?thesis using linv_unlock[OF assms(1,3)] by simp
next
  case (give_up i r)
  then have "\<not> holds (procs s i)" by (cases r) auto
  with give_up assms(3) show ?thesis by (auto intro: linv_pc)
qed (use assms(3) in \<open>auto intro!: linv_pc\<close>)

definition lock_free :: "(nat \<Rightarrow> Lock) \<Rightarrow> node \<Rightarrow> bool" where
  "lock_free locks fs \<longleftrightarrow> (\<forall>i. \<not> Lock_IsLockHeld (locks i) fs)"

lemma lreach_linv:
  assumes "same_resource parent name locks" "is_dir (fs_lookup fs parent)" "lock_free locks fs"
    and "lreach locks fs s"
  shows "linv parent name locks s"
  using assms(4)
proof induction
  case init
  then show ?case using assms(1-3)
    by (auto simp: linv_def lock_free_def IsLockHeld_held_in same_resource_def)
next
  case (step s t)
  then show ?case using linv_lstep[OF assms(1)] by blast
qed

subsection \<open>Mutual exclusion\<close>

text \<open>(C1) Any number of processes with nonces of their own lock, retry, give up and unlock the same
  lock, interleaved system call by system call and with any of these failing. At every moment at most
  one of them holds the lock, and \<^verbatim>\<open>IsLockHeld\<close> answers true exactly to the process that
  does.\<close>

theorem Lock_mutual_exclusion:
  assumes "same_resource parent name locks" "is_dir (fs_lookup fs parent)" "lock_free locks fs"
    and "lreach locks fs s"
  shows "(holds (procs s i) \<and> holds (procs s j) \<longrightarrow> i = j)
    \<and> (Lock_IsLockHeld (locks i) (tree s) \<longleftrightarrow> holds (procs s i))"
proof -
  have inv: "linv parent name locks s" using lreach_linv[OF assms] .
  then have "i = j" if "holds (procs s i)" "holds (procs s j)"
    using that held_in_unique[of "tree s" "parent @ [name]" "l_nonce (locks i)" "l_nonce (locks j)"] assms(1)
    by (auto simp: linv_def same_resource_def dest: injD)
  moreover have "Lock_IsLockHeld (locks i) (tree s) \<longleftrightarrow> holds (procs s i)"
    using inv assms(1) by (simp add: linv_def IsLockHeld_held_in same_resource_def)
  ultimately show ?thesis by blast
qed

subsection \<open>Calls without interference\<close>

definition may_acquire :: "Lock \<Rightarrow> string \<Rightarrow> node \<Rightarrow> bool" where
  "may_acquire lock random fs \<longleftrightarrow>
     validName (l_name lock) \<and> list_all is_digit random
     \<and> is_dir (fs_lookup fs (l_parent lock)) \<and> fs_lookup fs (Lock_lockDir lock) = None
     \<and> fs_lookup fs (l_parent lock @ [temp_name lock random]) = None"

lemma may_acquire_names:
  "may_acquire lock random fs \<Longrightarrow> temp_name lock random \<noteq> l_name lock \<and> unlock_name lock \<noteq> l_name lock"
  using validName_hd[of "l_name lock"] unlock_name_shape(2)[of lock]
  by (auto simp: may_acquire_def temp_name_def dest: arg_cong[of _ _ hd])

text \<open>The tree while the private directory is being filled.\<close>

definition staged :: "Lock \<Rightarrow> string \<Rightarrow> string option \<Rightarrow> node \<Rightarrow> node \<Rightarrow> bool" where
  "staged lock random message fs fs' \<longleftrightarrow>
     touches (l_parent lock) {temp_name lock random} fs fs'
     \<and> is_dir (fs_lookup fs' (l_parent lock @ [temp_name lock random]))
     \<and> held_in fs' (l_parent lock @ [temp_name lock random]) (l_nonce lock)
     \<and> (case message of
          None \<Rightarrow> fs_lookup fs' (l_parent lock @ [temp_name lock random, ''message'']) = None
        | Some msg \<Rightarrow> \<exists>m. fs_lookup fs' (l_parent lock @ [temp_name lock random, ''message'']) = Some (File msg m))"

lemma os_WriteFile_fresh:
  "is_dir (fs_lookup fs (d @ [t])) \<Longrightarrow> fs_lookup fs (d @ [t, f]) = None \<Longrightarrow>
   \<exists>fs'. os_WriteFile (d @ [t, f]) content mode fs = Inr fs'"
  by (simp add: os_WriteFile_def butlast_append)

lemma staged_made:
  assumes "may_acquire lock random fs"
  shows "\<exists>fs1 fs2. os_Mkdir (l_parent lock @ [temp_name lock random]) 448 fs = Inr fs1
    \<and> os_WriteFile (l_parent lock @ [temp_name lock random, ''held'']) (l_nonce lock) 493 fs1 = Inr fs2
    \<and> staged lock random None fs fs2"
proof -
  let ?d = "l_parent lock" and ?t = "temp_name lock random"
  from assms have mk: "os_Mkdir (?d @ [?t]) 448 fs = Inr (fs_put (?d @ [?t]) (Dir 448 []) fs)" (is "_ = Inr ?fs1")
    by (simp add: may_acquire_def os_Mkdir_def)
  note e1 = os_Mkdir_entry[OF mk]
  have sub: "fs_lookup ?fs1 (?d @ [?t, f]) = None" for f
    using fs_lookup_put_below[of "?d @ [?t]" fs "Dir 448 []" "[f]"] assms by (simp add: may_acquire_def)
  obtain fs2 where w: "os_WriteFile (?d @ [?t, ''held'']) (l_nonce lock) 493 ?fs1 = Inr fs2"
    using os_WriteFile_fresh[OF e1(3) sub] by blast
  note e2 = os_WriteFile_entry[OF w e1(3)]
  have "staged lock random None fs fs2"
    using touches_trans[OF e1(1) e2(1)] e2(2,3) e2(4)[of "''message''"] sub by (simp add: staged_def held_in_def)
  with mk w show ?thesis by blast
qed

lemma staged_message:
  assumes "staged lock random None fs fs1"
  shows "\<exists>fs2. os_WriteFile (l_parent lock @ [temp_name lock random, ''message'']) msg 493 fs1 = Inr fs2
    \<and> staged lock random (Some msg) fs fs2"
proof -
  from assms have d: "is_dir (fs_lookup fs1 (l_parent lock @ [temp_name lock random]))"
    "fs_lookup fs1 (l_parent lock @ [temp_name lock random, ''message'']) = None"
    and tch: "touches (l_parent lock) {temp_name lock random} fs fs1"
    by (simp_all add: staged_def)
  obtain fs2 where w: "os_WriteFile (l_parent lock @ [temp_name lock random, ''message'']) msg 493 fs1 = Inr fs2"
    using os_WriteFile_fresh[OF d] by blast
  note e = os_WriteFile_entry[OF w d(1)]
  have "staged lock random (Some msg) fs fs2"
    using touches_trans[OF tch e(1)] e(2,3) e(4)[of "''held''"] assms by (simp add: staged_def held_in_def)
  with w show ?thesis by blast
qed

lemma staged_renamed:
  assumes ok: "may_acquire lock random fs" and st: "staged lock random message fs fs1"
  shows "\<exists>fs2. os_Rename (l_parent lock @ [temp_name lock random]) (Lock_lockDir lock) fs1 = Inr fs2
    \<and> Lock_IsLockHeld lock fs2 \<and> Lock_Message lock fs2 = (case message of None \<Rightarrow> [] | Some m \<Rightarrow> m)
    \<and> touches (l_parent lock) {temp_name lock random, l_name lock} fs fs2
    \<and> fs_lookup fs2 (l_parent lock @ [temp_name lock random]) = None"
proof -
  let ?d = "l_parent lock" and ?t = "temp_name lock random"
  have ne: "?t \<noteq> l_name lock" using may_acquire_names[OF ok] by simp
  have tch: "touches ?d {?t} fs fs1" and dir: "is_dir (fs_lookup fs1 (?d @ [?t]))" using st by (simp_all add: staged_def)
  have free: "fs_lookup fs1 (?d @ [l_name lock]) = None" "is_dir (fs_lookup fs1 ?d)"
    using ok tch ne by (auto simp: touches_def may_acquire_def Lock_lockDir_def)
  obtain n where n: "fs_lookup fs1 (?d @ [?t]) = Some n" "is_dir (Some n)"
    using dir by (cases "fs_lookup fs1 (?d @ [?t])") auto
  then obtain fs2 where mv: "os_Rename (?d @ [?t]) (?d @ [l_name lock]) fs1 = Inr fs2"
    using free ne by (auto simp: os_Rename_def)
  note e = os_Rename_entry[OF mv ne dir]
  have "Lock_IsLockHeld lock fs2"
    using st e(2)[of "[''held'']"] by (auto simp: IsLockHeld_held_in held_in_def staged_def)
  moreover have "Lock_Message lock fs2 = (case message of None \<Rightarrow> [] | Some m \<Rightarrow> m)"
    using st e(2)[of "[''message'']"]
    by (auto simp: Lock_Message_def Lock_messageFile_def Lock_lockDir_def os_ReadFile_def staged_def
        split: option.splits)
  moreover have "touches ?d {?t, l_name lock} fs fs2"
    using touches_mono[OF touches_trans[OF tch e(1)]] by simp
  ultimately show ?thesis using mv e(3)[of "[]"] by (simp add: Lock_lockDir_def)
qed

lemma funpow_calls:
  "(f ^^ 6) x = f (f (f (f (f (f x)))))" "(f ^^ 3) x = f (f (f x))"
  by (simp_all add: eval_nat_numeral)

lemma Lock_acquire_free:
  assumes "may_acquire lock random fs"
  shows "\<exists>fs'. Lock_acquire lock message random fs = (A_Done (Inr True), fs')
    \<and> Lock_IsLockHeld lock fs' \<and> Lock_Message lock fs' = message
    \<and> touches (l_parent lock) {temp_name lock random, l_name lock} fs fs'
    \<and> fs_lookup fs' (l_parent lock @ [temp_name lock random]) = None"
proof -
  have stat: "os_Lstat (Lock_lockDir lock) fs = Inl ENOENT"
    using assms fs_errno_below_dir by (auto simp: os_Lstat_def may_acquire_def Lock_lockDir_def)
  obtain fs1 fs2 where m: "os_Mkdir (l_parent lock @ [temp_name lock random]) 448 fs = Inr fs1"
    "os_WriteFile (l_parent lock @ [temp_name lock random, ''held'']) (l_nonce lock) 493 fs1 = Inr fs2"
    "staged lock random None fs fs2"
    using staged_made[OF assms] by blast
  note unroll = Lock_acquire_def funpow_calls with_fault_def Let_def stat m(1,2)
  show ?thesis
  proof (cases "message = []")
    case True
    then show ?thesis using staged_renamed[OF assms m(3)] by (auto simp: unroll)
  next
    case False
    obtain fs3 where w: "os_WriteFile (l_parent lock @ [temp_name lock random, ''message'']) message 493 fs2 = Inr fs3"
      "staged lock random (Some message) fs fs3"
      using staged_message[OF m(3)] by blast
    then show ?thesis using False staged_renamed[OF assms w(2)] by (auto simp: unroll)
  qed
qed

lemma Lock_Unlock_held:
  assumes held: "Lock_IsLockHeld lock fs" and par: "is_dir (fs_lookup fs (l_parent lock))"
    and name: "validName (l_name lock)" and free: "fs_lookup fs (l_parent lock @ [unlock_name lock]) = None"
  shows "\<exists>fs'. Lock_Unlock lock fs = (U_Done True None, fs')
    \<and> touches (l_parent lock) {l_name lock, unlock_name lock} fs fs'
    \<and> fs_lookup fs' (l_parent lock @ l_name lock # q) = None
    \<and> fs_lookup fs' (l_parent lock @ unlock_name lock # q) = None"
proof -
  let ?d = "l_parent lock"
  have ne: "l_name lock \<noteq> unlock_name lock"
    using validName_hd[OF name] unlock_name_shape(2)[of lock] by metis
  have dir: "is_dir (fs_lookup fs (?d @ [l_name lock]))"
    using held held_in_not_empty(3) by (simp add: IsLockHeld_held_in)
  then obtain n where "fs_lookup fs (?d @ [l_name lock]) = Some n" "is_dir (Some n)"
    by (cases "fs_lookup fs (?d @ [l_name lock])") auto
  then obtain fs1 where mv: "os_Rename (?d @ [l_name lock]) (?d @ [unlock_name lock]) fs = Inr fs1"
    using free par ne by (auto simp: os_Rename_def)
  note e = os_Rename_entry[OF mv ne dir]
  note r = os_RemoveAll_entry[of ?d "unlock_name lock" fs1]
  have "touches ?d {l_name lock, unlock_name lock} fs (os_RemoveAll (?d @ [unlock_name lock]) fs1)"
    using touches_mono[OF touches_trans[OF e(1) r(1)]] by simp
  moreover have "fs_lookup (os_RemoveAll (?d @ [unlock_name lock]) fs1) (?d @ l_name lock # q) = None"
    using r(1) e(3) ne by (simp add: touches_def)
  ultimately show ?thesis
    using held mv r(2)
    by (simp add: Lock_Unlock_def funpow_calls with_fault_def Lock_lockDir_def)
qed

text \<open>(C36) A call of \<^verbatim>\<open>acquire\<close> on a free lock takes it: it returns true, the lock is
  held by the caller, \<^verbatim>\<open>Message\<close> is the message of the call, and of the entries of the parent
  directory only the lock directory is changed. A lock whose directory exists is not taken: the call
  returns false and changes nothing.\<close>

theorem acquire_sequential:
  assumes "may_acquire lock random fs"
  shows "\<exists>fs'. Lock_acquire lock message random fs = (A_Done (Inr True), fs')
    \<and> Lock_IsLockHeld lock fs' \<and> Lock_IsLocked lock fs' \<and> Lock_Message lock fs' = message
    \<and> (\<forall>x q. x \<noteq> l_name lock \<longrightarrow> x \<noteq> temp_name lock random \<longrightarrow>
          fs_lookup fs' (l_parent lock @ x # q) = fs_lookup fs (l_parent lock @ x # q))
    \<and> fs_lookup fs' (l_parent lock @ [temp_name lock random]) = None
    \<and> (\<forall>other. Lock_lockDir other = Lock_lockDir lock \<longrightarrow>
          Lock_acquire other message' random' fs' = (A_Done (Inr False), fs'))"
proof -
  from Lock_acquire_free[OF assms, of message] obtain fs' where a:
    "Lock_acquire lock message random fs = (A_Done (Inr True), fs')" "Lock_IsLockHeld lock fs'"
    "Lock_Message lock fs' = message" "touches (l_parent lock) {temp_name lock random, l_name lock} fs fs'"
    "fs_lookup fs' (l_parent lock @ [temp_name lock random]) = None" by blast
  from a(2) have held: "held_in fs' (Lock_lockDir lock) (l_nonce lock)"
    by (simp add: IsLockHeld_held_in Lock_lockDir_def)
  then have "Lock_IsLocked lock fs'"
    by (auto simp: Lock_IsLocked_def os_Lstat_def held_in_def Lock_heldFile_def)
  moreover have "Lock_acquire other message' random' fs' = (A_Done (Inr False), fs')"
    if "Lock_lockDir other = Lock_lockDir lock" for other
  proof -
    have "fs_lookup fs' (Lock_lockDir lock) \<noteq> None" using held_in_not_empty(1) held unfolding Lock_lockDir_def .
    then show ?thesis using that by (auto simp: Lock_acquire_def funpow_calls with_fault_def os_Lstat_def)
  qed
  ultimately show ?thesis using a unfolding touches_def by auto
qed

text \<open>(C37) \<^verbatim>\<open>Unlock\<close> undoes a lock: after it the lock is free for the same process to take
  again and the tree has no trace of it, neither the lock directory nor the directory it was moved to;
  a process that does not hold the lock gets \<^verbatim>\<open>ErrLockNotHeld\<close> and nothing changes.\<close>

theorem Unlock_sequential:
  assumes ok: "may_acquire lock random fs" and free: "fs_lookup fs (l_parent lock @ [unlock_name lock]) = None"
    and acq: "Lock_acquire lock message random fs = (r, fs1)"
    and other: "Lock_lockDir other = Lock_lockDir lock" "l_nonce other \<noteq> l_nonce lock"
  shows "Lock_Unlock other fs1 = (U_Done False (Some ErrLockNotHeld), fs1)
    \<and> (\<exists>fs2. Lock_Unlock lock fs1 = (U_Done True None, fs2)
      \<and> \<not> Lock_IsLocked lock fs2 \<and> Lock_Message lock fs2 = [] \<and> may_acquire lock random fs2
      \<and> (\<forall>x q. fs_lookup fs2 (l_parent lock @ x # q) =
            (if x \<in> {l_name lock, unlock_name lock, temp_name lock random} then None
             else fs_lookup fs (l_parent lock @ x # q))))"
proof -
  let ?d = "l_parent lock"
  from Lock_acquire_free[OF ok, of message] acq have a: "Lock_IsLockHeld lock fs1"
    "touches ?d {temp_name lock random, l_name lock} fs fs1" "fs_lookup fs1 (?d @ [temp_name lock random]) = None"
    by auto
  have names: "temp_name lock random \<noteq> l_name lock" "unlock_name lock \<noteq> l_name lock"
    using may_acquire_names[OF ok] by simp_all
  have shape: "temp_name lock random \<noteq> unlock_name lock"
    using temp_name_shape[of random lock] unlock_name_shape(1)[of lock] ok by (auto simp: may_acquire_def)
  have "held_in fs1 (Lock_lockDir lock) (l_nonce lock)" using a(1) by (simp add: IsLockHeld_held_in Lock_lockDir_def)
  then have "\<not> Lock_IsLockHeld other fs1"
    using held_in_unique[of fs1 "Lock_lockDir lock"] other by (auto simp: IsLockHeld_held_in Lock_lockDir_def)
  then have no: "Lock_Unlock other fs1 = (U_Done False (Some ErrLockNotHeld), fs1)"
    by (simp add: Lock_Unlock_def funpow_calls)
  have pre: "is_dir (fs_lookup fs1 ?d)" "fs_lookup fs1 (?d @ [unlock_name lock]) = None" "validName (l_name lock)"
    using a(2) ok free names shape by (auto simp: touches_def may_acquire_def)
  from Lock_Unlock_held[OF a(1) pre(1,3,2)] obtain fs2 where u: "Lock_Unlock lock fs1 = (U_Done True None, fs2)"
    "touches ?d {l_name lock, unlock_name lock} fs1 fs2"
    and gone: "\<And>q. fs_lookup fs2 (?d @ l_name lock # q) = None" "\<And>q. fs_lookup fs2 (?d @ unlock_name lock # q) = None"
    by (metis prod.inject)
  have "fs_lookup fs1 (?d @ temp_name lock random # q) = None" for q
    using a(3) fs_lookup_append[of fs1 "?d @ [temp_name lock random]" q] by simp
  then have look: "fs_lookup fs2 (?d @ x # q) =
      (if x \<in> {l_name lock, unlock_name lock, temp_name lock random} then None else fs_lookup fs (?d @ x # q))" for x q
    using a(2) u(2) gone by (auto simp: touches_def) metis+
  moreover have "may_acquire lock random fs2"
    using ok pre u(2) look[of _ "[]"] by (auto simp: may_acquire_def touches_def Lock_lockDir_def)
  moreover have "\<not> Lock_IsLocked lock fs2" "Lock_Message lock fs2 = []"
    using gone(1) by (simp_all add: Lock_IsLocked_def Lock_Message_def os_Lstat_def os_ReadFile_def
        Lock_heldFile_def Lock_messageFile_def Lock_lockDir_def)
  ultimately show ?thesis using no u(1) by blast
qed

subsection \<open>The lock loop\<close>

lemmas lockLoop_simp = lockLoop.simps

lemma lockLoop_skip:
  "(\<And>m. m < n \<Longrightarrow> acquire m = Inr False \<and> continueFunc m = None) \<Longrightarrow>
   lockLoop acquire continueFunc 0 = lockLoop acquire continueFunc n"
proof (induction n)
  case (Suc n)
  then have "lockLoop acquire continueFunc 0 = lockLoop acquire continueFunc n" by simp
  also have "\<dots> = lockLoop acquire continueFunc (Suc n)"
    using Suc.prems[of n] by (subst lockLoop_simp) simp
  finally show ?case .
qed simp

lemma lockLoop_diverges:
  assumes "\<And>n. acquire n = Inr False \<and> continueFunc n = None"
  shows "lockLoop acquire continueFunc n = None"
proof -
  have "a = acquire \<longrightarrow> c = continueFunc \<longrightarrow> False" if "lockLoop a c n = Some y" for a c n y
    using _ that
  proof (rule lockLoop.raw_induct[where P = "\<lambda>a c n y. a = acquire \<longrightarrow> c = continueFunc \<longrightarrow> False"])
    fix rec a c k z
    assume hyp: "\<And>a c k z. rec a c k = Some z \<Longrightarrow> a = acquire \<longrightarrow> c = continueFunc \<longrightarrow> False"
      and body: "(case a k of Inl err \<Rightarrow> Some (Some (OsError err))
        | Inr acquired \<Rightarrow> if acquired then Some None
            else case c k of None \<Rightarrow> rec a c (Suc k) | Some err \<Rightarrow> Some (Some err)) = Some z"
    show "a = acquire \<longrightarrow> c = continueFunc \<longrightarrow> False" using hyp[of acquire continueFunc "Suc k" z] body assms[of k] by auto
  qed
  then show ?thesis by (cases "lockLoop acquire continueFunc n") auto
qed

text \<open>The round in which the loop ends, if there is one.\<close>

lemma lockLoop_first:
  assumes "acquire N \<noteq> Inr False \<or> continueFunc N \<noteq> None"
  obtains n where "n \<le> N" "acquire n \<noteq> Inr False \<or> continueFunc n \<noteq> None"
    "\<forall>m<n. acquire m = Inr False \<and> continueFunc m = None"
    "lockLoop acquire continueFunc 0 =
       Some (case acquire n of Inl e \<Rightarrow> Some (OsError e) | Inr b \<Rightarrow> if b then None else continueFunc n)"
proof -
  define P where "P n \<longleftrightarrow> acquire n \<noteq> Inr False \<or> continueFunc n \<noteq> None" for n
  have "P N" using assms by (simp add: P_def)
  then obtain n where n: "P n" "n \<le> N" "\<forall>m<n. \<not> P m"
    by (metis LeastI Least_le not_less_Least)
  have "lockLoop acquire continueFunc 0 = lockLoop acquire continueFunc n"
    using n(3) by (intro lockLoop_skip) (auto simp: P_def)
  also have "\<dots> = Some (case acquire n of Inl e \<Rightarrow> Some (OsError e) | Inr b \<Rightarrow> if b then None else continueFunc n)"
    using n(1) by (subst lockLoop_simp) (auto simp: P_def split: sum.splits option.splits)
  finally show thesis using that n by (simp add: P_def)
qed

text \<open>(C38) \<^verbatim>\<open>LockWithTimeout\<close> returns once the clock passes the deadline, in the round
  in which that is seen at the latest. It returns success exactly when a call of
  \<^verbatim>\<open>acquire\<close> took the lock, the error of \<^verbatim>\<open>acquire\<close> when it had one, and
  \<^verbatim>\<open>ErrTimeout\<close> only when the last attempt failed and the deadline had passed.\<close>

theorem LockWithTimeout_returns:
  assumes "clock N > now + duration"
  shows "\<exists>n\<le>N. (\<forall>m<n. acquire m = Inr False \<and> clock m \<le> now + duration)
    \<and> (case acquire n of
         Inl err \<Rightarrow> Lock_LockWithTimeout acquire now clock duration = Some (Some (OsError err))
       | Inr True \<Rightarrow> Lock_LockWithTimeout acquire now clock duration = Some None
       | Inr False \<Rightarrow> Lock_LockWithTimeout acquire now clock duration = Some (Some ErrTimeout)
           \<and> clock n > now + duration)"
proof -
  define c where "c = (\<lambda>n. if clock n > now + duration then Some ErrTimeout else None)"
  have "acquire N \<noteq> Inr False \<or> c N \<noteq> None" using assms by (simp add: c_def)
  then obtain n where n: "n \<le> N" "acquire n \<noteq> Inr False \<or> c n \<noteq> None"
    "\<forall>m<n. acquire m = Inr False \<and> c m = None"
    "lockLoop acquire c 0 =
       Some (case acquire n of Inl e \<Rightarrow> Some (OsError e) | Inr b \<Rightarrow> if b then None else c n)"
    by (rule lockLoop_first)
  have "Lock_LockWithTimeout acquire now clock duration = lockLoop acquire c 0"
    by (simp add: Lock_LockWithTimeout_def c_def)
  moreover have "clock m \<le> now + duration" if "m < n" for m
    using n(3) that by (auto simp: c_def split: if_splits)
  ultimately show ?thesis
    using n by (intro exI[of _ n]) (auto simp: c_def split: sum.splits bool.splits if_splits)
qed

text \<open>\<^verbatim>\<open>Lock\<close> waits for ever exactly when every attempt finds the lock taken;
  otherwise it returns the outcome of the first attempt that did not.\<close>

theorem Lock_blocks_iff:
  "(Lock_Lock acquire = None \<longleftrightarrow> (\<forall>n. acquire n = Inr False))
   \<and> (Lock_Lock acquire = Some None \<longleftrightarrow> (\<exists>n. acquire n = Inr True \<and> (\<forall>m<n. acquire m = Inr False)))"
proof (cases "\<exists>N. acquire N \<noteq> Inr False")
  case True
  then obtain N where N: "acquire N \<noteq> Inr False" by auto
  obtain n where n: "acquire n \<noteq> Inr False" "\<forall>m<n. acquire m = Inr False"
    "Lock_Lock acquire = Some (case acquire n of Inl e \<Rightarrow> Some (OsError e) | Inr b \<Rightarrow> None)"
  proof (rule lockLoop_first[of acquire N "\<lambda>_. None"])
    fix n
    assume *: "acquire n \<noteq> Inr False \<or> (None :: lock_error option) \<noteq> None"
      "\<forall>m<n. acquire m = Inr False \<and> (None :: lock_error option) = None"
      "lockLoop acquire (\<lambda>_. None) 0 =
         Some (case acquire n of Inl e \<Rightarrow> Some (OsError e) | Inr b \<Rightarrow> if b then None else None)"
    show thesis by (rule that[of n]) (use * in \<open>auto simp: Lock_Lock_def split: sum.splits\<close>)
  qed (use N in simp)
  have first: "k = n" if "acquire k = Inr True" "\<forall>m<k. acquire m = Inr False" for k
    using that n(1,2) by (cases k n rule: linorder_cases) auto
  then have "(\<exists>k. acquire k = Inr True \<and> (\<forall>m<k. acquire m = Inr False)) \<longleftrightarrow> acquire n = Inr True"
    using n(2) by blast
  then show ?thesis using n(1,3) N by (cases "acquire n") auto
next
  case False
  then show ?thesis using lockLoop_diverges[of acquire "\<lambda>_. None" 0] by (auto simp: Lock_Lock_def)
qed

subsection \<open>Witnesses\<close>

text \<open>A call of \<^verbatim>\<open>acquire\<close> without interference is a run of the system.\<close>

lemma lreach_acquire_steps:
  assumes "lreach locks fs s" "procs s i = Acquiring pc" "list_all is_digit random"
    and "((\<lambda>(pc, fs). acquire_step (locks i) message random None pc fs) ^^ n) (pc, tree s) = (pc', fs')"
  shows "lreach locks fs (s\<lparr>tree := fs', procs := (procs s)(i := Acquiring pc')\<rparr>)"
  using assms(4)
proof (induction n arbitrary: pc' fs')
  case 0
  then have "s\<lparr>tree := fs', procs := (procs s)(i := Acquiring pc')\<rparr> = s" using assms(2) by (cases s) auto
  then show ?case using assms(1) by (simp only:)
next
  case (Suc n)
  obtain pc1 fs1 where m: "((\<lambda>(pc, fs). acquire_step (locks i) message random None pc fs) ^^ n) (pc, tree s) = (pc1, fs1)"
    by fastforce
  let ?s = "s\<lparr>tree := fs1, procs := (procs s)(i := Acquiring pc1)\<rparr>"
  have "acquire_step (locks i) message random None pc1 (tree ?s) = (pc', fs')" using Suc.prems m by simp
  then have "lstep locks ?s (?s\<lparr>tree := fs', procs := (procs ?s)(i := Acquiring pc')\<rparr>)"
    using assms(3) by (intro lstep.acquire[where pc = pc1]) simp_all
  moreover have "?s\<lparr>tree := fs', procs := (procs ?s)(i := Acquiring pc')\<rparr>
      = s\<lparr>tree := fs', procs := (procs s)(i := Acquiring pc')\<rparr>" by simp
  ultimately show ?case using lreach.step[OF Suc.IH[OF m]] by metis
qed

definition demo_lock :: "nat \<Rightarrow> Lock" where
  "demo_lock i = \<lparr>l_name = ''lock'', l_parent = [''d''], l_nonce = replicate i CHR ''x''\<rparr>"

definition demo_tree :: node where
  "demo_tree = Dir 493 [(''d'', Dir 493 [])]"

lemma demo_lock_resource: "same_resource [''d''] ''lock'' demo_lock"
proof -
  have "inj (\<lambda>i. replicate i CHR ''x'')" by (rule injI) (metis length_replicate)
  then show ?thesis by (simp add: same_resource_def demo_lock_def validName_def is_lower_def)
qed

lemma demo_lock_free: "is_dir (fs_lookup demo_tree [''d''])" "lock_free demo_lock demo_tree"
  by (simp_all add: lock_free_def demo_tree_def demo_lock_def Lock_IsLockHeld_def os_ReadFile_def
      Lock_heldFile_def Lock_lockDir_def)

lemma demo_may_acquire: "may_acquire (demo_lock i) ''7'' demo_tree"
  by (simp add: may_acquire_def demo_tree_def demo_lock_def validName_def is_lower_def is_digit_def
      Lock_lockDir_def)

text \<open>Process 0 takes the lock, process 1 does not have it.\<close>

theorem Lock_mutual_exclusion_witness:
  "\<exists>s. lreach demo_lock demo_tree s \<and> holds (procs s 0) \<and> \<not> holds (procs s 1)
     \<and> Lock_IsLockHeld (demo_lock 0) (tree s)"
proof -
  let ?s0 = "\<lparr>tree = demo_tree, procs = (\<lambda>_. NotHolding)\<rparr>"
  let ?s1 = "?s0\<lparr>procs := (procs ?s0)(0 := Acquiring A_Stat)\<rparr>"
  have r1: "lreach demo_lock demo_tree ?s1"
    by (rule lreach.step[OF lreach.init], rule lstep.call_acquire) simp
  obtain fs' where "Lock_acquire (demo_lock 0) ''m'' ''7'' demo_tree = (A_Done (Inr True), fs')"
    using Lock_acquire_free[OF demo_may_acquire] by blast
  then have r2: "lreach demo_lock demo_tree (?s1\<lparr>tree := fs', procs := (procs ?s1)(0 := Acquiring (A_Done (Inr True)))\<rparr>)"
    (is "lreach _ _ ?s2")
    by (intro lreach_acquire_steps[OF r1, where n = 6 and pc = A_Stat]) (simp_all add: Lock_acquire_def is_digit_def)
  show ?thesis
    using Lock_mutual_exclusion[OF demo_lock_resource demo_lock_free r2, of 0 1] r2
    by (intro exI[of _ ?s2]) simp
qed

theorem acquire_sequential_witness:
  "may_acquire (demo_lock 0) ''7'' demo_tree
   \<and> fst (Lock_acquire (demo_lock 0) ''m'' ''7'' demo_tree) = A_Done (Inr True)"
  using acquire_sequential[OF demo_may_acquire, of 0 "''m''" "''m''" "''7''"] demo_may_acquire[of 0] by auto

theorem Unlock_sequential_witness:
  "(case Lock_acquire (demo_lock 0) ''m'' ''7'' demo_tree of (r, fs1) \<Rightarrow>
      fst (Lock_Unlock (demo_lock 1) fs1) = U_Done False (Some ErrLockNotHeld)
      \<and> fst (Lock_Unlock (demo_lock 0) fs1) = U_Done True None)"
proof -
  obtain r fs1 where a: "Lock_acquire (demo_lock 0) ''m'' ''7'' demo_tree = (r, fs1)" by fastforce
  have "fs_lookup demo_tree (l_parent (demo_lock 0) @ [unlock_name (demo_lock 0)]) = None"
    by (simp add: demo_tree_def demo_lock_def)
  from Unlock_sequential[OF demo_may_acquire this a, of "demo_lock 1"] a
  show ?thesis by (auto simp: demo_lock_def Lock_lockDir_def)
qed

theorem LockWithTimeout_returns_witness:
  "(2::int) > 0 + 1
   \<and> (Lock_LockWithTimeout (\<lambda>_. Inr False) 0 int 1 = Some (Some ErrTimeout))"
  using LockWithTimeout_returns[of 0 1 int 2 "\<lambda>_. Inr False"] by auto

end
