(* ===== verification/Parallel.thy ===== *)
theory Parallel
  imports Prelude
begin

text \<open>
  The type \<^verbatim>\<open>Run\<close> of the package \<^verbatim>\<open>parallel\<close>
  (\<^verbatim>\<open>src/parallel/parallel.go\<close>): functions run concurrently by at most
  \<^verbatim>\<open>max\<close> goroutines. Calls of \<^verbatim>\<open>Do\<close>, runner goroutines and the call of
  \<^verbatim>\<open>Wait\<close> have states of their own and meet on the unbuffered channels
  \<^verbatim>\<open>work\<close> and \<^verbatim>\<open>results\<close>; their interleaving is the step relation \<open>rstep\<close>.
  A function is represented by the error it returns, \<^const>\<open>None\<close> for nil.
\<close>

type_synonym 'e job = "'e option"

text \<open>\<^verbatim>\<open>Errors.Error\<close>, over the text of each error.\<close>

definition digit_char :: "nat \<Rightarrow> char" where
  "digit_char d = char_of (48 + d)"

fun fmt_d :: "nat \<Rightarrow> string" where
  "fmt_d n = (if n < 10 then [digit_char n] else fmt_d (n div 10) @ [digit_char (n mod 10)])"

declare fmt_d.simps [simp del]

fun Errors_Error :: "('e \<Rightarrow> string) \<Rightarrow> 'e list \<Rightarrow> string" where
  "Errors_Error text [] = ''no error''"
| "Errors_Error text [e] = text e"
| "Errors_Error text (e # es) = text e @ '' (and '' @ fmt_d (length es) @ '' more)''"

text \<open>A call of \<^verbatim>\<open>Do\<close>: at its first select, before the critical section, at the second send,
  or returned.\<close>

datatype 'e do_call = Do_select "'e job" | Do_lock "'e job" | Do_send "'e job" | Do_done "'e job"

text \<open>A runner: at the receive, executing a function, sending its errors, or ended. Its field
  \<open>given\<close> records the functions it was given; no step reads it.\<close>

datatype 'e runner_pc = Receive | Exec "'e job" | Send | Ended

record 'e runner =
  r_pc :: "'e runner_pc"
  r_errs :: "'e list"
  given :: "'e job list"

datatype 'e wait_call = Not_waiting | Wait_receive nat "'e list" | Wait_returned "'e list"

record 'e Run =
  run_max :: int
  running :: int
  work_closed :: bool
  calls :: "'e do_call list"
  runners :: "'e runner list"
  waiter :: "'e wait_call"

definition NewRun :: "int \<Rightarrow> panic + 'e Run" where
  "NewRun mx =
     (if mx < 1 then Inl (Panic ''parameter max must be >= 1'')
      else Inr \<lparr>run_max = mx, running = 0, work_closed = False, calls = [], runners = [], waiter = Not_waiting\<rparr>)"

definition new_runner :: "'e runner" where
  "new_runner = \<lparr>r_pc = Receive, r_errs = [], given = []\<rparr>"

text \<open>The critical section of \<^verbatim>\<open>Do\<close>.\<close>

definition Run_Do_locked :: "'e Run \<Rightarrow> 'e Run" where
  "Run_Do_locked r =
     (if running r < run_max r then r\<lparr>running := running r + 1, runners := runners r @ [new_runner]\<rparr> else r)"

definition runner_takes :: "'e job \<Rightarrow> 'e runner \<Rightarrow> 'e runner" where
  "runner_takes f w = w\<lparr>r_pc := Exec f, given := given w @ [f]\<rparr>"

definition runner_ran :: "'e job \<Rightarrow> 'e runner \<Rightarrow> 'e runner" where
  "runner_ran f w =
     (case f of None \<Rightarrow> w\<lparr>r_pc := Receive\<rparr> | Some err \<Rightarrow> w\<lparr>r_pc := Receive, r_errs := r_errs w @ [err]\<rparr>)"

text \<open>\<^verbatim>\<open>Wait\<close>: it closes the channel and receives once per runner; the test of the loop comes
  before each receive. Its error is nil when there are no errors.\<close>

definition Wait_test :: "'e Run \<Rightarrow> nat \<Rightarrow> 'e list \<Rightarrow> 'e wait_call" where
  "Wait_test r i errs = (if int i < running r then Wait_receive i errs else Wait_returned errs)"

definition Wait_result :: "'e list \<Rightarrow> 'e list option" where
  "Wait_result errs = (if length errs = 0 then None else Some errs)"

text \<open>
  The steps. The select of \<^verbatim>\<open>Do\<close> takes its default case when no runner is ready, and a runner
  may be ready later than the model's: the default may be taken at any time. \<^verbatim>\<open>Do\<close> may not
  be called concurrently with \<^verbatim>\<open>Wait\<close>, which is the guard of \<open>call_Wait\<close> and \<open>call_Do\<close>.
\<close>

inductive rstep :: "'e Run \<Rightarrow> 'e Run \<Rightarrow> bool" where
  call_Do: "waiter r = Not_waiting \<Longrightarrow> rstep r (r\<lparr>calls := calls r @ [Do_select f]\<rparr>)"
| select_send: "i < length (calls r) \<Longrightarrow> calls r ! i = Do_select f \<Longrightarrow>
    j < length (runners r) \<Longrightarrow> r_pc (runners r ! j) = Receive \<Longrightarrow>
    rstep r (r\<lparr>calls := (calls r)[i := Do_done f], runners := (runners r)[j := runner_takes f (runners r ! j)]\<rparr>)"
| select_default: "i < length (calls r) \<Longrightarrow> calls r ! i = Do_select f \<Longrightarrow>
    rstep r (r\<lparr>calls := (calls r)[i := Do_lock f]\<rparr>)"
| locked: "i < length (calls r) \<Longrightarrow> calls r ! i = Do_lock f \<Longrightarrow>
    rstep r ((Run_Do_locked r)\<lparr>calls := (calls r)[i := Do_send f]\<rparr>)"
| send: "i < length (calls r) \<Longrightarrow> calls r ! i = Do_send f \<Longrightarrow>
    j < length (runners r) \<Longrightarrow> r_pc (runners r ! j) = Receive \<Longrightarrow>
    rstep r (r\<lparr>calls := (calls r)[i := Do_done f], runners := (runners r)[j := runner_takes f (runners r ! j)]\<rparr>)"
| returns: "j < length (runners r) \<Longrightarrow> r_pc (runners r ! j) = Exec f \<Longrightarrow>
    rstep r (r\<lparr>runners := (runners r)[j := runner_ran f (runners r ! j)]\<rparr>)"
| range_ends: "j < length (runners r) \<Longrightarrow> r_pc (runners r ! j) = Receive \<Longrightarrow> work_closed r \<Longrightarrow>
    rstep r (r\<lparr>runners := (runners r)[j := (runners r ! j)\<lparr>r_pc := Send\<rparr>]\<rparr>)"
| call_Wait: "waiter r = Not_waiting \<Longrightarrow> (\<forall>c \<in> set (calls r). \<exists>f. c = Do_done f) \<Longrightarrow>
    rstep r (r\<lparr>work_closed := True, waiter := Wait_test r 0 []\<rparr>)"
| result: "waiter r = Wait_receive i errs \<Longrightarrow> j < length (runners r) \<Longrightarrow> r_pc (runners r ! j) = Send \<Longrightarrow>
    rstep r (r\<lparr>runners := (runners r)[j := (runners r ! j)\<lparr>r_pc := Ended\<rparr>],
      waiter := Wait_test r (Suc i) (errs @ r_errs (runners r ! j))\<rparr>)"

inductive rreach :: "int \<Rightarrow> 'e Run \<Rightarrow> bool" for mx where
  start: "NewRun mx = Inr r \<Longrightarrow> rreach mx r"
| step: "rreach mx r \<Longrightarrow> rstep r r' \<Longrightarrow> rreach mx r'"

subsection \<open>The invariant\<close>

fun call_jobs :: "'e do_call \<Rightarrow> 'e job multiset" where
  "call_jobs (Do_done f) = {#f#}"
| "call_jobs _ = {#}"

fun exec_jobs :: "'e runner_pc \<Rightarrow> 'e job multiset" where
  "exec_jobs (Exec f) = {#f#}"
| "exec_jobs _ = {#}"

definition errors_of :: "'e job multiset \<Rightarrow> 'e multiset" where
  "errors_of M = image_mset the (filter_mset (\<lambda>f. f \<noteq> None) M)"

definition ended :: "'e runner \<Rightarrow> nat" where
  "ended w = (if r_pc w = Ended then 1 else 0)"

definition ended_errs :: "'e runner \<Rightarrow> 'e multiset" where
  "ended_errs w = (if r_pc w = Ended then mset (r_errs w) else {#})"

fun received :: "'e wait_call \<Rightarrow> nat \<Rightarrow> nat" where
  "received Not_waiting n = 0"
| "received (Wait_receive i errs) n = i"
| "received (Wait_returned errs) n = n"

fun wait_errs :: "'e wait_call \<Rightarrow> 'e multiset" where
  "wait_errs Not_waiting = {#}"
| "wait_errs (Wait_receive i errs) = mset errs"
| "wait_errs (Wait_returned errs) = mset errs"

definition runner_ok :: "'e runner \<Rightarrow> bool" where
  "runner_ok w \<longleftrightarrow> mset (r_errs w) + errors_of (exec_jobs (r_pc w)) = errors_of (mset (given w))"

definition run_inv :: "'e Run \<Rightarrow> bool" where
  "run_inv r \<longleftrightarrow>
     1 \<le> run_max r \<and> running r = int (length (runners r)) \<and> running r \<le> run_max r
     \<and> sum_over (\<lambda>w. mset (given w)) (runners r) = sum_over call_jobs (calls r)
     \<and> (\<forall>w \<in> set (runners r). runner_ok w \<and> (r_pc w = Send \<or> r_pc w = Ended \<longrightarrow> work_closed r))
     \<and> (\<forall>f. Do_send f \<in> set (calls r) \<longrightarrow> runners r \<noteq> [])
     \<and> (waiter r \<noteq> Not_waiting \<longleftrightarrow> work_closed r)
     \<and> (work_closed r \<longrightarrow> (\<forall>c \<in> set (calls r). \<exists>f. c = Do_done f))
     \<and> (\<forall>i errs. waiter r = Wait_receive i errs \<longrightarrow> i < length (runners r))
     \<and> sum_over ended (runners r) = received (waiter r) (length (runners r))
     \<and> sum_over ended_errs (runners r) = wait_errs (waiter r)"

subsection \<open>Every step keeps the invariant\<close>

lemma errors_of_simps [simp]:
  "errors_of {#} = {#}" "errors_of (M + N) = errors_of M + errors_of N"
  "errors_of (add_mset None M) = errors_of M" "errors_of (add_mset (Some e) M) = add_mset e (errors_of M)"
  by (simp_all add: errors_of_def)

lemma set_update_iff:
  "i < length xs \<Longrightarrow> (\<forall>x \<in> set (xs[i := y]). P x) \<longleftrightarrow> P y \<and> (\<forall>j < length xs. j \<noteq> i \<longrightarrow> P (xs ! j))"
  by (auto simp: all_set_conv_all_nth nth_list_update)

lemma runner_takes_ok:
  "runner_ok w \<Longrightarrow> r_pc w = Receive \<Longrightarrow> runner_ok (runner_takes f w)"
  by (cases f) (auto simp: runner_ok_def runner_takes_def)

lemma runner_ran_ok: "runner_ok w \<Longrightarrow> r_pc w = Exec f \<Longrightarrow> runner_ok (runner_ran f w)"
  by (cases f) (auto simp: runner_ok_def runner_ran_def)

lemma set_list_updateI: "x \<in> set (xs[i := y]) \<Longrightarrow> x = y \<or> x \<in> set xs"
  by (meson set_update_subset_insert insertE subsetD)

text \<open>A function passes from a call to a runner.\<close>

lemma run_inv_hand_over:
  assumes inv: "run_inv r" and i: "i < length (calls r)" "calls r ! i = Do_select f \<or> calls r ! i = Do_send f"
    and j: "j < length (runners r)" "r_pc (runners r ! j) = Receive"
  shows "run_inv (r\<lparr>calls := (calls r)[i := Do_done f], runners := (runners r)[j := runner_takes f (runners r ! j)]\<rparr>)"
proof -
  have "sum_over (\<lambda>w. mset (given w)) ((runners r)[j := runner_takes f (runners r ! j)])
      = sum_over (\<lambda>w. mset (given w)) (runners r) + {#f#}"
    using sum_over_update[OF j(1), of "\<lambda>w. mset (given w)" "runner_takes f (runners r ! j)"]
    by (simp add: runner_takes_def)
  moreover have "sum_over call_jobs ((calls r)[i := Do_done f]) = sum_over call_jobs (calls r) + {#f#}"
    using sum_over_update[OF i(1), of call_jobs "Do_done f"] i(2) by auto
  moreover have "sum_over ended ((runners r)[j := runner_takes f (runners r ! j)]) = sum_over ended (runners r)"
    "sum_over ended_errs ((runners r)[j := runner_takes f (runners r ! j)]) = sum_over ended_errs (runners r)"
    using j by (simp_all add: sum_over_update_same ended_def ended_errs_def runner_takes_def)
  moreover have "runner_ok w \<and> (r_pc w = Send \<or> r_pc w = Ended \<longrightarrow> work_closed r)"
    if "w \<in> set ((runners r)[j := runner_takes f (runners r ! j)])" for w
    using set_list_updateI[OF that] inv j runner_takes_ok[OF _ j(2)]
    by (auto simp: run_inv_def runner_takes_def)
  ultimately show ?thesis
    using inv j by (auto simp: run_inv_def dest!: set_list_updateI)
qed

text \<open>A runner changes its state and keeps what it was given.\<close>

lemma run_inv_runner:
  assumes inv: "run_inv r" and j: "j < length (runners r)" "given w = given (runners r ! j)" "runner_ok w"
    and pc: "r_pc (runners r ! j) \<noteq> Ended" "r_pc w = Receive \<or> r_pc w = Send \<and> work_closed r"
  shows "run_inv (r\<lparr>runners := (runners r)[j := w]\<rparr>)"
proof -
  have "sum_over (\<lambda>w. mset (given w)) ((runners r)[j := w]) = sum_over (\<lambda>w. mset (given w)) (runners r)"
    "sum_over ended ((runners r)[j := w]) = sum_over ended (runners r)"
    "sum_over ended_errs ((runners r)[j := w]) = sum_over ended_errs (runners r)"
    using j pc by (auto simp: sum_over_update_same ended_def ended_errs_def)
  then show ?thesis using inv j pc by (auto simp: run_inv_def dest!: set_list_updateI)
qed

lemma run_inv_result:
  assumes inv: "run_inv r" and w: "waiter r = Wait_receive i errs"
    and j: "j < length (runners r)" "r_pc (runners r ! j) = Send"
  shows "run_inv (r\<lparr>runners := (runners r)[j := (runners r ! j)\<lparr>r_pc := Ended\<rparr>],
      waiter := Wait_test r (Suc i) (errs @ r_errs (runners r ! j))\<rparr>)"
proof -
  let ?w = "(runners r ! j)\<lparr>r_pc := Ended\<rparr>"
  have "sum_over (\<lambda>w. mset (given w)) ((runners r)[j := ?w]) = sum_over (\<lambda>w. mset (given w)) (runners r)"
    using j by (simp add: sum_over_update_same)
  moreover have "sum_over ended ((runners r)[j := ?w]) = sum_over ended (runners r) + 1"
    "sum_over ended_errs ((runners r)[j := ?w]) = sum_over ended_errs (runners r) + mset (r_errs (runners r ! j))"
    using sum_over_update[OF j(1), of ended ?w] sum_over_update[OF j(1), of ended_errs ?w] j(2)
    by (simp_all add: ended_def ended_errs_def)
  moreover have "runner_ok ?w" using inv j nth_mem[OF j(1)] by (auto simp: run_inv_def runner_ok_def)
  ultimately show ?thesis
    using inv w j by (auto simp: run_inv_def Wait_test_def dest!: set_list_updateI)
qed

lemma run_inv_open:
  assumes "run_inv r" "i < length (calls r)" "call_jobs (calls r ! i) = {#}"
  shows "\<not> work_closed r"
proof
  assume "work_closed r"
  then have "\<forall>c \<in> set (calls r). \<exists>f. c = Do_done f" using assms(1) by (simp add: run_inv_def)
  then obtain f where "calls r ! i = Do_done f" using nth_mem[OF assms(2)] by blast
  with assms(3) show False by simp
qed

lemma run_inv_rstep:
  assumes "rstep r r'" "run_inv r"
  shows "run_inv r'"
  using assms
proof cases
  case (select_send i f j)
  then show ?thesis using run_inv_hand_over[OF assms(2)] by simp
next
  case (send i f j)
  then show ?thesis using run_inv_hand_over[OF assms(2)] by simp
next
  case (returns j f)
  then have "runner_ok (runners r ! j)" using assms(2) nth_mem by (auto simp: run_inv_def)
  then have "runner_ok (runner_ran f (runners r ! j))" using returns(3) by (rule runner_ran_ok)
  moreover have "given (runner_ran f (runners r ! j)) = given (runners r ! j)" "r_pc (runner_ran f (runners r ! j)) = Receive"
    by (simp_all add: runner_ran_def split: option.splits)
  ultimately show ?thesis using returns run_inv_runner[OF assms(2)] by simp
next
  case (range_ends j)
  then have "runner_ok (runners r ! j)" using assms(2) nth_mem[of j "runners r"] by (auto simp: run_inv_def)
  then have "runner_ok ((runners r ! j)\<lparr>r_pc := Send\<rparr>)" using range_ends(3) by (simp add: runner_ok_def)
  with range_ends show ?thesis using run_inv_runner[OF assms(2)] by simp
next
  case (result i errs j)
  then show ?thesis using run_inv_result[OF assms(2)] by simp
next
  case (locked i f)
  have "sum_over call_jobs ((calls r)[i := Do_send f]) = sum_over call_jobs (calls r)"
    using locked by (simp add: sum_over_update_same)
  moreover have "\<not> work_closed r" using run_inv_open[OF assms(2) locked(2)] locked(3) by simp
  moreover have "runners r \<noteq> []" if "\<not> running r < run_max r" using that assms(2) by (auto simp: run_inv_def)
  ultimately show ?thesis using locked(1) assms(2)
    by (auto simp: run_inv_def Run_Do_locked_def new_runner_def runner_ok_def ended_def ended_errs_def
        dest!: set_list_updateI)
next
  case (select_default i f)
  have "sum_over call_jobs ((calls r)[i := Do_lock f]) = sum_over call_jobs (calls r)"
    using select_default by (simp add: sum_over_update_same)
  moreover have "\<not> work_closed r" using run_inv_open[OF assms(2) select_default(2)] select_default(3) by simp
  ultimately show ?thesis using select_default assms(2)
    by (auto simp: run_inv_def dest!: set_list_updateI)
next
  case (call_Wait)
  then show ?thesis using assms(2) by (auto simp: run_inv_def Wait_test_def)
next
  case (call_Do f)
  then show ?thesis using assms(2) by (auto simp: run_inv_def)
qed

lemma rreach_inv: "rreach mx r \<Longrightarrow> run_inv r \<and> run_max r = mx"
proof (induction rule: rreach.induct)
  case (start r)
  then show ?case by (auto simp: NewRun_def run_inv_def split: if_splits)
next
  case (step r r')
  moreover have "run_max r' = run_max r" using step.hyps(2) by cases (auto simp: Run_Do_locked_def)
  ultimately show ?case using run_inv_rstep by blast
qed

subsection \<open>Properties\<close>

fun busy :: "'e runner_pc \<Rightarrow> bool" where
  "busy (Exec f) = True"
| "busy _ = False"

fun do_job :: "'e do_call \<Rightarrow> 'e job" where
  "do_job (Do_select f) = f"
| "do_job (Do_lock f) = f"
| "do_job (Do_send f) = f"
| "do_job (Do_done f) = f"

lemma sum_over_given: "sum_over (\<lambda>w. mset (given w)) ws = mset (concat (map given ws))"
  by (induction ws) auto

lemma sum_over_calls: "sum_over call_jobs cs = mset (map do_job (filter (\<lambda>c. call_jobs c \<noteq> {#}) cs))"
proof (induction cs)
  case (Cons c cs)
  then show ?case by (cases c) auto
qed simp

text \<open>(C14) No more than \<^verbatim>\<open>max\<close> functions execute at once, and every function that was
  handed over executes in exactly one runner, once.\<close>

theorem Run_limit:
  assumes "rreach mx r"
  shows "int (length (filter (\<lambda>w. busy (r_pc w)) (runners r))) \<le> mx
    \<and> mset (concat (map given (runners r))) = mset (map do_job (filter (\<lambda>c. call_jobs c \<noteq> {#}) (calls r)))"
proof -
  have inv: "run_inv r" "run_max r = mx" using rreach_inv[OF assms] by auto
  have "length (filter (\<lambda>w. busy (r_pc w)) (runners r)) \<le> length (runners r)" by simp
  moreover have "int (length (runners r)) \<le> mx" using inv by (auto simp: run_inv_def)
  ultimately have "int (length (filter (\<lambda>w. busy (r_pc w)) (runners r))) \<le> mx" by linarith
  moreover have "mset (concat (map given (runners r))) = mset (map do_job (filter (\<lambda>c. call_jobs c \<noteq> {#}) (calls r)))"
    using inv(1) sum_over_given[of "runners r"] sum_over_calls[of "calls r"] unfolding run_inv_def by metis
  ultimately show ?thesis by blast
qed

lemma total_ended_all: "sum_over ended ws = length ws \<Longrightarrow> (\<forall>w \<in> set ws. r_pc w = Ended)"
proof (induction ws)
  case (Cons w ws)
  have "sum_over ended ws \<le> length ws"
  proof (induction ws)
    case (Cons w ws)
    then show ?case by (simp add: ended_def[of w])
  qed simp
  then show ?case using Cons by (auto simp: ended_def[of w] split: if_splits)
qed simp

lemma sum_over_all_ended: "\<forall>w \<in> set ws. r_pc w = Ended \<Longrightarrow> sum_over ended ws = length ws"
  by (induction ws) (auto simp: ended_def)

lemma ended_runners_errs:
  "\<forall>w \<in> set ws. runner_ok w \<and> r_pc w = Ended \<Longrightarrow> sum_over ended_errs ws = errors_of (sum_over (\<lambda>w. mset (given w)) ws)"
proof (induction ws)
  case (Cons w ws)
  then have "mset (r_errs w) = errors_of (mset (given w))" by (auto simp: runner_ok_def)
  then show ?case using Cons by (simp add: ended_errs_def[of w])
qed simp

lemma total_done_jobs: "\<forall>c \<in> set cs. \<exists>f. c = Do_done f \<Longrightarrow> sum_over call_jobs cs = mset (map do_job cs)"
  by (induction cs) auto

lemma errors_of_empty: "errors_of M = {#} \<longleftrightarrow> (\<forall>f. f \<in># M \<longrightarrow> f = None)"
proof (induction M)
  case (add f M)
  then show ?case by (cases f) auto
qed simp

text \<open>(C13) When \<^verbatim>\<open>Wait\<close> returns, every function given to \<^verbatim>\<open>Do\<close> has finished, the errors
  returned are exactly the errors of these functions, each as often as it occurred, and the result is
  nil exactly when none of them failed.\<close>

theorem Wait_collects:
  assumes "rreach mx r" "waiter r = Wait_returned errs"
  shows "mset errs = errors_of (mset (map do_job (calls r)))
    \<and> (\<forall>w \<in> set (runners r). r_pc w = Ended)
    \<and> (Wait_result errs = None \<longleftrightarrow> (\<forall>c \<in> set (calls r). do_job c = None))"
proof -
  have inv: "run_inv r" using rreach_inv[OF assms(1)] by simp
  then have ended: "\<forall>w \<in> set (runners r). r_pc w = Ended"
    using total_ended_all[of "runners r"] assms(2) by (simp add: run_inv_def)
  have "sum_over ended_errs (runners r) = errors_of (sum_over (\<lambda>w. mset (given w)) (runners r))"
    using inv ended by (intro ended_runners_errs) (auto simp: run_inv_def)
  moreover have "work_closed r" using inv assms(2) by (auto simp: run_inv_def)
  then have "sum_over call_jobs (calls r) = mset (map do_job (calls r))"
    using inv by (intro total_done_jobs) (auto simp: run_inv_def)
  ultimately have errs: "mset errs = errors_of (mset (map do_job (calls r)))"
    using inv assms(2) unfolding run_inv_def by (metis wait_errs.simps(3))
  then have "errs = [] \<longleftrightarrow> errors_of (mset (map do_job (calls r))) = {#}" by (metis mset_zero_iff)
  then have "Wait_result errs = None \<longleftrightarrow> (\<forall>c \<in> set (calls r). do_job c = None)"
    by (auto simp: Wait_result_def errors_of_empty)
  with errs ended show ?thesis by blast
qed

fun call_rank :: "'e do_call \<Rightarrow> nat" where
  "call_rank (Do_select f) = 9"
| "call_rank (Do_lock f) = 8"
| "call_rank (Do_send f) = 5"
| "call_rank (Do_done f) = 0"

fun runner_rank :: "'e runner_pc \<Rightarrow> nat" where
  "runner_rank Receive = 2"
| "runner_rank (Exec f) = 3"
| "runner_rank Send = 1"
| "runner_rank Ended = 0"

definition run_rank :: "'e Run \<Rightarrow> nat" where
  "run_rank r = sum_over call_rank (calls r) + sum_over (\<lambda>w. runner_rank (r_pc w)) (runners r)"

text \<open>The same calls, none of them new.\<close>

definition no_new_call :: "'e Run \<Rightarrow> 'e Run \<Rightarrow> bool" where
  "no_new_call r r' \<longleftrightarrow> length (calls r') = length (calls r) \<and> (waiter r' = Not_waiting \<longleftrightarrow> waiter r = Not_waiting)"

lemma sum_over_update_less:
  "i < length xs \<Longrightarrow> f y < f (xs ! i) \<Longrightarrow> sum_over f (xs[i := y]) < sum_over f xs" for f :: "'a \<Rightarrow> nat"
  using sum_over_update[of i xs f y] by simp

lemma rstep_rank:
  assumes "rstep r r'" "no_new_call r r'"
  shows "run_rank r' < run_rank r"
  using assms(1)
proof cases
  case (select_send i f j)
  then show ?thesis
    using sum_over_update[of i "calls r" call_rank "Do_done f"]
      sum_over_update[of j "runners r" "\<lambda>w. runner_rank (r_pc w)" "runner_takes f (runners r ! j)"]
    by (simp add: run_rank_def runner_takes_def)
next
  case (send i f j)
  then show ?thesis
    using sum_over_update[of i "calls r" call_rank "Do_done f"]
      sum_over_update[of j "runners r" "\<lambda>w. runner_rank (r_pc w)" "runner_takes f (runners r ! j)"]
    by (simp add: run_rank_def runner_takes_def)
next
  case (locked i f)
  then show ?thesis
    using sum_over_update[of i "calls r" call_rank "Do_send f"]
    by (simp add: run_rank_def Run_Do_locked_def new_runner_def)
next
  case (returns j f)
  then show ?thesis
    by (auto simp: run_rank_def runner_ran_def split: option.splits intro!: sum_over_update_less)
qed (use assms(2) in \<open>auto simp: run_rank_def no_new_call_def Wait_test_def
        intro!: sum_over_update_less split: if_splits\<close>)

text \<open>(C15) There is no deadlock and no livelock: while a call of \<^verbatim>\<open>Do\<close> or of
  \<^verbatim>\<open>Wait\<close> has not returned some step other than a new call is possible, and every such step brings
  the number of steps still possible, \<open>run_rank\<close>, down.\<close>

theorem Run_progress:
  assumes "rreach mx r"
    and "(\<exists>c \<in> set (calls r). call_jobs c = {#}) \<or> (\<exists>i errs. waiter r = Wait_receive i errs)"
  shows "(\<exists>r'. rstep r r' \<and> no_new_call r r') \<and> (\<forall>r'. rstep r r' \<and> no_new_call r r' \<longrightarrow> run_rank r' < run_rank r)"
proof -
  have inv: "run_inv r" using rreach_inv[OF assms(1)] by simp
  have "\<exists>r'. rstep r r' \<and> no_new_call r r'"
    using assms(2)
  proof
    assume "\<exists>c \<in> set (calls r). call_jobs c = {#}"
    then obtain i where i: "i < length (calls r)" "call_jobs (calls r ! i) = {#}" by (metis in_set_conv_nth)
    then have "\<not> work_closed r" using run_inv_open[OF inv] by blast
    show ?thesis
    proof (cases "calls r ! i")
      case (Do_send f)
      then have "runners r \<noteq> []" using inv nth_mem[OF i(1)] by (auto simp: run_inv_def)
      then have 0: "0 < length (runners r)" by simp
      show ?thesis
      proof (cases "r_pc (runners r ! 0)")
        case Receive
        then show ?thesis using rstep.send[OF i(1) Do_send 0] by (auto simp: no_new_call_def)
      next
        case (Exec g)
        then show ?thesis using rstep.returns[OF 0] by (auto simp: no_new_call_def)
      qed (use inv nth_mem[OF 0] \<open>\<not> work_closed r\<close> in \<open>auto simp: run_inv_def\<close>)
    next
      case (Do_lock f)
      then have "rstep r ((Run_Do_locked r)\<lparr>calls := (calls r)[i := Do_send f]\<rparr>)" by (rule rstep.locked[OF i(1)])
      moreover have "no_new_call r ((Run_Do_locked r)\<lparr>calls := (calls r)[i := Do_send f]\<rparr>)"
        by (simp add: no_new_call_def Run_Do_locked_def)
      ultimately show ?thesis by blast
    next
      case (Do_select f)
      then show ?thesis using rstep.select_default[OF i(1)] by (auto simp: no_new_call_def)
    qed (use i in simp)
  next
    assume "\<exists>i errs. waiter r = Wait_receive i errs"
    then obtain i errs where w: "waiter r = Wait_receive i errs" by blast
    then have "sum_over ended (runners r) \<noteq> length (runners r)" "work_closed r" using inv by (auto simp: run_inv_def)
    then obtain j where j: "j < length (runners r)" "r_pc (runners r ! j) \<noteq> Ended"
      using sum_over_all_ended by (metis in_set_conv_nth)
    show ?thesis
    proof (cases "r_pc (runners r ! j)")
      case Receive
      then show ?thesis using rstep.range_ends[OF j(1)] \<open>work_closed r\<close> by (auto simp: no_new_call_def)
    next
      case (Exec g)
      then show ?thesis using rstep.returns[OF j(1)] by (auto simp: no_new_call_def)
    next
      case Send
      show ?thesis
        by (intro exI conjI, rule rstep.result[OF w j(1) Send]) (simp add: w no_new_call_def Wait_test_def)
    qed (use j in simp)
  qed
  then show ?thesis using rstep_rank by blast
qed

subsection \<open>A run\<close>

text \<open>One function that fails is given to a run with room for one.\<close>

definition demo_run :: "'e do_call list \<Rightarrow> 'e runner list \<Rightarrow> bool \<Rightarrow> 'e wait_call \<Rightarrow> 'e Run" where
  "demo_run cs ws c w =
     \<lparr>run_max = 1, running = int (length ws), work_closed = c, calls = cs, runners = ws, waiter = w\<rparr>"

lemma demo_run_sent:
  "rreach 1 (demo_run [Do_send (Some e)] [new_runner] False Not_waiting)"
proof -
  have "rreach 1 (demo_run [] [] False Not_waiting)"
    by (rule rreach.start) (simp add: NewRun_def demo_run_def)
  then have "rreach 1 (demo_run [Do_select (Some e)] [] False Not_waiting)"
    using rreach.step[OF _ rstep.call_Do[of _ "Some e"]] by (fastforce simp: demo_run_def)
  from rreach.step[OF this rstep.select_default[of 0 _ "Some e"]]
  have "rreach 1 (demo_run [Do_lock (Some e)] [] False Not_waiting)" by (simp add: demo_run_def)
  from rreach.step[OF this rstep.locked[of 0 _ "Some e"]]
  show ?thesis by (simp add: demo_run_def Run_Do_locked_def)
qed

lemma demo_run_executing:
  "rreach 1 (demo_run [Do_done (Some e)] [\<lparr>r_pc = Exec (Some e), r_errs = [], given = [Some e]\<rparr>] False Not_waiting)"
  using rreach.step[OF demo_run_sent[of e] rstep.send[of 0 _ "Some e" 0]]
  by (simp add: demo_run_def new_runner_def runner_takes_def)

lemma demo_run_waiting:
  "rreach 1 (demo_run [Do_done (Some e)] [\<lparr>r_pc = Send, r_errs = [e], given = [Some e]\<rparr>] True (Wait_receive 0 []))"
proof -
  from rreach.step[OF demo_run_executing[of e] rstep.returns[of 0 _ "Some e"]]
  have "rreach 1 (demo_run [Do_done (Some e)] [\<lparr>r_pc = Receive, r_errs = [e], given = [Some e]\<rparr>] False Not_waiting)"
    by (simp add: demo_run_def runner_ran_def)
  from rreach.step[OF this rstep.call_Wait]
  have "rreach 1 (demo_run [Do_done (Some e)] [\<lparr>r_pc = Receive, r_errs = [e], given = [Some e]\<rparr>] True (Wait_receive 0 []))"
    by (simp add: demo_run_def Wait_test_def)
  from rreach.step[OF this rstep.range_ends[of 0]] show ?thesis by (simp add: demo_run_def)
qed

lemma demo_run_returned:
  "rreach 1 (demo_run [Do_done (Some e)] [\<lparr>r_pc = Ended, r_errs = [e], given = [Some e]\<rparr>] True (Wait_returned [e]))"
  using rreach.step[OF demo_run_waiting[of e] rstep.result[of _ 0 "[]" 0]]
  by (simp add: demo_run_def Wait_test_def)

theorem Run_limit_witness:
  "\<exists>r. rreach 1 (r :: nat Run) \<and> length (filter (\<lambda>w. busy (r_pc w)) (runners r)) = 1"
  using Run_limit[OF demo_run_executing[of "7::nat"]] demo_run_executing[of "7::nat"]
  by (intro exI) (auto simp: demo_run_def)

theorem Wait_collects_witness:
  "\<exists>r. rreach 1 (r :: nat Run) \<and> waiter r = Wait_returned [7] \<and> Wait_result [7::nat] \<noteq> None"
  using Wait_collects[OF demo_run_returned[of "7::nat"], of "[7]"] demo_run_returned[of "7::nat"]
  by (intro exI) (auto simp: demo_run_def)

theorem Run_progress_witness:
  "\<exists>r r'. rreach 1 (r :: nat Run) \<and> Do_send (Some 7) \<in> set (calls r) \<and> rstep r r' \<and> no_new_call r r'"
  using Run_progress[OF demo_run_sent[of "7::nat"]] demo_run_sent[of "7::nat"]
  by (auto simp: demo_run_def)

end
