(* ===== verification/Tomb.thy ===== *)
theory Tomb
  imports Prelude
begin

text \<open>
  The package \<^verbatim>\<open>launchpad.net/tomb\<close> tracks the life of a goroutine: it is alive, dying after the first
  \<^verbatim>\<open>Kill\<close>, and dead after \<^verbatim>\<open>Done\<close>. It is not part of the repository, so its operations are an argument of what
  uses them (\<open>Try\<close> and \<open>TailerLife\<close>), and \<open>tomb_laws\<close> is what its documentation promises of them: the first
  reason that is not nil is kept, \<^verbatim>\<open>Wait\<close> returns it once the tomb is dead, and \<^verbatim>\<open>Err\<close> returns
  \<^verbatim>\<open>ErrStillAlive\<close> before the first \<^verbatim>\<open>Kill\<close>. The reason \<^verbatim>\<open>ErrDying\<close>, which \<^verbatim>\<open>Kill\<close> treats specially, is
  not a value of the type of errors here.
\<close>

record ('t, 'e) tomb_ops =
  tomb_new :: 't
  tomb_Kill :: "'e option \<Rightarrow> 't \<Rightarrow> 't"
  tomb_Done :: "'t \<Rightarrow> 't"
  tomb_Dying :: "'t \<Rightarrow> bool"
  tomb_Dead :: "'t \<Rightarrow> bool"
  tomb_Reason :: "'t \<Rightarrow> 'e option"
  tomb_Err :: "'t \<Rightarrow> 'e option"
  tomb_ErrStillAlive :: 'e

definition tomb_laws :: "('t, 'e) tomb_ops \<Rightarrow> bool" where
  "tomb_laws T \<longleftrightarrow>
     \<not> tomb_Dying T (tomb_new T) \<and> \<not> tomb_Dead T (tomb_new T) \<and> tomb_Reason T (tomb_new T) = None
     \<and> (\<forall>e t. tomb_Dying T (tomb_Kill T e t) \<and> tomb_Dead T (tomb_Kill T e t) = tomb_Dead T t
          \<and> tomb_Reason T (tomb_Kill T e t) = (if tomb_Reason T t = None then e else tomb_Reason T t))
     \<and> (\<forall>t. tomb_Dying T (tomb_Done T t) \<and> tomb_Dead T (tomb_Done T t)
          \<and> tomb_Reason T (tomb_Done T t) = tomb_Reason T t)
     \<and> (\<forall>t. tomb_Err T t = (if tomb_Dying T t then tomb_Reason T t else Some (tomb_ErrStillAlive T)))"

text \<open>\<^verbatim>\<open>Wait\<close> blocks (\<^const>\<open>None\<close>) until the tomb is dead.\<close>

definition tomb_Wait :: "('t, 'e) tomb_ops \<Rightarrow> 't \<Rightarrow> 'e option option" where
  "tomb_Wait T t = (if tomb_Dead T t then Some (tomb_Reason T t) else None)"

lemma tomb_lawsD:
  assumes "tomb_laws T"
  shows "tomb_Dying T (tomb_Kill T e t)" "tomb_Dead T (tomb_Kill T e t) = tomb_Dead T t"
    "tomb_Reason T (tomb_Kill T e t) = (if tomb_Reason T t = None then e else tomb_Reason T t)"
    "tomb_Dying T (tomb_Done T t)" "tomb_Dead T (tomb_Done T t)" "tomb_Reason T (tomb_Done T t) = tomb_Reason T t"
    "\<not> tomb_Dying T (tomb_new T)" "\<not> tomb_Dead T (tomb_new T)" "tomb_Reason T (tomb_new T) = None"
    "tomb_Err T t = (if tomb_Dying T t then tomb_Reason T t else Some (tomb_ErrStillAlive T))"
  using assms unfolding tomb_laws_def by blast+

text \<open>A tomb: whether it is dying, whether it is dead, and the first reason.\<close>

definition demo_tomb :: "'e \<Rightarrow> (bool \<times> bool \<times> 'e option, 'e) tomb_ops" where
  "demo_tomb alive =
     \<lparr>tomb_new = (False, False, None),
      tomb_Kill = (\<lambda>e (dy, de, r). (True, de, if r = None then e else r)),
      tomb_Done = (\<lambda>(dy, de, r). (True, True, r)),
      tomb_Dying = (\<lambda>(dy, de, r). dy), tomb_Dead = (\<lambda>(dy, de, r). de), tomb_Reason = (\<lambda>(dy, de, r). r),
      tomb_Err = (\<lambda>(dy, de, r). if dy then r else Some alive), tomb_ErrStillAlive = alive\<rparr>"

lemma demo_tomb_laws: "tomb_laws (demo_tomb alive)"
  by (simp add: tomb_laws_def demo_tomb_def)

end
