(* ===== verification/Try.thy ===== *)
theory Try
  imports Tomb
begin

text \<open>
  The type \<^verbatim>\<open>Try\<close> of the package \<^verbatim>\<open>parallel\<close>
  (\<^verbatim>\<open>src/parallel/try.go\<close>): functions run concurrently until one succeeds. One turn of the
  loop's select is the function \<open>Try_loop\<close>; calls of \<^verbatim>\<open>Start\<close>, the functions they start,
  \<^verbatim>\<open>Close\<close> and \<^verbatim>\<open>Kill\<close> are interleaved with it by the relation \<open>tstep\<close>.

  The package \<^verbatim>\<open>tomb\<close> is the argument \<open>T\<close>, with the laws of \<open>Tomb\<close>.
\<close>

datatype 'e try_error = ErrStopped | ErrClosed | Failed 'e

record ('v, 'e) result =
  res_val :: "'v option"
  res_err :: "'e try_error option"

type_synonym 'e combine = "'e try_error option \<Rightarrow> 'e try_error option \<Rightarrow> 'e try_error option"

subsection \<open>The loop\<close>

datatype ('v, 'e) loop_pc = Looping | Loop_returned "'v option" "'e try_error option" | Loop_killed | Loop_done

text \<open>The local variables of the loop; \<open>lp_close\<close> tells whether its copy of the channel is not nil.\<close>

record ('v, 'e) loop =
  lp_err :: "'e try_error option"
  lp_close :: bool
  lp_nrunning :: int
  lp_pc :: "('v, 'e) loop_pc"

datatype ('v, 'e) sel = Sel_start | Sel_result "('v, 'e) result" | Sel_dying | Sel_close

fun Try_loop :: "'e combine \<Rightarrow> ('v, 'e) sel \<Rightarrow> ('v, 'e) loop \<Rightarrow> ('v, 'e) loop" where
  "Try_loop combineErrors Sel_start l = l\<lparr>lp_nrunning := lp_nrunning l + 1\<rparr>"
| "Try_loop combineErrors (Sel_result r) l =
     (if res_err r = None then l\<lparr>lp_pc := Loop_returned (res_val r) (res_err r)\<rparr>
      else
        (let l' = l\<lparr>lp_err := combineErrors (lp_err l) (res_err r), lp_nrunning := lp_nrunning l - 1\<rparr>
         in if \<not> lp_close l' \<and> lp_nrunning l' = 0 then l'\<lparr>lp_pc := Loop_returned None (lp_err l')\<rparr> else l'))"
| "Try_loop combineErrors Sel_dying l =
     (if lp_err l = None then l\<lparr>lp_pc := Loop_returned None (Some ErrStopped)\<rparr>
      else l\<lparr>lp_pc := Loop_returned None (lp_err l)\<rparr>)"
| "Try_loop combineErrors Sel_close l =
     (let l' = l\<lparr>lp_close := False\<rparr>
      in if lp_nrunning l' = 0 then l'\<lparr>lp_pc := Loop_returned None (lp_err l')\<rparr> else l')"

subsection \<open>Calls of Start\<close>

text \<open>
  A call of \<^verbatim>\<open>Start\<close> and the function it starts: waiting for a slot, waiting for the loop,
  failed; then the function executes, has returned and gives its slot back, delivers its result, and
  its result was received by the loop or discarded (the value closed when there is no error).
  Closing a nil value panics.
\<close>

datatype ('v, 'e) task = Wait_limiter | Wait_start | Start_failed "'e try_error" | Executing
  | Give_slot "('v, 'e) result" | Delivering "('v, 'e) result" | Delivered "('v, 'e) result"
  | Discarded "('v, 'e) result" | Panicked

record ('t, 'v, 'e) Try =
  t_tomb :: 't
  t_close :: bool
  t_limiter :: "nat option"
  t_combineErrors :: "'e combine"
  t_maxParallel :: int
  t_endResult :: "'v option"
  t_loop :: "('v, 'e) loop"
  t_tasks :: "('v, 'e) task list"
  delivered :: "('v, 'e) result list"

definition chooseLastError :: "'e combine" where
  "chooseLastError err0 err1 = err1"

text \<open>The field \<open>delivered\<close> records the results in the order of delivery; no step reads it.\<close>

definition NewTry :: "('t, 'e try_error) tomb_ops \<Rightarrow> int \<Rightarrow> 'e combine option \<Rightarrow> ('t, 'v, 'e) Try" where
  "NewTry T maxParallel combineErrors =
     \<lparr>t_tomb = tomb_new T, t_close = False,
      t_limiter = (if maxParallel > 0 then Some (nat maxParallel) else None),
      t_combineErrors = (case combineErrors of None \<Rightarrow> chooseLastError | Some f \<Rightarrow> f),
      t_maxParallel = maxParallel, t_endResult = None,
      t_loop = \<lparr>lp_err = None, lp_close = True, lp_nrunning = 0, lp_pc = Looping\<rparr>,
      t_tasks = [], delivered = []\<rparr>"

definition Start_begin :: "('t, 'v, 'e) Try \<Rightarrow> ('v, 'e) task" where
  "Start_begin s = (if t_limiter s \<noteq> None then Wait_limiter else Wait_start)"

definition after_try :: "('t, 'v, 'e) Try \<Rightarrow> ('v, 'e) result \<Rightarrow> ('v, 'e) task" where
  "after_try s r = (if t_limiter s \<noteq> None then Give_slot r else Delivering r)"

definition discard_result :: "('v, 'e) result \<Rightarrow> ('v, 'e) task" where
  "discard_result r = (if res_err r = None \<and> res_val r = None then Panicked else Discarded r)"

definition Try_Close :: "('t, 'v, 'e) Try \<Rightarrow> ('t, 'v, 'e) Try" where
  "Try_Close s = (if t_close s then s else s\<lparr>t_close := True\<rparr>)"

definition Try_Kill :: "('t, 'e try_error) tomb_ops \<Rightarrow> ('t, 'v, 'e) Try \<Rightarrow> ('t, 'v, 'e) Try" where
  "Try_Kill T s = s\<lparr>t_tomb := tomb_Kill T None (t_tomb s)\<rparr>"

text \<open>\<^verbatim>\<open>Wait\<close> and \<^verbatim>\<open>Result\<close> block (\<^const>\<open>None\<close>) until the tomb is dead.\<close>

definition Try_Wait :: "('t, 'e try_error) tomb_ops \<Rightarrow> ('t, 'v, 'e) Try \<Rightarrow> 'e try_error option option" where
  "Try_Wait T s = tomb_Wait T (t_tomb s)"

definition Try_Dead :: "('t, 'e try_error) tomb_ops \<Rightarrow> ('t, 'v, 'e) Try \<Rightarrow> bool" where
  "Try_Dead T s = tomb_Dead T (t_tomb s)"

definition Try_Result ::
  "('t, 'e try_error) tomb_ops \<Rightarrow> ('t, 'v, 'e) Try \<Rightarrow> ('v option \<times> 'e try_error option) option" where
  "Try_Result T s = (case Try_Wait T s of None \<Rightarrow> None | Some err \<Rightarrow> Some (t_endResult s, err))"

definition looping :: "('t, 'v, 'e) Try \<Rightarrow> bool" where
  "looping s \<longleftrightarrow> lp_pc (t_loop s) = Looping"

definition select :: "('v, 'e) sel \<Rightarrow> ('t, 'v, 'e) Try \<Rightarrow> ('t, 'v, 'e) Try" where
  "select x s = s\<lparr>t_loop := Try_loop (t_combineErrors s) x (t_loop s)\<rparr>"

inductive tstep :: "('t, 'e try_error) tomb_ops \<Rightarrow> ('t, 'v, 'e) Try \<Rightarrow> ('t, 'v, 'e) Try \<Rightarrow> bool" for T where
  call_Start: "tstep T s (s\<lparr>t_tasks := t_tasks s @ [Start_begin s]\<rparr>)"
| take_slot: "i < length (t_tasks s) \<Longrightarrow> t_tasks s ! i = Wait_limiter \<Longrightarrow> t_limiter s = Some (Suc n) \<Longrightarrow>
    tstep T s (s\<lparr>t_limiter := Some n, t_tasks := (t_tasks s)[i := Wait_start]\<rparr>)"
| start_dying: "i < length (t_tasks s) \<Longrightarrow> t_tasks s ! i = Wait_limiter \<or> t_tasks s ! i = Wait_start \<Longrightarrow>
    tomb_Dying T (t_tomb s) \<Longrightarrow> tstep T s (s\<lparr>t_tasks := (t_tasks s)[i := Start_failed ErrStopped]\<rparr>)"
| start_closed: "i < length (t_tasks s) \<Longrightarrow> t_tasks s ! i = Wait_limiter \<or> t_tasks s ! i = Wait_start \<Longrightarrow>
    t_close s \<Longrightarrow> tstep T s (s\<lparr>t_tasks := (t_tasks s)[i := Start_failed ErrClosed]\<rparr>)"
| started: "i < length (t_tasks s) \<Longrightarrow> t_tasks s ! i = Wait_start \<Longrightarrow> looping s \<Longrightarrow>
    tstep T s (select Sel_start (s\<lparr>t_tasks := (t_tasks s)[i := Executing]\<rparr>))"
| try_returns: "i < length (t_tasks s) \<Longrightarrow> t_tasks s ! i = Executing \<Longrightarrow>
    tstep T s (s\<lparr>t_tasks := (t_tasks s)[i := after_try s r]\<rparr>)"
| give_slot: "i < length (t_tasks s) \<Longrightarrow> t_tasks s ! i = Give_slot r \<Longrightarrow> t_limiter s = Some n \<Longrightarrow>
    int n < t_maxParallel s \<Longrightarrow>
    tstep T s (s\<lparr>t_limiter := Some (Suc n), t_tasks := (t_tasks s)[i := Delivering r]\<rparr>)"
| deliver: "i < length (t_tasks s) \<Longrightarrow> t_tasks s ! i = Delivering r \<Longrightarrow> looping s \<Longrightarrow>
    tstep T s (select (Sel_result r)
      (s\<lparr>t_tasks := (t_tasks s)[i := Delivered r], delivered := delivered s @ [r]\<rparr>))"
| discard: "i < length (t_tasks s) \<Longrightarrow> t_tasks s ! i = Delivering r \<Longrightarrow> tomb_Dying T (t_tomb s) \<Longrightarrow>
    tstep T s (s\<lparr>t_tasks := (t_tasks s)[i := discard_result r]\<rparr>)"
| loop_dying: "looping s \<Longrightarrow> tomb_Dying T (t_tomb s) \<Longrightarrow> tstep T s (select Sel_dying s)"
| loop_close: "looping s \<Longrightarrow> lp_close (t_loop s) \<Longrightarrow> t_close s \<Longrightarrow> tstep T s (select Sel_close s)"
| loop_kills: "lp_pc (t_loop s) = Loop_returned v err \<Longrightarrow>
    tstep T s (s\<lparr>t_endResult := v, t_tomb := tomb_Kill T err (t_tomb s), t_loop := (t_loop s)\<lparr>lp_pc := Loop_killed\<rparr>\<rparr>)"
| loop_ends: "lp_pc (t_loop s) = Loop_killed \<Longrightarrow>
    tstep T s (s\<lparr>t_tomb := tomb_Done T (t_tomb s), t_loop := (t_loop s)\<lparr>lp_pc := Loop_done\<rparr>\<rparr>)"
| call_Close: "tstep T s (Try_Close s)"
| call_Kill: "tstep T s (Try_Kill T s)"

inductive treach :: "('t, 'e try_error) tomb_ops \<Rightarrow> int \<Rightarrow> 'e combine option \<Rightarrow> ('t, 'v, 'e) Try \<Rightarrow> bool"
  for T maxParallel combineErrors where
  start: "treach T maxParallel combineErrors (NewTry T maxParallel combineErrors)"
| step: "treach T maxParallel combineErrors s \<Longrightarrow> tstep T s s' \<Longrightarrow> treach T maxParallel combineErrors s'"

subsection \<open>The invariant\<close>

fun slot :: "('v, 'e) task \<Rightarrow> nat" where
  "slot Wait_start = 1"
| "slot Executing = 1"
| "slot (Give_slot r) = 1"
| "slot _ = 0"

fun outstanding :: "('v, 'e) task \<Rightarrow> nat" where
  "outstanding Executing = 1"
| "outstanding (Give_slot r) = 1"
| "outstanding (Delivering r) = 1"
| "outstanding _ = 0"

fun delivery :: "('v, 'e) task \<Rightarrow> ('v, 'e) result multiset" where
  "delivery (Delivered r) = {#r#}"
| "delivery _ = {#}"

definition all_failed :: "('v, 'e) result list \<Rightarrow> bool" where
  "all_failed ds \<longleftrightarrow> (\<forall>r \<in> set ds. res_err r \<noteq> None)"

definition combined :: "'e combine \<Rightarrow> ('v, 'e) result list \<Rightarrow> 'e try_error option" where
  "combined f ds = foldl (\<lambda>err r. f err (res_err r)) None ds"

text \<open>What the loop may return after the deliveries \<open>ds\<close>: the value of the last one when that is a
  success, otherwise no value and the combined error, or \<^verbatim>\<open>ErrStopped\<close> when there is
  no error.\<close>

definition try_outcome :: "'e combine \<Rightarrow> ('v, 'e) result list \<Rightarrow> 'v option \<Rightarrow> 'e try_error option \<Rightarrow> bool" where
  "try_outcome f ds v err \<longleftrightarrow>
     (\<exists>ds' r. ds = ds' @ [r] \<and> all_failed ds' \<and> res_err r = None \<and> v = res_val r \<and> err = None)
     \<or> all_failed ds \<and> v = None
        \<and> (err = combined f ds \<or> combined f ds = None \<and> err = Some ErrStopped)"

definition try_inv :: "('t, 'e try_error) tomb_ops \<Rightarrow> ('t, 'v, 'e) Try \<Rightarrow> bool" where
  "try_inv T s \<longleftrightarrow>
     (case t_limiter s of
        None \<Rightarrow> t_maxParallel s \<le> 0 \<and> (\<forall>r. Give_slot r \<notin> set (t_tasks s))
      | Some n \<Rightarrow> int (n + sum_over slot (t_tasks s)) \<le> t_maxParallel s)
     \<and> sum_over delivery (t_tasks s) = mset (delivered s)
     \<and> (case lp_pc (t_loop s) of
          Looping \<Rightarrow> tomb_Reason T (t_tomb s) = None \<and> \<not> tomb_Dead T (t_tomb s)
            \<and> int (sum_over outstanding (t_tasks s)) \<le> lp_nrunning (t_loop s)
            \<and> (\<not> tomb_Dying T (t_tomb s) \<longrightarrow> lp_nrunning (t_loop s) = int (sum_over outstanding (t_tasks s)))
            \<and> (lp_close (t_loop s) \<or> lp_nrunning (t_loop s) \<noteq> 0)
            \<and> all_failed (delivered s) \<and> lp_err (t_loop s) = combined (t_combineErrors s) (delivered s)
        | Loop_returned v err \<Rightarrow> tomb_Reason T (t_tomb s) = None \<and> \<not> tomb_Dead T (t_tomb s)
            \<and> try_outcome (t_combineErrors s) (delivered s) v err
        | Loop_killed \<Rightarrow> \<not> tomb_Dead T (t_tomb s) \<and> tomb_Dying T (t_tomb s)
            \<and> try_outcome (t_combineErrors s) (delivered s) (t_endResult s) (tomb_Reason T (t_tomb s))
        | Loop_done \<Rightarrow> tomb_Dead T (t_tomb s) \<and> tomb_Dying T (t_tomb s)
            \<and> try_outcome (t_combineErrors s) (delivered s) (t_endResult s) (tomb_Reason T (t_tomb s)))"

subsection \<open>Every step keeps the invariant\<close>

lemma combined_snoc [simp]: "combined f (ds @ [r]) = f (combined f ds) (res_err r)"
  by (simp add: combined_def)

lemma combined_Nil [simp]: "combined f [] = None" "all_failed []"
  by (simp_all add: combined_def all_failed_def)

lemma all_failed_snoc [simp]: "all_failed (ds @ [r]) \<longleftrightarrow> all_failed ds \<and> res_err r \<noteq> None"
  by (auto simp: all_failed_def)

lemma task_sums:
  assumes "i < length ts"
  shows "sum_over slot (ts[i := x]) + slot (ts ! i) = sum_over slot ts + slot x"
    "sum_over outstanding (ts[i := x]) + outstanding (ts ! i) = sum_over outstanding ts + outstanding x"
    "sum_over delivery (ts[i := x]) + delivery (ts ! i) = sum_over delivery ts + delivery x"
  using sum_over_update[OF assms] by blast+

lemma set_list_updateE: "x \<in> set (xs[i := y]) \<Longrightarrow> x = y \<or> x \<in> set xs"
  by (meson set_update_subset_insert insertE subsetD)

text \<open>A task moves on and the loop does not.\<close>

lemma try_inv_task:
  assumes inv: "try_inv T s" and i: "i < length (t_tasks s)"
    and x: "slot x \<le> slot (t_tasks s ! i)" "outstanding x \<le> outstanding (t_tasks s ! i)"
      "outstanding x = outstanding (t_tasks s ! i) \<or> tomb_Dying T (t_tomb s)"
      "delivery x = delivery (t_tasks s ! i)" "\<And>r. x = Give_slot r \<Longrightarrow> t_limiter s \<noteq> None"
  shows "try_inv T (s\<lparr>t_tasks := (t_tasks s)[i := x]\<rparr>)"
  using inv x task_sums[OF i, of x]
  by (auto simp: try_inv_def split: option.splits loop_pc.splits dest!: set_list_updateE)

lemma try_inv_take_slot:
  assumes "try_inv T s" "i < length (t_tasks s)" "t_tasks s ! i = Wait_limiter" "t_limiter s = Some (Suc n)"
  shows "try_inv T (s\<lparr>t_limiter := Some n, t_tasks := (t_tasks s)[i := Wait_start]\<rparr>)"
  using assms task_sums[OF assms(2), of Wait_start] by (auto simp: try_inv_def split: loop_pc.splits)

lemma try_inv_give_slot:
  assumes "try_inv T s" "i < length (t_tasks s)" "t_tasks s ! i = Give_slot r" "t_limiter s = Some n"
  shows "try_inv T (s\<lparr>t_limiter := Some (Suc n), t_tasks := (t_tasks s)[i := Delivering r]\<rparr>)"
  using assms task_sums[OF assms(2), of "Delivering r"] by (auto simp: try_inv_def split: loop_pc.splits)

lemma try_inv_started:
  assumes "try_inv T s" "i < length (t_tasks s)" "t_tasks s ! i = Wait_start" "looping s"
  shows "try_inv T (select Sel_start (s\<lparr>t_tasks := (t_tasks s)[i := Executing]\<rparr>))"
  using assms task_sums[OF assms(2), of Executing]
  by (auto simp: try_inv_def select_def looping_def split: option.splits dest!: set_list_updateE)

lemma try_inv_deliver:
  assumes inv: "try_inv T s" and i: "i < length (t_tasks s)" "t_tasks s ! i = Delivering r" and "looping s"
  shows "try_inv T (select (Sel_result r)
      (s\<lparr>t_tasks := (t_tasks s)[i := Delivered r], delivered := delivered s @ [r]\<rparr>))"
proof -
  note sums = task_sums[OF i(1), of "Delivered r", unfolded i(2)]
  have "\<forall>r'. Give_slot r' \<notin> set ((t_tasks s)[i := Delivered r])" if "\<forall>r'. Give_slot r' \<notin> set (t_tasks s)"
    using that by (auto dest!: set_list_updateE)
  moreover have "sum_over delivery ((t_tasks s)[i := Delivered r]) = mset (delivered s @ [r])"
    using sums(3) inv by (simp add: try_inv_def)
  moreover have "sum_over slot ((t_tasks s)[i := Delivered r]) = sum_over slot (t_tasks s)"
    "sum_over outstanding (t_tasks s) = Suc (sum_over outstanding ((t_tasks s)[i := Delivered r]))"
    using sums by simp_all
  ultimately show ?thesis
    using inv assms(4)
    by (auto simp: try_inv_def select_def looping_def Let_def try_outcome_def split: option.splits)
qed

lemma try_inv_loop_dying: "try_inv T s \<Longrightarrow> looping s \<Longrightarrow> try_inv T (select Sel_dying s)"
  by (auto simp: try_inv_def select_def looping_def try_outcome_def split: option.splits)

lemma try_inv_loop_close: "try_inv T s \<Longrightarrow> looping s \<Longrightarrow> try_inv T (select Sel_close s)"
  by (auto simp: try_inv_def select_def looping_def try_outcome_def Let_def split: option.splits)

lemma try_inv_kills:
  assumes "tomb_laws T" "try_inv T s" "lp_pc (t_loop s) = Loop_returned v err"
  shows "try_inv T (s\<lparr>t_endResult := v, t_tomb := tomb_Kill T err (t_tomb s), t_loop := (t_loop s)\<lparr>lp_pc := Loop_killed\<rparr>\<rparr>)"
  using assms(2,3) by (cases "t_limiter s") (simp_all add: try_inv_def tomb_lawsD[OF assms(1)])

lemma try_inv_ends:
  assumes "tomb_laws T" "try_inv T s" "lp_pc (t_loop s) = Loop_killed"
  shows "try_inv T (s\<lparr>t_tomb := tomb_Done T (t_tomb s), t_loop := (t_loop s)\<lparr>lp_pc := Loop_done\<rparr>\<rparr>)"
  using assms(2,3) by (cases "t_limiter s") (simp_all add: try_inv_def tomb_lawsD[OF assms(1)])

lemma try_inv_Kill:
  assumes "tomb_laws T" "try_inv T s"
  shows "try_inv T (Try_Kill T s)"
  using assms(2)
  by (cases "t_limiter s"; cases "lp_pc (t_loop s)") (simp_all add: try_inv_def Try_Kill_def tomb_lawsD[OF assms(1)])

lemma try_inv_tstep:
  assumes "tomb_laws T" "tstep T s s'" "try_inv T s"
  shows "try_inv T s'"
  using assms(2)
proof cases
  case (try_returns i r)
  show ?thesis unfolding try_returns(1)
    by (rule try_inv_task[OF assms(3) try_returns(2)]) (auto simp: after_try_def try_returns(3) split: if_splits)
next
  case call_Start
  then show ?thesis using assms(3)
    by (cases "t_limiter s"; cases "lp_pc (t_loop s)") (simp_all add: try_inv_def Start_begin_def)
next
  case call_Close
  then show ?thesis using assms(3)
    by (cases "t_limiter s"; cases "lp_pc (t_loop s)") (simp_all add: try_inv_def Try_Close_def)
next
  case (discard i r)
  show ?thesis unfolding discard(1)
    by (rule try_inv_task[OF assms(3) discard(2)]) (auto simp: discard_result_def discard(3,4) split: if_splits)
next
  case (take_slot i n)
  then show ?thesis using try_inv_take_slot[OF assms(3)] by simp
next
  case (start_dying i)
  then show ?thesis using try_inv_task[OF assms(3) start_dying(2), of "Start_failed ErrStopped"] by auto
next
  case (start_closed i)
  then show ?thesis using try_inv_task[OF assms(3) start_closed(2), of "Start_failed ErrClosed"] by auto
next
  case (started i)
  then show ?thesis using try_inv_started[OF assms(3)] by simp
next
  case (give_slot i r n)
  then show ?thesis using try_inv_give_slot[OF assms(3)] by simp
next
  case (deliver i r)
  then show ?thesis using try_inv_deliver[OF assms(3)] by simp
qed (use try_inv_loop_dying[OF assms(3)] try_inv_loop_close[OF assms(3)] try_inv_kills[OF assms(1,3)]
    try_inv_ends[OF assms(1,3)] try_inv_Kill[OF assms(1,3)] in simp_all)

lemma treach_inv:
  assumes "tomb_laws T" "treach T maxParallel combineErrors s"
  shows "try_inv T s" "t_maxParallel s = maxParallel"
    "t_combineErrors s = (case combineErrors of None \<Rightarrow> chooseLastError | Some f \<Rightarrow> f)"
proof -
  have "try_inv T s \<and> t_maxParallel s = maxParallel
      \<and> t_combineErrors s = (case combineErrors of None \<Rightarrow> chooseLastError | Some f \<Rightarrow> f)"
    using assms(2)
  proof induction
    case start
    then show ?case using assms(1) by (auto simp: NewTry_def try_inv_def tomb_laws_def)
  next
    case (step s s')
    moreover have "t_maxParallel s' = t_maxParallel s \<and> t_combineErrors s' = t_combineErrors s"
      using step.hyps(2) by cases (auto simp: select_def Try_Close_def Try_Kill_def)
    ultimately show ?case using try_inv_tstep[OF assms(1)] by metis
  qed
  then show "try_inv T s" "t_maxParallel s = maxParallel"
    "t_combineErrors s = (case combineErrors of None \<Rightarrow> chooseLastError | Some f \<Rightarrow> f)" by blast+
qed

lemma Try_Result_done:
  assumes "try_inv T s" "Try_Result T s = Some (v, err)"
  shows "lp_pc (t_loop s) = Loop_done" "tomb_Dying T (t_tomb s)" "try_outcome (t_combineErrors s) (delivered s) v err"
proof -
  have dead: "tomb_Dead T (t_tomb s)" "v = t_endResult s" "err = tomb_Reason T (t_tomb s)"
    using assms(2) by (auto simp: Try_Result_def Try_Wait_def tomb_Wait_def split: if_splits)
  then show pc: "lp_pc (t_loop s) = Loop_done" using assms(1) by (cases "lp_pc (t_loop s)") (auto simp: try_inv_def)
  show "tomb_Dying T (t_tomb s)" "try_outcome (t_combineErrors s) (delivered s) v err"
    using assms(1) dead pc by (simp_all add: try_inv_def)
qed

lemma executing_slots: "length (filter (\<lambda>t. t = Executing) ts) \<le> sum_over slot ts"
  by (induction ts) auto

lemma all_failed_no_success: "all_failed ds \<Longrightarrow> filter_mset (\<lambda>r. res_err r = None) (mset ds) = {#}"
  by (induction ds) (auto simp: all_failed_def)

subsection \<open>Properties\<close>


text \<open>(C17) With a positive \<^verbatim>\<open>maxParallel\<close> no more functions execute at once than that, and a
  function that has returned never blocks when it gives its slot back.\<close>

theorem Try_parallel_limit:
  assumes "tomb_laws T" "treach T maxParallel combineErrors s" "0 < maxParallel"
  shows "int (length (filter (\<lambda>t. t = Executing) (t_tasks s))) \<le> maxParallel
    \<and> (\<forall>r. Give_slot r \<in> set (t_tasks s) \<longrightarrow> (\<exists>n. t_limiter s = Some n \<and> int n < maxParallel))"
proof -
  note inv = treach_inv[OF assms(1,2)]
  obtain n where n: "t_limiter s = Some n" "int (n + sum_over slot (t_tasks s)) \<le> maxParallel"
    using inv assms(3) by (cases "t_limiter s") (auto simp: try_inv_def)
  have "int (length (filter (\<lambda>t. t = Executing) (t_tasks s))) \<le> maxParallel"
    using executing_slots[of "t_tasks s"] n(2) by linarith
  moreover have "\<exists>n. t_limiter s = Some n \<and> int n < maxParallel" if "Give_slot r \<in> set (t_tasks s)" for r
    using sum_over_member_le[OF that, of slot] n by simp
  ultimately show ?thesis by blast
qed


text \<open>A closed Try with no function outstanding is not stuck: its loop can return.\<close>

theorem Try_closed_finishes:
  assumes "tomb_laws T" "treach T maxParallel combineErrors s" "looping s" "t_close s"
    and "sum_over outstanding (t_tasks s) = 0"
  shows "\<exists>s'. tstep T s s' \<and> \<not> looping s'"
proof (cases "tomb_Dying T (t_tomb s)")
  case True
  have "tstep T s (select Sel_dying s)" using assms(3) True by (rule tstep.loop_dying)
  moreover have "\<not> looping (select Sel_dying s)" by (simp add: looping_def select_def)
  ultimately show ?thesis by blast
next
  case False
  then have n: "lp_nrunning (t_loop s) = 0" "lp_close (t_loop s)"
    using treach_inv(1)[OF assms(1,2)] assms(3,5) by (auto simp: try_inv_def looping_def)
  have "tstep T s (select Sel_close s)" using assms(3) n(2) assms(4) by (rule tstep.loop_close)
  moreover have "\<not> looping (select Sel_close s)" using n by (simp add: looping_def select_def Let_def)
  ultimately show ?thesis by blast
qed

subsection \<open>Two runs that the documentation excludes\<close>

text \<open>A run of a Try with no limit, by the states it passes through.\<close>

definition demo_state ::
  "'t \<Rightarrow> bool \<Rightarrow> ('v, 'e) loop \<Rightarrow> ('v, 'e) task list \<Rightarrow> ('t, 'v, 'e) Try" where
  "demo_state tmb c l ts =
     \<lparr>t_tomb = tmb, t_close = c, t_limiter = None, t_combineErrors = chooseLastError, t_maxParallel = 0,
      t_endResult = None, t_loop = l, t_tasks = ts, delivered = []\<rparr>"

definition demo_loop :: "bool \<Rightarrow> int \<Rightarrow> ('v, 'e) loop_pc \<Rightarrow> ('v, 'e) loop" where
  "demo_loop c n p = \<lparr>lp_err = None, lp_close = c, lp_nrunning = n, lp_pc = p\<rparr>"

lemmas demo_simps = demo_state_def demo_loop_def select_def looping_def Let_def

lemma demo_start: "treach T 0 None (demo_state (tomb_new T) False (demo_loop True 0 Looping) [])"
  using treach.start[of T 0 None] by (simp add: NewTry_def demo_simps)

lemma demo_closed:
  assumes "treach T 0 None (demo_state tmb False l ts)"
  shows "treach T 0 None (demo_state tmb True l ts)"
  using treach.step[OF assms tstep.call_Close] by (simp add: demo_simps Try_Close_def)

lemma demo_call_Start: "tstep T (demo_state tmb c l ts) (demo_state tmb c l (ts @ [Wait_start]))"
  using tstep.call_Start[of T "demo_state tmb c l ts"] by (simp add: demo_simps Start_begin_def)

lemma demo_started:
  "tstep T (demo_state tmb c (demo_loop k n Looping) (ts @ [Wait_start]))
     (demo_state tmb c (demo_loop k (n + 1) Looping) (ts @ [Executing]))"
  using tstep.started[of "length ts" "demo_state tmb c (demo_loop k n Looping) (ts @ [Wait_start])" T]
  by (simp add: demo_simps)

lemma demo_one_executing:
  "treach T 0 None (demo_state (tomb_new T) True (demo_loop True 1 Looping) [Executing])"
  using demo_closed[OF treach.step[OF treach.step[OF demo_start demo_call_Start] demo_started[where ts = "[]"]]]
  by simp

text \<open>A call of \<^verbatim>\<open>Start\<close> that comes after \<^verbatim>\<open>Close\<close> may start its function: while
  another function is outstanding the loop still receives from the start channel, and the select of
  \<^verbatim>\<open>Start\<close> may choose either case.\<close>

theorem Start_after_Close_starts:
  "\<exists>s s1 s2 :: ('t, 'v, 'e) Try. treach T 0 None s \<and> t_close s
     \<and> tstep T s s1 \<and> t_tasks s1 = t_tasks s @ [Start_begin s]
     \<and> tstep T s1 s2 \<and> t_tasks s2 = t_tasks s @ [Executing]"
proof (intro exI conjI)
  show "treach T 0 None (demo_state (tomb_new T) True (demo_loop True 1 Looping) [Executing])"
    by (rule demo_one_executing)
  show "tstep T (demo_state (tomb_new T) True (demo_loop True 1 Looping) [Executing])
      (demo_state (tomb_new T) True (demo_loop True 1 Looping) ([Executing] @ [Wait_start]))"
    by (rule demo_call_Start)
  show "tstep T (demo_state (tomb_new T) True (demo_loop True 1 Looping) ([Executing] @ [Wait_start]))
      (demo_state (tomb_new T) True (demo_loop True (1 + 1) Looping) ([Executing] @ [Executing]))"
    by (rule demo_started)
qed (simp_all add: demo_state_def Start_begin_def)

lemma demo_loop_returned:
  "treach T 0 None (demo_state (tomb_new T) True (demo_loop False 0 (Loop_returned None None)) [])"
  using treach.step[OF demo_closed[OF demo_start] tstep.loop_close] by (simp add: demo_simps)

lemma demo_loop_done:
  "treach T 0 None (demo_state (tomb_Done T (tomb_Kill T None (tomb_new T))) True (demo_loop False 0 Loop_done) [])"
proof -
  have "treach T 0 None (demo_state (tomb_Kill T None (tomb_new T)) True (demo_loop False 0 Loop_killed) [])"
    using treach.step[OF demo_loop_returned tstep.loop_kills[of _ None None]] by (simp add: demo_simps)
  from treach.step[OF this tstep.loop_ends] show ?thesis by (simp add: demo_simps)
qed

text \<open>A Try that is closed before any function is started ends with no value and no error:
  \<^verbatim>\<open>Result\<close> does not return \<^verbatim>\<open>ErrStopped\<close>.\<close>

theorem Result_of_unused_Try:
  assumes "tomb_laws (T :: ('t, 'e try_error) tomb_ops)"
  shows "\<exists>s :: ('t, 'v, 'e) Try. treach T 0 None s \<and> t_tasks s = [] \<and> Try_Result T s = Some (None, None)"
proof (intro exI conjI)
  show "treach T 0 None (demo_state (tomb_Done T (tomb_Kill T None (tomb_new T))) True (demo_loop False 0 Loop_done) [])"
    by (rule demo_loop_done)
  have "tomb_Reason T (tomb_new T) = None" using assms by (simp add: tomb_laws_def)
  then show "Try_Result T (demo_state (tomb_Done T (tomb_Kill T None (tomb_new T))) True (demo_loop False 0 Loop_done) [])
      = Some (None, None)"
    by (simp add: Try_Result_def Try_Wait_def tomb_Wait_def tomb_lawsD[OF assms] demo_simps)
qed (simp add: demo_state_def)

subsection \<open>Witnesses\<close>

definition try_tomb :: "(bool \<times> bool \<times> string try_error option, string try_error) tomb_ops" where
  "try_tomb = demo_tomb (Failed ''still alive'')"

lemma try_tomb_laws: "tomb_laws try_tomb"
  by (simp add: try_tomb_def demo_tomb_laws)

type_synonym demo_try = "(bool \<times> bool \<times> string try_error option, nat, string) Try"

text \<open>One function executes with a limit of one.\<close>

lemma demo_limited:
  "\<exists>s :: demo_try. treach try_tomb 1 None s \<and> t_tasks s = [Executing] \<and> t_limiter s = Some 0 \<and> looping s
     \<and> t_tomb s = tomb_new try_tomb"
proof -
  let ?s0 = "NewTry try_tomb 1 None :: demo_try"
  have "treach try_tomb 1 None (?s0\<lparr>t_tasks := [Wait_limiter]\<rparr>)"
    using treach.step[OF treach.start[of try_tomb 1 None] tstep.call_Start] by (simp add: NewTry_def Start_begin_def)
  from treach.step[OF this tstep.take_slot[of 0 _ 0]]
  have "treach try_tomb 1 None (?s0\<lparr>t_limiter := Some 0, t_tasks := [Wait_start]\<rparr>)" by (simp add: NewTry_def)
  from treach.step[OF this tstep.started[of 0]]
  have "treach try_tomb 1 None (select Sel_start (?s0\<lparr>t_limiter := Some 0, t_tasks := [Executing]\<rparr>))"
    by (simp add: NewTry_def looping_def select_def)
  then show ?thesis
    by (intro exI[of _ "select Sel_start (?s0\<lparr>t_limiter := Some 0, t_tasks := [Executing]\<rparr>)"])
      (simp add: NewTry_def looping_def select_def)
qed

text \<open>The function returns a value, which is delivered, and the Try ends.\<close>

lemma demo_success:
  "\<exists>s :: demo_try. treach try_tomb 0 None s \<and> t_tasks s = [Delivered \<lparr>res_val = Some 5, res_err = None\<rparr>]
     \<and> Try_Result try_tomb s = Some (Some 5, None)"
proof -
  let ?r = "\<lparr>res_val = Some 5, res_err = None\<rparr> :: (nat, string) result"
  let ?s0 = "demo_state (tomb_new try_tomb) True (demo_loop True 1 Looping) [Executing] :: demo_try"
  have "treach try_tomb 0 None (?s0\<lparr>t_tasks := [Delivering ?r]\<rparr>)"
    using treach.step[OF demo_one_executing tstep.try_returns[of 0 _ _ ?r]] by (simp add: demo_simps after_try_def)
  from treach.step[OF this tstep.deliver[of 0 _ ?r]]
  have "treach try_tomb 0 None (?s0\<lparr>t_tasks := [Delivered ?r], delivered := [?r],
      t_loop := demo_loop True 1 (Loop_returned (Some 5) None)\<rparr>)"
    by (simp add: demo_simps)
  from treach.step[OF this tstep.loop_kills[of _ "Some 5" None]]
  have "treach try_tomb 0 None (?s0\<lparr>t_tasks := [Delivered ?r], delivered := [?r], t_endResult := Some 5,
      t_tomb := (True, False, None), t_loop := demo_loop True 1 Loop_killed\<rparr>)"
    by (simp add: demo_simps try_tomb_def demo_tomb_def)
  from treach.step[OF this tstep.loop_ends]
  have "treach try_tomb 0 None (?s0\<lparr>t_tasks := [Delivered ?r], delivered := [?r], t_endResult := Some 5,
      t_tomb := (True, True, None), t_loop := demo_loop True 1 Loop_done\<rparr>)" (is "treach _ _ _ ?s")
    by (simp add: demo_simps try_tomb_def demo_tomb_def)
  then show ?thesis by (intro exI[of _ ?s]) (simp add: demo_simps try_tomb_def demo_tomb_def Try_Result_def Try_Wait_def tomb_Wait_def)
qed


theorem Try_parallel_limit_witness:
  "\<exists>s :: demo_try. treach try_tomb 1 None s \<and> length (filter (\<lambda>t. t = Executing) (t_tasks s)) = 1"
proof -
  from demo_limited obtain s :: demo_try where s: "treach try_tomb 1 None s" "t_tasks s = [Executing]" by blast
  from Try_parallel_limit[OF try_tomb_laws s(1)] show ?thesis using s by (intro exI[of _ s]) simp
qed


theorem Try_closed_finishes_witness:
  "\<exists>(s :: demo_try) s'. treach try_tomb 0 None s \<and> t_close s \<and> looping s \<and> tstep try_tomb s s' \<and> \<not> looping s'"
proof -
  let ?s = "demo_state (tomb_new try_tomb) True (demo_loop True 0 Looping) [] :: demo_try"
  have r: "treach try_tomb 0 None ?s" by (rule demo_closed[OF demo_start])
  have c: "looping ?s" "t_close ?s" "sum_over outstanding (t_tasks ?s) = 0" by (simp_all add: demo_simps)
  from Try_closed_finishes[OF try_tomb_laws r c] show ?thesis using r c by blast
qed

theorem Result_of_unused_Try_witness:
  "tomb_laws try_tomb \<and> (\<exists>s :: demo_try. treach try_tomb 0 None s \<and> Try_Result try_tomb s = Some (None, None))"
  using Result_of_unused_Try[OF try_tomb_laws] try_tomb_laws by blast

end
