(* ===== verification/Tailer.thy ===== *)
theory Tailer
  imports Prelude
begin

text \<open>
  The package \<^verbatim>\<open>tailer\<close> (\<^verbatim>\<open>src/tailer/tailer.go\<close>): positioning a file on its last
  lines, and copying the lines that are appended to it. A ReadSeeker is the content of the file and
  the read position; \<open>io_fail\<close> is the error, if any, of the seek and read at a given position. Bytes
  are characters, offsets are natural numbers.
\<close>

type_synonym filterFunc = "(string \<Rightarrow> bool) option"

definition delimiter :: char where
  "delimiter = CHR 0x0A"

definition passes :: "filterFunc \<Rightarrow> string \<Rightarrow> bool" where
  "passes flt line = (case flt of None \<Rightarrow> True | Some f \<Rightarrow> f line)"

text \<open>\<^verbatim>\<open>bytes.LastIndex\<close> of the delimiter; \<^const>\<open>None\<close> for -1.\<close>

fun bytes_LastIndex :: "string \<Rightarrow> nat option" where
  "bytes_LastIndex [] = None"
| "bytes_LastIndex (c # s) =
     (case bytes_LastIndex s of Some i \<Rightarrow> Some (Suc i) | None \<Rightarrow> if c = delimiter then Some 0 else None)"

lemma bytes_LastIndex_None: "bytes_LastIndex s = None \<longleftrightarrow> delimiter \<notin> set s"
  by (induction s) (auto split: option.splits)

lemma bytes_LastIndex_Some:
  "bytes_LastIndex s = Some i \<Longrightarrow>
   \<exists>xs ys. s = xs @ delimiter # ys \<and> delimiter \<notin> set ys \<and> length xs = i"
proof (induction s arbitrary: i)
  case (Cons c s)
  show ?case
  proof (cases "bytes_LastIndex s")
    case None
    then have "c = delimiter \<and> i = 0" using Cons.prems by (simp split: if_splits)
    then show ?thesis using None by (intro exI[of _ "[]"] exI[of _ s]) (simp add: bytes_LastIndex_None)
  next
    case (Some j)
    then obtain xs ys where "s = xs @ delimiter # ys" "delimiter \<notin> set ys" "length xs = j"
      using Cons.IH by blast
    with Some Cons.prems show ?thesis by (intro exI[of _ "c # xs"] exI[of _ ys]) auto
  qed
qed simp

lemma bytes_LastIndex_less: "bytes_LastIndex s = Some i \<Longrightarrow> i < length s"
  using bytes_LastIndex_Some by fastforce

subsection \<open>SeekLastLines\<close>

text \<open>The inner loop: the position that was found, or the end of the line that is left in the
  buffer and the number of lines found.\<close>

function scan_lines ::
  "filterFunc \<Rightarrow> nat \<Rightarrow> nat \<Rightarrow> string \<Rightarrow> nat \<Rightarrow> nat \<Rightarrow> nat + (nat \<times> nat)" where
  "scan_lines flt lines offset buffer stop found =
     (case bytes_LastIndex (take (stop - 1) buffer) of
        None \<Rightarrow> Inr (stop, found)
      | Some i \<Rightarrow>
          let start = i + 1 in
          if passes flt (drop start (take stop buffer)) then
            (let found' = found + 1 in
             if found' \<ge> lines then Inl (offset + start)
             else scan_lines flt lines offset buffer start found')
          else scan_lines flt lines offset buffer start found)"
  by pat_completeness auto

termination
  by (relation "measure (\<lambda>(flt, lines, offset, buffer, stop, found). stop)")
    (auto dest!: bytes_LastIndex_less)

declare scan_lines.simps [simp del]

text \<open>
  The outer loop. \<open>buffer\<close> is the content of the buffer and \<open>bcap\<close> its capacity: the copy towards
  the end of the buffer and the read before it put the chunk that was read in front of the rest. The
  loop need not end when the buffer has no room; \<^const>\<open>None\<close> is not returning.
\<close>

definition grow :: "nat \<Rightarrow> nat \<Rightarrow> nat \<Rightarrow> nat" where
  "grow bufferSize bcap blen = (if bcap - blen < bufferSize then bcap * 2 else bcap)"

partial_function (option) seek_loop ::
  "nat \<Rightarrow> filterFunc \<Rightarrow> nat \<Rightarrow> (nat \<Rightarrow> 'err option) \<Rightarrow> string \<Rightarrow> nat \<Rightarrow> nat \<Rightarrow> string \<Rightarrow> nat \<Rightarrow> ('err + nat) option"
where
  "seek_loop bufferSize flt lines io_fail content offset bcap buffer found =
     (if offset = 0 then Some (Inr 0)
      else
        (let bcap' = grow bufferSize bcap (length buffer);
             space = min (bcap' - length buffer) offset;
             offset' = offset - space
         in case io_fail offset' of
              Some err \<Rightarrow> Some (Inl err)
            | None \<Rightarrow>
                (let buffer' = take space (drop offset' content) @ buffer
                 in case bytes_LastIndex buffer' of
                      None \<Rightarrow> seek_loop bufferSize flt lines io_fail content offset' bcap' [] found
                    | Some i \<Rightarrow>
                        (case scan_lines flt lines offset' buffer' (i + 1) found of
                           Inl seekPos \<Rightarrow> Some (Inr seekPos)
                         | Inr (stop, found') \<Rightarrow>
                             seek_loop bufferSize flt lines io_fail content offset' bcap' (take stop buffer') found'))))"

text \<open>The value is the position the ReadSeeker is left at.\<close>

definition SeekLastLines ::
  "nat \<Rightarrow> string \<Rightarrow> (nat \<Rightarrow> 'err option) \<Rightarrow> nat \<Rightarrow> filterFunc \<Rightarrow> ('err + nat) option" where
  "SeekLastLines bufferSize content io_fail lines flt =
     (let offset = length content in
      case io_fail offset of
        Some err \<Rightarrow> Some (Inl err)
      | None \<Rightarrow>
          if lines = 0 then Some (Inr offset)
          else seek_loop bufferSize flt lines io_fail content offset bufferSize
                 (replicate bufferSize (CHR 0x00)) 0)"

subsection \<open>The lines of a file\<close>

text \<open>The complete lines of a text with the position each starts at.\<close>

function lines_from :: "nat \<Rightarrow> string \<Rightarrow> (nat \<times> string) list" where
  "lines_from p s =
     (case dropWhile (\<lambda>c. c \<noteq> delimiter) s of
        [] \<Rightarrow> []
      | c # rest \<Rightarrow>
          (let line = takeWhile (\<lambda>c. c \<noteq> delimiter) s @ [delimiter]
           in (p, line) # lines_from (p + length line) rest))"
  by pat_completeness auto

termination
proof (relation "measure (\<lambda>(p, s). length s)")
  fix s rest :: string and c
  assume "dropWhile (\<lambda>c. c \<noteq> delimiter) s = c # rest"
  then have "length (c # rest) \<le> length s" by (metis length_dropWhile_le)
  then show "((p + length line, rest), (p, s)) \<in> measure (\<lambda>(p, s). length s)" for p line by simp
qed auto

declare lines_from.simps [simp del]

lemma lines_from_none: "delimiter \<notin> set s \<Longrightarrow> lines_from p s = []"
proof -
  assume "delimiter \<notin> set s"
  then have "dropWhile (\<lambda>c. c \<noteq> delimiter) s = []" by (induction s) auto
  then show ?thesis by (subst lines_from.simps) (simp only: list.case)
qed

lemma lines_from_line:
  "delimiter \<notin> set l \<Longrightarrow>
   lines_from p (l @ delimiter # s) = (p, l @ [delimiter]) # lines_from (p + length l + 1) s"
proof -
  assume l: "delimiter \<notin> set l"
  have "dropWhile (\<lambda>c. c \<noteq> delimiter) (l @ delimiter # s) = delimiter # s"
    "takeWhile (\<lambda>c. c \<noteq> delimiter) (l @ delimiter # s) = l"
    using l by (induction l) auto
  then show ?thesis by (subst lines_from.simps) (simp add: Let_def)
qed

text \<open>Texts that end at a line boundary.\<close>

definition closed_text :: "string \<Rightarrow> bool" where
  "closed_text s \<longleftrightarrow> s = [] \<or> last s = delimiter"

lemma lines_induct [case_names none line]:
  assumes "\<And>p s. delimiter \<notin> set s \<Longrightarrow> P p s"
    and "\<And>p l s. delimiter \<notin> set l \<Longrightarrow> P (p + length l + 1) s \<Longrightarrow> P p (l @ delimiter # s)"
  shows "P p s"
proof (induction "length s" arbitrary: p s rule: less_induct)
  case less
  show ?case
  proof (cases "delimiter \<in> set s")
    case True
    then obtain l r where s: "s = l @ delimiter # r" "delimiter \<notin> set l" by (meson split_list_first)
    then show ?thesis using assms(2)[OF s(2)] less[of r "p + length l + 1"] by simp
  qed (use assms(1) in simp)
qed

lemma lines_from_append:
  "closed_text s \<Longrightarrow> lines_from p (s @ t) = lines_from p s @ lines_from (p + length s) t"
proof (induction p s rule: lines_induct)
  case (none p s)
  then have "s = []" by (auto simp: closed_text_def) (metis last_in_set)
  then show ?case by (simp add: lines_from_none)
next
  case (line p l s)
  then have "closed_text s" by (auto simp: closed_text_def split: if_splits)
  then show ?case using line lines_from_line[of l p "s @ t"] lines_from_line[of l p s]
    by (simp add: add.assoc)
qed

lemma lines_from_snoc:
  "closed_text s \<Longrightarrow> delimiter \<notin> set l \<Longrightarrow>
   lines_from p (s @ l @ [delimiter]) = lines_from p s @ [(p + length s, l @ [delimiter])]"
  using lines_from_append[of s p "l @ [delimiter]"] lines_from_line[of l _ "[]"] by (simp add: lines_from_none)

lemma lines_from_open: "closed_text s \<Longrightarrow> delimiter \<notin> set t \<Longrightarrow> lines_from p (s @ t) = lines_from p s"
  by (simp add: lines_from_append lines_from_none)

text \<open>The lines that pass the filter, and where the \<open>k\<close>-th last of them starts.\<close>

definition matching :: "filterFunc \<Rightarrow> string \<Rightarrow> (nat \<times> string) list" where
  "matching flt s = filter (\<lambda>pl. passes flt (snd pl)) (lines_from 0 s)"

definition nth_last :: "nat \<Rightarrow> (nat \<times> string) list \<Rightarrow> nat" where
  "nth_last k ms = (if k \<le> length ms then fst (ms ! (length ms - k)) else 0)"

lemma nth_last_snoc:
  "0 < k \<Longrightarrow> nth_last k (ms @ [x]) = (if k = 1 then fst x else nth_last (k - 1) ms)"
  by (auto simp: nth_last_def nth_append)

lemma matching_snoc:
  "closed_text s \<Longrightarrow> delimiter \<notin> set l \<Longrightarrow>
   matching flt (s @ l @ [delimiter]) =
     matching flt s @ (if passes flt (l @ [delimiter]) then [(length s, l @ [delimiter])] else [])"
  by (simp add: matching_def lines_from_snoc)

text \<open>One look backwards for the start of a line.\<close>

lemma scan_split:
  assumes "bytes_LastIndex (take (stop - 1) b) = Some i" "1 \<le> stop" "stop \<le> length b" "b ! (stop - 1) = delimiter"
  shows "\<exists>l. take stop b = take (i + 1) b @ l @ [delimiter] \<and> delimiter \<notin> set l
    \<and> drop (i + 1) (take stop b) = l @ [delimiter] \<and> b ! i = delimiter \<and> i + 1 < stop"
proof -
  obtain xs l where x: "take (stop - 1) b = xs @ delimiter # l" "delimiter \<notin> set l" "length xs = i"
    using bytes_LastIndex_Some[OF assms(1)] by blast
  have "take stop b = take (stop - 1) b @ [delimiter]"
    using assms(2-4) take_Suc_conv_app_nth[of "stop - 1" b] by simp
  with x have t: "take stop b = xs @ delimiter # l @ [delimiter]" by simp
  have i: "i + 1 < stop" using bytes_LastIndex_less[OF assms(1)] by auto
  have "take (i + 1) b = take (i + 1) (take stop b)" using i by (simp add: min_def)
  also have "\<dots> = xs @ [delimiter]" unfolding t using x(3) by simp
  finally have pre: "take (i + 1) b = xs @ [delimiter]" .
  have "b ! i = take stop b ! i" using i by simp
  then have "b ! i = delimiter" unfolding t using x(3) by (simp add: nth_append)
  moreover have "drop (i + 1) (take stop b) = l @ [delimiter]" unfolding t using x(3) by simp
  ultimately show ?thesis using t pre x(2) i by auto
qed

lemma closed_text_take:
  assumes "0 < stop" "stop \<le> length b" "b ! (stop - 1) = delimiter"
  shows "closed_text (pre @ take stop b)"
proof -
  have "take stop b = take (stop - 1) b @ [delimiter]" using assms take_Suc_conv_app_nth[of "stop - 1" b] by simp
  then show ?thesis by (simp add: closed_text_def)
qed

definition scan_ok :: "filterFunc \<Rightarrow> nat \<Rightarrow> string \<Rightarrow> string \<Rightarrow> nat \<Rightarrow> nat \<Rightarrow> nat + (nat \<times> nat) \<Rightarrow> bool" where
  "scan_ok flt lines pre b stop found r \<longleftrightarrow>
     (case r of
        Inl pos \<Rightarrow> nth_last (lines - found) (matching flt (pre @ take stop b)) = pos
      | Inr (stop', found') \<Rightarrow>
          1 \<le> stop' \<and> stop' \<le> stop \<and> b ! (stop' - 1) = delimiter \<and> delimiter \<notin> set (take (stop' - 1) b)
          \<and> found' < lines
          \<and> nth_last (lines - found) (matching flt (pre @ take stop b))
            = nth_last (lines - found') (matching flt (pre @ take stop' b)))"

lemma scan_lines_correct:
  assumes "1 \<le> stop" "stop \<le> length b" "b ! (stop - 1) = delimiter" "found < lines"
  shows "scan_ok flt lines pre b stop found (scan_lines flt lines (length pre) b stop found)"
  using assms
proof (induction stop arbitrary: found rule: less_induct)
  case (less stop)
  show ?case
  proof (cases "bytes_LastIndex (take (stop - 1) b)")
    case None
    then have "scan_lines flt lines (length pre) b stop found = Inr (stop, found)"
      by (subst scan_lines.simps) simp
    moreover have "delimiter \<notin> set (take (stop - 1) b)" using None by (simp only: bytes_LastIndex_None simp_thms)
    ultimately show ?thesis using less.prems by (simp add: scan_ok_def)
  next
    case (Some i)
    obtain l where l: "take stop b = take (i + 1) b @ l @ [delimiter]" "delimiter \<notin> set l"
      "drop (i + 1) (take stop b) = l @ [delimiter]" "b ! i = delimiter" "i + 1 < stop"
      using scan_split[OF Some less.prems(1-3)] by blast
    have closed: "closed_text (pre @ take (i + 1) b)"
      using l(4,5) less.prems(2) by (intro closed_text_take) auto
    have len: "length (pre @ take (i + 1) b) = length pre + (i + 1)" using l(5) less.prems(2) by simp
    have m: "matching flt (pre @ take stop b) = matching flt (pre @ take (i + 1) b)
        @ (if passes flt (l @ [delimiter]) then [(length pre + (i + 1), l @ [delimiter])] else [])"
      using matching_snoc[OF closed l(2), of flt] unfolding l(1) len by simp
    have rec: "scan_ok flt lines pre b (i + 1) f (scan_lines flt lines (length pre) b (i + 1) f)" if "f < lines" for f
      using less.IH[OF l(5) _ _ _ that] l(4,5) less.prems(2) by simp
    note unfold = scan_lines.simps[of flt lines "length pre" b stop found]
    show ?thesis
    proof (cases "passes flt (l @ [delimiter])")
      case False
      then have "scan_lines flt lines (length pre) b stop found = scan_lines flt lines (length pre) b (i + 1) found"
        unfolding unfold using Some l(3) by simp
      moreover have "matching flt (pre @ take stop b) = matching flt (pre @ take (i + 1) b)" using m False by simp
      ultimately show ?thesis using rec[OF less.prems(4)] l(5)
        by (auto simp: scan_ok_def split: sum.splits)
    next
      case True
      have nth: "nth_last (lines - found) (matching flt (pre @ take stop b)) =
          (if lines - found = 1 then length pre + (i + 1) else nth_last (lines - found - 1) (matching flt (pre @ take (i + 1) b)))"
        using nth_last_snoc[of "lines - found"] m True less.prems(4) by simp
      show ?thesis
      proof (cases "found + 1 \<ge> lines")
        case True
        with \<open>passes flt (l @ [delimiter])\<close> have "scan_lines flt lines (length pre) b stop found = Inl (length pre + (i + 1))"
          unfolding unfold using Some l(3) by simp
        moreover have "lines - found = 1" using True less.prems(4) by simp
        ultimately show ?thesis using nth by (simp add: scan_ok_def)
      next
        case False
        with \<open>passes flt (l @ [delimiter])\<close> have "scan_lines flt lines (length pre) b stop found
            = scan_lines flt lines (length pre) b (i + 1) (found + 1)"
          unfolding unfold using Some l(3) by simp
        then show ?thesis using nth rec[of "found + 1"] False l(5)
          by (auto simp: scan_ok_def split: sum.splits)
      qed
    qed
  qed
qed

definition seek_inv :: "filterFunc \<Rightarrow> nat \<Rightarrow> string \<Rightarrow> nat \<Rightarrow> string \<Rightarrow> nat \<Rightarrow> bool" where
  "seek_inv flt lines content offset buffer found \<longleftrightarrow>
     offset \<le> length content \<and> found < lines
     \<and> (found = 0 \<and> delimiter \<notin> set buffer \<and> delimiter \<notin> set (drop offset content)
        \<or> buffer \<noteq> [] \<and> last buffer = delimiter \<and> delimiter \<notin> set (butlast buffer)
          \<and> buffer = take (length buffer) (drop offset content)
          \<and> nth_last lines (matching flt content)
            = nth_last (lines - found) (matching flt (take offset content @ buffer)))"

lemma unended_text: "delimiter \<notin> set s \<Longrightarrow> s = [] \<or> last s \<noteq> delimiter"
  by (metis last_in_set)

text \<open>After a chunk is read.\<close>

lemma seek_inv_read:
  assumes inv: "seek_inv flt lines content offset buffer found" and sp: "space \<le> offset"
    and some: "bytes_LastIndex (take space (drop (offset - space) content) @ buffer) = Some i"
  defines "b \<equiv> take space (drop (offset - space) content) @ buffer"
  shows "take (i + 1) b = take (i + 1) (drop (offset - space) content)" "b ! i = delimiter" "i < length b"
    "nth_last lines (matching flt content)
       = nth_last (lines - found) (matching flt (take (offset - space) content @ take (i + 1) b))"
proof -
  let ?pre = "take (offset - space) content" and ?chunk = "take space (drop (offset - space) content)"
  have off: "offset \<le> length content" using inv by (simp add: seek_inv_def)
  have pc: "take offset content = ?pre @ ?chunk" using sp by (metis le_add_diff_inverse2 take_add)
  have lc: "length ?chunk = space" using off sp by simp
  obtain xs ys where b: "b = xs @ delimiter # ys" "delimiter \<notin> set ys" "length xs = i"
    using bytes_LastIndex_Some[OF some] unfolding b_def by blast
  then show "b ! i = delimiter" "i < length b" by (auto simp: nth_append)
  have "take (i + 1) b = take (i + 1) (drop (offset - space) content)
    \<and> nth_last lines (matching flt content) = nth_last (lines - found) (matching flt (?pre @ take (i + 1) b))"
  proof (cases "delimiter \<in> set buffer")
    case False
    then have f: "found = 0" "delimiter \<notin> set (drop offset content)"
      using inv unended_text[of buffer] by (auto simp: seek_inv_def)
    have i: "i < space"
    proof (rule ccontr)
      assume "\<not> i < space"
      then have "b ! i \<in> set buffer" unfolding b_def using \<open>i < length b\<close> lc by (simp add: nth_append b_def)
      with \<open>b ! i = delimiter\<close> False show False by simp
    qed
    then have tk: "take (i + 1) b = take (i + 1) ?chunk" unfolding b_def using lc by simp
    have "drop (i + 1) b = ys" using b by simp
    then have "delimiter \<notin> set (drop (i + 1) ?chunk)" using b(2) i lc by (auto simp: b_def)
    then have "delimiter \<notin> set (drop (i + 1) ?chunk @ drop offset content)" using f(2) by simp
    moreover have "closed_text (?pre @ take (i + 1) b)"
      using \<open>b ! i = delimiter\<close> \<open>i < length b\<close> by (intro closed_text_take) simp_all
    moreover have "content = (?pre @ take (i + 1) b) @ drop (i + 1) ?chunk @ drop offset content"
      using tk pc by (metis append.assoc append_take_drop_id)
    ultimately have "lines_from 0 content = lines_from 0 (?pre @ take (i + 1) b)"
      using lines_from_open[of "?pre @ take (i + 1) b" "drop (i + 1) ?chunk @ drop offset content" 0] by simp
    then have "matching flt content = matching flt (?pre @ take (i + 1) b)" by (simp add: matching_def)
    moreover have "take (i + 1) b = take (i + 1) (drop (offset - space) content)" using tk i by (simp add: min_def)
    ultimately show ?thesis using f(1) by simp
  next
    case True
    with inv have B: "buffer \<noteq> []" "last buffer = delimiter" "buffer = take (length buffer) (drop offset content)"
      "nth_last lines (matching flt content) = nth_last (lines - found) (matching flt (take offset content @ buffer))"
      by (auto simp: seek_inv_def)
    have "last b = delimiter" using B by (simp add: b_def)
    then have "ys = []" using b(1,2) by (cases ys rule: rev_cases) auto
    then have all: "take (i + 1) b = b" using b by simp
    have "b = ?chunk @ take (length buffer) (drop space (drop (offset - space) content))"
      unfolding b_def using B(3) sp by simp
    also have "\<dots> = take (space + length buffer) (drop (offset - space) content)" by (simp add: take_add)
    finally have "b = take (space + length buffer) (drop (offset - space) content)" .
    then have "b = take (length b) (drop (offset - space) content)" by (metis append_eq_conv_conj append_take_drop_id)
    moreover have "i + 1 = length b" using b \<open>ys = []\<close> by simp
    moreover have "?pre @ b = take offset content @ buffer" unfolding b_def pc by simp
    ultimately show ?thesis using all B(4) by simp
  qed
  then show "take (i + 1) b = take (i + 1) (drop (offset - space) content)"
    "nth_last lines (matching flt content) = nth_last (lines - found) (matching flt (?pre @ take (i + 1) b))"
    by blast+
qed

text \<open>At the start of the file the line left in the buffer starts at position 0.\<close>

lemma seek_inv_start:
  assumes "seek_inv flt lines content 0 buffer found"
  shows "nth_last lines (matching flt content) = 0"
proof (cases "delimiter \<in> set content")
  case False
  then show ?thesis using assms by (simp add: matching_def lines_from_none nth_last_def seek_inv_def)
next
  case True
  with assms have B: "buffer \<noteq> []" "last buffer = delimiter" "delimiter \<notin> set (butlast buffer)" "found < lines"
    "nth_last lines (matching flt content) = nth_last (lines - found) (matching flt buffer)"
    by (auto simp: seek_inv_def)
  have "buffer = [] @ butlast buffer @ [delimiter]" using B by (metis append_Nil append_butlast_last_id)
  then have "matching flt buffer = (if passes flt buffer then [(0, buffer)] else [])"
    using matching_snoc[of "[]" "butlast buffer" flt] B(3)
    by (simp add: closed_text_def matching_def lines_from_none)
  then show ?thesis using B(4,5) by (auto simp: nth_last_def)
qed

lemma grow_room:
  assumes "0 < bufferSize" "bufferSize \<le> bcap" "blen \<le> bcap"
  shows "0 < grow bufferSize bcap blen - blen" "bufferSize \<le> grow bufferSize bcap blen" "blen \<le> grow bufferSize bcap blen"
  using assms by (auto simp: grow_def)

lemma seek_loop_correct:
  assumes "0 < bufferSize" "\<And>off. io_fail off = None"
  shows "seek_inv flt lines content offset buffer found \<Longrightarrow> bufferSize \<le> bcap \<Longrightarrow> length buffer \<le> bcap \<Longrightarrow>
    seek_loop bufferSize flt lines io_fail content offset bcap buffer found
      = Some (Inr (nth_last lines (matching flt content)))"
proof (induction offset arbitrary: bcap buffer found rule: less_induct)
  case (less offset)
  show ?case
  proof (cases "offset = 0")
    case True
    then show ?thesis using less.prems(1) seek_inv_start by (subst seek_loop.simps) auto
  next
    case False
    define bcap' where "bcap' = grow bufferSize bcap (length buffer)"
    define space where "space = min (bcap' - length buffer) offset"
    define b where "b = take space (drop (offset - space) content) @ buffer"
    have room: "0 < space" "space \<le> offset" "bufferSize \<le> bcap'" "space + length buffer \<le> bcap'"
      using grow_room[OF assms(1) less.prems(2,3)] False by (auto simp: space_def bcap'_def)
    have smaller: "offset - space < offset" using room by simp
    have lenb: "length b \<le> bcap'" using room by (auto simp: b_def)
    have unfold: "seek_loop bufferSize flt lines io_fail content offset bcap buffer found =
        (case bytes_LastIndex b of
           None \<Rightarrow> seek_loop bufferSize flt lines io_fail content (offset - space) bcap' [] found
         | Some i \<Rightarrow>
             (case scan_lines flt lines (offset - space) b (i + 1) found of
                Inl seekPos \<Rightarrow> Some (Inr seekPos)
              | Inr (stop, found') \<Rightarrow>
                  seek_loop bufferSize flt lines io_fail content (offset - space) bcap' (take stop b) found'))"
      unfolding b_def space_def bcap'_def using False assms(2)
      by (subst seek_loop.simps) (simp add: Let_def)
    show ?thesis
    proof (cases "bytes_LastIndex b")
      case None
      then have nb: "delimiter \<notin> set b" by (simp only: bytes_LastIndex_None simp_thms)
      then have A: "found = 0" "delimiter \<notin> set (drop offset content)"
        using less.prems(1) unended_text[of buffer] by (auto simp: seek_inv_def b_def)
      have "drop (offset - space) content = take space (drop (offset - space) content) @ drop offset content"
        using room(2) append_take_drop_id[of space "drop (offset - space) content"] by simp
      then have "delimiter \<notin> set (drop (offset - space) content)" using nb A(2) by (metis Un_iff b_def set_append)
      then have "seek_inv flt lines content (offset - space) [] found"
        using less.prems(1) A by (auto simp: seek_inv_def)
      then show ?thesis unfolding unfold using None less.IH[OF smaller _ room(3)] by simp
    next
      case (Some i)
      note rd = seek_inv_read[OF less.prems(1) room(2) Some[unfolded b_def], folded b_def]
      have pre: "length (take (offset - space) content) = offset - space"
        using less.prems(1) by (auto simp: seek_inv_def)
      have "scan_ok flt lines (take (offset - space) content) b (i + 1) found
          (scan_lines flt lines (offset - space) b (i + 1) found)"
        using scan_lines_correct[of "i + 1" b found lines flt "take (offset - space) content"] rd(2,3) pre less.prems(1)
        by (simp add: seek_inv_def)
      then show ?thesis
      proof (cases "scan_lines flt lines (offset - space) b (i + 1) found")
        case (Inl pos)
        with \<open>scan_ok _ _ _ _ _ _ _\<close> show ?thesis unfolding unfold using Some rd(4) by (simp add: scan_ok_def)
      next
        case (Inr r)
        obtain stop found' where r: "r = (stop, found')" by force
        with Inr \<open>scan_ok _ _ _ _ _ _ _\<close> have ok: "1 \<le> stop" "stop \<le> i + 1" "b ! (stop - 1) = delimiter"
          "delimiter \<notin> set (take (stop - 1) b)" "found' < lines"
          "nth_last lines (matching flt content)
             = nth_last (lines - found') (matching flt (take (offset - space) content @ take stop b))"
          using rd(4) by (simp_all add: scan_ok_def)
        have tk: "take stop b = take (stop - 1) b @ [delimiter]"
          using ok(1-3) rd(3) take_Suc_conv_app_nth[of "stop - 1" b] by simp
        have "take stop (take (i + 1) b) = take stop (take (i + 1) (drop (offset - space) content))" using rd(1) by simp
        then have "take stop b = take stop (drop (offset - space) content)" using ok(2) by (simp add: min_absorb1)
        moreover have "length (take stop b) = stop" using ok(2) rd(3) by simp
        ultimately have "take stop b = take (length (take stop b)) (drop (offset - space) content)" by simp
        moreover have "take stop b \<noteq> []" "last (take stop b) = delimiter" "delimiter \<notin> set (butlast (take stop b))"
          unfolding tk using ok(4) by simp_all
        moreover have "offset - space \<le> length content" using less.prems(1) by (auto simp: seek_inv_def)
        ultimately have "seek_inv flt lines content (offset - space) (take stop b) found'"
          unfolding seek_inv_def using ok(5,6) by blast
        moreover have "length (take stop b) \<le> bcap'" using lenb by simp
        ultimately show ?thesis unfolding unfold using Some Inr r less.IH[OF smaller _ room(3)] by simp
      qed
    qed
  qed
qed

lemma lines_from_shift: "lines_from (p + n) s = map (\<lambda>(q, l). (q + n, l)) (lines_from p s)"
proof (induction p s rule: lines_induct)
  case (line p l s)
  then show ?case using lines_from_line[of l "p + n" s] lines_from_line[of l p s] by (simp add: add.assoc add.commute add.left_commute)
qed (simp add: lines_from_none)

text \<open>The lines from the start of the \<open>i\<close>-th line on.\<close>

lemma lines_from_drop:
  "i < length (lines_from p s) \<Longrightarrow>
   \<exists>q. fst (lines_from p s ! i) = p + q \<and> q \<le> length s \<and> lines_from (p + q) (drop q s) = drop i (lines_from p s)"
proof (induction p s arbitrary: i rule: lines_induct)
  case (none p s)
  then show ?case by (simp add: lines_from_none)
next
  case (line p l s)
  show ?case
  proof (cases i)
    case 0
    then show ?thesis using lines_from_line[OF line(1), of p s] by (intro exI[of _ 0]) simp
  next
    case (Suc j)
    have "j < length (lines_from (p + length l + 1) s)" using line.prems Suc lines_from_line[OF line(1), of p s] by simp
    from line.IH[OF this] obtain q where q: "fst (lines_from (p + length l + 1) s ! j) = p + length l + 1 + q"
      "q \<le> length s" "lines_from (p + length l + 1 + q) (drop q s) = drop j (lines_from (p + length l + 1) s)"
      by blast
    then show ?thesis using lines_from_line[OF line(1), of p s] Suc
      by (intro exI[of _ "length l + 1 + q"]) (simp add: add.assoc)
  qed
qed

lemma filter_nth_split:
  "k < length (filter P xs) \<Longrightarrow>
   \<exists>i < length xs. filter P xs ! k = xs ! i \<and> filter P (drop i xs) = drop k (filter P xs)"
proof (induction xs arbitrary: k)
  case (Cons x xs)
  show ?case
  proof (cases "P x")
    case True
    show ?thesis
    proof (cases k)
      case 0
      then show ?thesis using True by (intro exI[of _ 0]) simp
    next
      case (Suc j)
      then obtain i where "i < length xs" "filter P xs ! j = xs ! i" "filter P (drop i xs) = drop j (filter P xs)"
        using Cons True by auto
      then show ?thesis using True Suc by (intro exI[of _ "Suc i"]) simp
    qed
  next
    case False
    then obtain i where "i < length xs" "filter P xs ! k = xs ! i" "filter P (drop i xs) = drop k (filter P xs)"
      using Cons by auto
    then show ?thesis using False by (intro exI[of _ "Suc i"]) simp
  qed
qed simp

text \<open>The text of the lines that pass the filter.\<close>

definition valid_lines :: "filterFunc \<Rightarrow> string \<Rightarrow> string list" where
  "valid_lines flt s = filter (passes flt) (map snd (lines_from 0 s))"

lemma valid_lines_matching: "valid_lines flt s = map snd (matching flt s)"
  by (simp add: valid_lines_def matching_def filter_map comp_def)

lemma valid_lines_from: "filter (passes flt) (map snd (lines_from p s)) = valid_lines flt s"
  using lines_from_shift[of 0 p s] by (simp add: valid_lines_def comp_def case_prod_beta)

lemma valid_lines_nth_last:
  assumes "0 < k"
  shows "nth_last k (matching flt s) \<le> length s"
    "valid_lines flt (drop (nth_last k (matching flt s)) s) = drop (length (valid_lines flt s) - k) (valid_lines flt s)"
proof -
  let ?ms = "matching flt s" and ?P = "\<lambda>pl. passes flt (snd pl)"
  have "nth_last k ?ms \<le> length s
    \<and> valid_lines flt (drop (nth_last k ?ms) s) = drop (length (valid_lines flt s) - k) (valid_lines flt s)"
  proof (cases "k \<le> length ?ms")
    case True
    then have "length ?ms - k < length (filter ?P (lines_from 0 s))" using assms by (simp add: matching_def)
    from filter_nth_split[OF this] obtain i where i: "i < length (lines_from 0 s)"
      "?ms ! (length ?ms - k) = lines_from 0 s ! i" "filter ?P (drop i (lines_from 0 s)) = drop (length ?ms - k) ?ms"
      by (auto simp: matching_def)
    from lines_from_drop[OF i(1)] obtain q where q: "fst (lines_from 0 s ! i) = q" "q \<le> length s"
      "lines_from q (drop q s) = drop i (lines_from 0 s)" by auto
    have "valid_lines flt (drop q s) = map snd (filter ?P (drop i (lines_from 0 s)))"
      using valid_lines_from[of flt q "drop q s"] q(3) by (simp add: filter_map comp_def)
    also have "\<dots> = drop (length (valid_lines flt s) - k) (valid_lines flt s)"
      unfolding i(3) by (simp add: valid_lines_matching drop_map)
    finally show ?thesis using True i(2) q(1,2) by (simp add: nth_last_def)
  qed (simp add: nth_last_def valid_lines_matching)
  then show "nth_last k ?ms \<le> length s"
    "valid_lines flt (drop (nth_last k ?ms) s) = drop (length (valid_lines flt s) - k) (valid_lines flt s)" by blast+
qed

text \<open>A text is its complete lines and what follows the last of them; appending does not change the complete lines.\<close>

lemma text_split:
  obtains u v where "s = u @ v" "closed_text u" "delimiter \<notin> set v"
proof (cases "delimiter \<in> set s")
  case True
  then obtain u v where "s = u @ delimiter # v" "delimiter \<notin> set v" by (meson split_list_last)
  then show thesis by (intro that[of "u @ [delimiter]" v]) (simp_all add: closed_text_def)
qed (intro that[of "[]" s], simp_all add: closed_text_def)

lemma valid_lines_closed: "closed_text u \<Longrightarrow> valid_lines flt (u @ t) = valid_lines flt u @ valid_lines flt t"
  using valid_lines_from[of flt "length u" t] by (simp add: valid_lines_def lines_from_append)

lemma matching_open: "closed_text u \<Longrightarrow> delimiter \<notin> set v \<Longrightarrow> matching flt (u @ v) = matching flt u"
  by (simp add: matching_def lines_from_open)

lemma valid_lines_append: "prefix (valid_lines flt s) (valid_lines flt (s @ t))"
proof (rule text_split[of s])
  fix u v
  assume *: "s = u @ v" "closed_text u" "delimiter \<notin> set v"
  then have "valid_lines flt s = valid_lines flt u" by (simp add: valid_lines_def lines_from_open)
  then show ?thesis using * valid_lines_closed[of u flt "v @ t"] by simp
qed

lemma closed_text_drop: "closed_text u \<Longrightarrow> closed_text (drop n u)"
  by (cases "n < length u") (auto simp: closed_text_def last_drop)

lemma valid_lines_nth_last_append:
  assumes "0 < k" "valid_lines flt (s @ t) = valid_lines flt s @ new"
  shows "valid_lines flt (drop (nth_last k (matching flt s)) (s @ t))
    = drop (length (valid_lines flt s) - k) (valid_lines flt s) @ new"
proof (rule text_split[of s])
  fix u v
  assume s: "s = u @ v" "closed_text u" "delimiter \<notin> set v"
  let ?p = "nth_last k (matching flt s)"
  have m: "matching flt s = matching flt u" using matching_open[OF s(2,3)] s(1) by simp
  then have vs: "valid_lines flt s = valid_lines flt u" by (simp add: valid_lines_matching)
  note p = valid_lines_nth_last[OF assms(1), of flt u, folded m]
  have "valid_lines flt (v @ t) = new" using assms(2) vs valid_lines_closed[OF s(2), of flt "v @ t"] s(1) by simp
  moreover have "drop ?p (s @ t) = drop ?p u @ v @ t" using p(1) s(1) by simp
  ultimately show ?thesis
    using valid_lines_closed[OF closed_text_drop[OF s(2), of ?p], of flt "v @ t"] p(2) vs by simp
qed

text \<open>Where the reader is left.\<close>

lemma SeekLastLines_seeks:
  assumes "0 < bufferSize" and "io_fail = (\<lambda>_. None)"
  shows "SeekLastLines bufferSize content io_fail lines flt =
    Some (Inr (if lines = 0 then length content else nth_last lines (matching flt content)))"
proof (cases "lines = 0")
  case False
  have "seek_inv flt lines content (length content) (replicate bufferSize (CHR 0x00)) 0"
    using False by (simp add: seek_inv_def delimiter_def)
  from seek_loop_correct[OF assms(1) _ this, of io_fail bufferSize] assms(2)
  show ?thesis using False assms(2) by (simp add: SeekLastLines_def)
qed (use assms(2) in \<open>simp add: SeekLastLines_def\<close>)

text \<open>(C8) \<^verbatim>\<open>SeekLastLines\<close> returns and leaves the reader at the wanted number of filtered lines
  before the end: what can be read from there contains exactly the last \<open>lines\<close> complete lines that
  pass the filter, or all of them when there are fewer, whatever the size of the buffer.\<close>

theorem SeekLastLines_position:
  assumes "0 < bufferSize" and "io_fail = (\<lambda>_. None)"
  shows "\<exists>pos \<le> length content. SeekLastLines bufferSize content io_fail lines flt = Some (Inr pos)
    \<and> valid_lines flt (drop pos content)
      = drop (length (valid_lines flt content) - lines) (valid_lines flt content)"
proof (cases "lines = 0")
  case True
  then show ?thesis using SeekLastLines_seeks[OF assms, of content lines flt]
    by (intro exI[of _ "length content"]) (simp add: valid_lines_def lines_from_none)
next
  case False
  then show ?thesis
    using SeekLastLines_seeks[OF assms, of content lines flt] valid_lines_nth_last[of lines flt content] by auto
qed

text \<open>The last line of a file of three, the last of them not complete.\<close>

definition demo_file :: string where
  "demo_file = ''a'' @ [delimiter] @ ''b'' @ [delimiter] @ ''c''"

lemma demo_file_lines: "valid_lines None demo_file = [''a'' @ [delimiter], ''b'' @ [delimiter]]"
  by (simp add: demo_file_def valid_lines_def lines_from.simps delimiter_def passes_def)

theorem SeekLastLines_position_witness:
  "\<exists>pos. SeekLastLines 2 demo_file (\<lambda>_. None :: nat option) 1 None = Some (Inr pos)
     \<and> valid_lines None (drop pos demo_file) = [''b'' @ [delimiter]]"
  using SeekLastLines_position[of 2 "\<lambda>_. None :: nat option" demo_file 1 None] by (auto simp: demo_file_lines)

subsection \<open>Tailing\<close>

text \<open>\<^verbatim>\<open>bufio.Reader.ReadSlice\<close> over a file that may grow between calls: up to the delimiter, or
  the whole buffer when that has none, or what there is at the end of the file. The slice is consumed
  in every case. \<^verbatim>\<open>NewReaderSize\<close> makes the buffer at least 16 bytes.\<close>

datatype 'err read_error = EOF | ErrBufferFull | ReadError 'err

definition reader_size :: "nat \<Rightarrow> nat" where
  "reader_size bufferSize = max 16 bufferSize"

definition ReadSlice ::
  "nat \<Rightarrow> (nat \<Rightarrow> 'err option) \<Rightarrow> string \<Rightarrow> nat \<Rightarrow> string \<times> 'err read_error option" where
  "ReadSlice bufferSize read_fail content pos =
     (case read_fail pos of
        Some err \<Rightarrow> ([], Some (ReadError err))
      | None \<Rightarrow>
          let rest = drop pos content; window = take (reader_size bufferSize) rest in
          if delimiter \<in> set window then (takeWhile (\<lambda>c. c \<noteq> delimiter) window @ [delimiter], None)
          else if reader_size bufferSize \<le> length rest then (window, Some ErrBufferFull)
          else (rest, Some EOF))"

lemma ReadSlice_full:
  "ReadSlice bufferSize read_fail content pos = (sl, Some ErrBufferFull) \<Longrightarrow>
   0 < length sl \<and> pos + length sl \<le> length content"
  by (auto simp: ReadSlice_def Let_def reader_size_def split: option.splits if_splits)

text \<open>The loop over \<^verbatim>\<open>ErrBufferFull\<close> in \<^verbatim>\<open>readLine\<close>: the line read so far, the last
  error and the position.\<close>

function read_more ::
  "nat \<Rightarrow> (nat \<Rightarrow> 'err option) \<Rightarrow> string \<Rightarrow> string \<Rightarrow> 'err read_error option \<Rightarrow> nat
    \<Rightarrow> string \<times> 'err read_error option \<times> nat" where
  "read_more bufferSize read_fail content line err pos =
     (if err = Some ErrBufferFull then
        (case ReadSlice bufferSize read_fail content pos of
           (sl, err') \<Rightarrow> read_more bufferSize read_fail content (line @ sl) err' (pos + length sl))
      else (line, err, pos))"
  by pat_completeness auto

termination
proof (relation "measure (\<lambda>(bufferSize, read_fail, content, line, err, pos).
    2 * (length content - pos) + (if err = Some ErrBufferFull then 1 else 0))")
  fix bufferSize pos :: nat and read_fail :: "nat \<Rightarrow> 'err option" and content line sl :: string
    and err err' :: "'err read_error option"
  assume *: "err = Some ErrBufferFull" "(sl, err') = ReadSlice bufferSize read_fail content pos"
  show "((bufferSize, read_fail, content, line @ sl, err', pos + length sl), bufferSize, read_fail, content, line, err, pos)
      \<in> measure (\<lambda>(bufferSize, read_fail, content, line, err, pos).
          2 * (length content - pos) + (if err = Some ErrBufferFull then 1 else 0))"
  proof (cases "err' = Some ErrBufferFull")
    case True
    with * have "0 < length sl \<and> pos + length sl \<le> length content"
      using ReadSlice_full[of bufferSize read_fail content pos sl] by simp
    then have "length content - (pos + length sl) < length content - pos" by linarith
    then show ?thesis using *(1) True by simp
  qed (use * in auto)
qed auto

declare read_more.simps [simp del]

lemma read_more_stop: "err \<noteq> Some ErrBufferFull \<Longrightarrow> read_more bufferSize read_fail content line err pos = (line, err, pos)"
  by (subst read_more.simps) simp

lemma read_more_full:
  "ReadSlice bufferSize read_fail content pos = (sl, err) \<Longrightarrow>
   read_more bufferSize read_fail content line (Some ErrBufferFull) pos
     = read_more bufferSize read_fail content (line @ sl) err (pos + length sl)"
  by (subst read_more.simps) simp

lemma read_more_pos:
  "read_more bufferSize read_fail content line err pos = (line', err', pos') \<Longrightarrow> pos \<le> pos'"
proof (induction bufferSize read_fail content line err pos rule: read_more.induct)
  case (1 bufferSize read_fail content line err pos)
  obtain sl e where r: "ReadSlice bufferSize read_fail content pos = (sl, e)" by force
  show ?case
  proof (cases "err = Some ErrBufferFull")
    case True
    then have "pos + length sl \<le> pos'" using 1(1)[OF True r[symmetric]] 1(2) read_more_full[OF r] by simp
    then show ?thesis by simp
  next
    case False
    then show ?thesis using 1(2) by (simp add: read_more_stop)
  qed
qed

lemma ReadSlice_complete:
  assumes "(sl, None) = ReadSlice bufferSize read_fail content pos"
  shows "length content - (pos + length sl) < length content - pos"
proof -
  have "delimiter \<in> set (take (reader_size bufferSize) (drop pos content))" "sl \<noteq> []"
    using assms by (auto simp: ReadSlice_def Let_def split: option.splits if_splits)
  then have "drop pos content \<noteq> []" "0 < length sl" by auto
  then have "pos < length content" "0 < length sl" by simp_all
  then show ?thesis by linarith
qed

lemma read_more_complete:
  assumes "(sl, Some err) = ReadSlice bufferSize read_fail content pos"
    "(line, None, pos') = read_more bufferSize read_fail content sl (Some err) (pos + length sl)"
  shows "length content - pos' < length content - pos"
proof -
  have "err = ErrBufferFull" using assms(2) read_more_stop[of "Some err"] by fastforce
  then have "0 < length sl \<and> pos + length sl \<le> length content" using assms(1) ReadSlice_full by metis
  moreover have "pos + length sl \<le> pos'" using read_more_pos[OF assms(2)[symmetric]] .
  ultimately show ?thesis by linarith
qed

text \<open>\<^verbatim>\<open>readLine\<close>: the line, the error, and the position of the reader.\<close>

function readLine ::
  "filterFunc \<Rightarrow> nat \<Rightarrow> (nat \<Rightarrow> 'err option) \<Rightarrow> string \<Rightarrow> nat \<Rightarrow> string \<times> 'err read_error option \<times> nat" where
  "readLine flt bufferSize read_fail content pos =
     (case ReadSlice bufferSize read_fail content pos of
        (sl, None) \<Rightarrow>
          if passes flt sl then (sl, None, pos + length sl)
          else readLine flt bufferSize read_fail content (pos + length sl)
      | (sl, Some err) \<Rightarrow>
          (case read_more bufferSize read_fail content sl (Some err) (pos + length sl) of
             (line, None, pos') \<Rightarrow>
               if passes flt line then (line, None, pos') else readLine flt bufferSize read_fail content pos'
           | (line, Some EOF, pos') \<Rightarrow> ([], Some EOF, pos' - length line)
           | (line, Some err', pos') \<Rightarrow> ([], Some err', pos')))"
  by pat_completeness auto

termination
  by (relation "measure (\<lambda>(flt, bufferSize, read_fail, content, pos). length content - pos)")
    (auto dest: ReadSlice_complete read_more_complete)

declare readLine.simps [simp del]

lemma readLine_progress:
  "(line, None, pos') = readLine flt bufferSize read_fail content pos \<Longrightarrow> length content - pos' < length content - pos"
proof (induction flt bufferSize read_fail content pos rule: readLine.induct)
  case (1 flt bufferSize read_fail content pos)
  obtain sl e where r: "(sl, e) = ReadSlice bufferSize read_fail content pos" by (metis surj_pair)
  show ?case
  proof (cases e)
    case None
    have less: "length content - (pos + length sl) < length content - pos" using ReadSlice_complete r None by metis
    show ?thesis
    proof (cases "passes flt sl")
      case True
      then show ?thesis using 1(3) less r None
        by (simp add: readLine.simps[of flt bufferSize read_fail content pos] flip: r)
    next
      case False
      have "(line, None, pos') = readLine flt bufferSize read_fail content (pos + length sl)"
        using 1(3) False None by (simp add: readLine.simps[of flt bufferSize read_fail content pos] flip: r)
      from 1(1)[OF r None False this] show ?thesis using less by simp
    qed
  next
    case (Some err)
    obtain l e' q where m: "(l, e', q) = read_more bufferSize read_fail content sl (Some err) (pos + length sl)"
      by (metis surj_pair)
    have e': "e' = None"
      using 1(3) Some by (auto simp: readLine.simps[of flt bufferSize read_fail content pos]
          simp flip: r m split: option.splits read_error.splits if_splits)
    then have less: "length content - q < length content - pos" using read_more_complete r m Some by metis
    show ?thesis
    proof (cases "passes flt l")
      case True
      then show ?thesis using 1(3) less Some e'
        by (simp add: readLine.simps[of flt bufferSize read_fail content pos] flip: r m)
    next
      case False
      have "(line, None, pos') = readLine flt bufferSize read_fail content q"
        using 1(3) False Some e' by (simp add: readLine.simps[of flt bufferSize read_fail content pos] flip: r m)
      from 1(2)[OF r Some m refl e' False this] show ?thesis using less by simp
    qed
  qed
qed

text \<open>The body of one tick of the timer in \<^verbatim>\<open>loop\<close>: lines are read and written until the end of the
  file. The error it returns with, the position, and what was written; \<open>write_fail out line\<close> is the
  error of writing \<open>line\<close> after \<open>out\<close>.\<close>

datatype 'err loop_error = ReadErr "'err read_error" | WriteErr 'err

function poll ::
  "filterFunc \<Rightarrow> nat \<Rightarrow> (nat \<Rightarrow> 'err option) \<Rightarrow> (string \<Rightarrow> string \<Rightarrow> 'err option) \<Rightarrow> string \<Rightarrow> nat \<Rightarrow> string
    \<Rightarrow> 'err loop_error option \<times> nat \<times> string" where
  "poll flt bufferSize read_fail write_fail content pos out =
     (case readLine flt bufferSize read_fail content pos of
        (line, readErr, pos') \<Rightarrow>
          (case write_fail out line of
             Some writeErr \<Rightarrow> (Some (WriteErr writeErr), pos', out)
           | None \<Rightarrow>
               (case readErr of
                  Some err \<Rightarrow> if err \<noteq> EOF then (Some (ReadErr err), pos', out @ line) else (None, pos', out @ line)
                | None \<Rightarrow> poll flt bufferSize read_fail write_fail content pos' (out @ line))))"
  by pat_completeness auto

termination
  by (relation "measure (\<lambda>(flt, bufferSize, read_fail, write_fail, content, pos, out). length content - pos)")
    (auto dest: readLine_progress)

declare poll.simps [simp del]

text \<open>The loop over the ticks of the timer, each with the content of the file at that time; \<open>flush_fail\<close> is
  the error of the flush at the end of a tick. The loop ends with an error or when the Tailer is stopped.\<close>

fun Tailer_loop ::
  "filterFunc \<Rightarrow> nat \<Rightarrow> (nat \<Rightarrow> 'err option) \<Rightarrow> (string \<Rightarrow> string \<Rightarrow> 'err option) \<Rightarrow> (string \<Rightarrow> 'err option)
    \<Rightarrow> string list \<Rightarrow> nat \<Rightarrow> string \<Rightarrow> 'err loop_error option \<times> nat \<times> string" where
  "Tailer_loop flt bufferSize read_fail write_fail flush_fail [] pos out = (None, pos, out)"
| "Tailer_loop flt bufferSize read_fail write_fail flush_fail (content # ticks) pos out =
     (case poll flt bufferSize read_fail write_fail content pos out of
        (Some err, pos', out') \<Rightarrow> (Some err, pos', out')
      | (None, pos', out') \<Rightarrow>
          (case flush_fail out' of
             Some writeErr \<Rightarrow> (Some (WriteErr writeErr), pos', out')
           | None \<Rightarrow> Tailer_loop flt bufferSize read_fail write_fail flush_fail ticks pos' out'))"

subsection \<open>Reading without faults\<close>

definition no_fail :: "('a \<Rightarrow> 'err option) \<Rightarrow> bool" where
  "no_fail f \<longleftrightarrow> (\<forall>x. f x = None)"

lemma takeWhile_line: "delimiter \<notin> set l \<Longrightarrow> takeWhile (\<lambda>c. c \<noteq> delimiter) (l @ delimiter # r) = l"
  by (induction l) auto

lemma ReadSlice_short:
  "no_fail read_fail \<Longrightarrow> drop pos content = l @ delimiter # r \<Longrightarrow> delimiter \<notin> set l \<Longrightarrow> length l < reader_size bufferSize \<Longrightarrow>
   ReadSlice bufferSize read_fail content pos = (l @ [delimiter], None)"
proof -
  assume f: "no_fail read_fail"
    and *: "drop pos content = l @ delimiter # r" "delimiter \<notin> set l" "length l < reader_size bufferSize"
  then obtain n where n: "reader_size bufferSize - length l = Suc n" by (metis Suc_diff_Suc)
  then have "take (reader_size bufferSize) (drop pos content) = l @ delimiter # take n r" using * by simp
  then show ?thesis using f * takeWhile_line[of l "take n r"] by (simp add: ReadSlice_def Let_def no_fail_def)
qed

lemma ReadSlice_long:
  assumes "no_fail read_fail" "delimiter \<notin> set (take (reader_size bufferSize) (drop pos content))"
  shows "ReadSlice bufferSize read_fail content pos =
    (if reader_size bufferSize \<le> length (drop pos content)
     then (take (reader_size bufferSize) (drop pos content), Some ErrBufferFull) else (drop pos content, Some EOF))"
  using assms by (simp add: ReadSlice_def Let_def no_fail_def)

lemma reader_size_pos: "0 < reader_size bufferSize"
  by (simp add: reader_size_def)

text \<open>After a full buffer the rest of the line, or of the file, is read.\<close>

lemma read_more_line:
  assumes f: "no_fail read_fail"
  shows "drop pos content = l @ delimiter # r \<Longrightarrow> delimiter \<notin> set l \<Longrightarrow>
   read_more bufferSize read_fail content line (Some ErrBufferFull) pos
     = (line @ l @ [delimiter], None, pos + length l + 1)"
proof (induction "length l" arbitrary: l line pos rule: less_induct)
  case less
  let ?n = "reader_size bufferSize"
  show ?case
  proof (cases "length l < ?n")
    case True
    then show ?thesis by (simp add: read_more_full[OF ReadSlice_short[OF f less.prems]] read_more_stop)
  next
    case False
    have tk: "take ?n (drop pos content) = take ?n l" using less.prems False by simp
    then have "ReadSlice bufferSize read_fail content pos = (take ?n l, Some ErrBufferFull)"
      using ReadSlice_long[OF f, of bufferSize pos content] less.prems False
      by (auto dest: in_set_takeD)
    moreover have "drop (pos + ?n) content = drop ?n l @ delimiter # r"
      using less.prems(1) False by (simp add: drop_append flip: drop_drop[of ?n pos content, simplified add.commute])
    moreover have "delimiter \<notin> set (drop ?n l)" using less.prems(2) by (auto dest: in_set_dropD)
    ultimately show ?thesis
      using less.hyps[of "drop ?n l" "pos + ?n" "line @ take ?n l"] False reader_size_pos[of bufferSize]
      by (simp add: read_more_full)
  qed
qed

lemma read_more_end:
  assumes f: "no_fail read_fail"
  shows "delimiter \<notin> set (drop pos content) \<Longrightarrow>
   read_more bufferSize read_fail content line (Some ErrBufferFull) pos
     = (line @ drop pos content, Some EOF, pos + length (drop pos content))"
proof (induction "length content - pos" arbitrary: line pos rule: less_induct)
  case less
  let ?n = "reader_size bufferSize"
  have no: "delimiter \<notin> set (take ?n (drop pos content))" using less.prems by (auto dest: in_set_takeD)
  show ?case
  proof (cases "?n \<le> length (drop pos content)")
    case False
    then have "ReadSlice bufferSize read_fail content pos = (drop pos content, Some EOF)"
      by (simp add: ReadSlice_long[OF f no])
    then show ?thesis by (simp add: read_more_full read_more_stop)
  next
    case True
    have "ReadSlice bufferSize read_fail content pos = (take ?n (drop pos content), Some ErrBufferFull)"
      using ReadSlice_long[OF f no] True by simp
    moreover have "drop (pos + ?n) content = drop ?n (drop pos content)" by (simp add: add.commute)
    moreover have "delimiter \<notin> set (drop (pos + ?n) content)"
      using less.prems in_set_dropD[of delimiter ?n "drop pos content"] by (auto simp: add.commute)
    ultimately show ?thesis
      using less.hyps[of "pos + ?n" "line @ take ?n (drop pos content)"] True reader_size_pos[of bufferSize]
        append_take_drop_id[of ?n "drop pos content"]
      by (simp add: read_more_full min_absorb2)
  qed
qed

text \<open>Hence \<^verbatim>\<open>readLine\<close>, whatever the size of its buffer.\<close>

lemma readLine_line:
  assumes f: "no_fail read_fail" and line: "drop pos content = l @ delimiter # r" "delimiter \<notin> set l"
  shows "readLine flt bufferSize read_fail content pos =
    (if passes flt (l @ [delimiter]) then (l @ [delimiter], None, pos + length l + 1)
     else readLine flt bufferSize read_fail content (pos + length l + 1))"
proof (cases "length l < reader_size bufferSize")
  case True
  then show ?thesis by (subst readLine.simps) (simp add: ReadSlice_short[OF f line])
next
  case False
  let ?n = "reader_size bufferSize"
  have tk: "take ?n (drop pos content) = take ?n l" using line(1) False by simp
  then have rs: "ReadSlice bufferSize read_fail content pos = (take ?n l, Some ErrBufferFull)"
    using ReadSlice_long[OF f, of bufferSize pos content] line False by (auto dest: in_set_takeD)
  have "drop (pos + ?n) content = drop ?n (drop pos content)" by (simp add: add.commute)
  then have d: "drop (pos + ?n) content = drop ?n l @ delimiter # r" using line(1) False by simp
  have "delimiter \<notin> set (drop ?n l)" using line(2) by (auto dest: in_set_dropD)
  from read_more_line[OF f d this, of bufferSize "take ?n l"]
  have "read_more bufferSize read_fail content (take ?n l) (Some ErrBufferFull) (pos + ?n)
      = (l @ [delimiter], None, pos + length l + 1)" using False by (simp flip: append_assoc)
  then show ?thesis using rs False by (subst readLine.simps) (simp add: min_absorb2)
qed

lemma readLine_end:
  assumes f: "no_fail read_fail" and last: "delimiter \<notin> set (drop pos content)"
  shows "readLine flt bufferSize read_fail content pos = ([], Some EOF, pos)"
proof -
  let ?n = "reader_size bufferSize"
  have no: "delimiter \<notin> set (take ?n (drop pos content))" using last by (auto dest: in_set_takeD)
  show ?thesis
  proof (cases "?n \<le> length (drop pos content)")
    case False
    then show ?thesis by (subst readLine.simps) (simp add: ReadSlice_long[OF f no] read_more_stop)
  next
    case True
    have rs: "ReadSlice bufferSize read_fail content pos = (take ?n (drop pos content), Some ErrBufferFull)"
      using ReadSlice_long[OF f no] True by simp
    have "delimiter \<notin> set (drop (pos + ?n) content)"
      using last in_set_dropD[of delimiter ?n "drop pos content"] by (auto simp: add.commute)
    from read_more_end[OF f this, of bufferSize "take ?n (drop pos content)"]
    have "read_more bufferSize read_fail content (take ?n (drop pos content)) (Some ErrBufferFull) (pos + ?n)
        = (drop pos content, Some EOF, pos + length (drop pos content))"
      using True append_take_drop_id[of ?n "drop pos content"] by (simp add: add.commute)
    then show ?thesis using rs True by (subst readLine.simps) (simp add: min_absorb2)
  qed
qed

subsection \<open>What is written\<close>

text \<open>Between two positions the reader has passed over the given lines, however the file grows.\<close>

definition tailed :: "filterFunc \<Rightarrow> string \<Rightarrow> nat \<Rightarrow> string list \<Rightarrow> nat \<Rightarrow> bool" where
  "tailed flt content pos ls pos' \<longleftrightarrow>
     pos' \<le> length content
     \<and> (\<forall>more. valid_lines flt (drop pos (content @ more)) = ls @ valid_lines flt (drop pos' (content @ more)))"

lemma tailed_refl: "pos \<le> length content \<Longrightarrow> tailed flt content pos [] pos"
  by (simp add: tailed_def)

lemma tailed_trans: "tailed flt content p ls q \<Longrightarrow> tailed flt content q ms r \<Longrightarrow> tailed flt content p (ls @ ms) r"
  by (simp add: tailed_def)

lemma tailed_line:
  assumes "drop pos content = l @ delimiter # r" "delimiter \<notin> set l"
  shows "tailed flt content pos (if passes flt (l @ [delimiter]) then [l @ [delimiter]] else []) (pos + length l + 1)"
proof -
  have len: "length content - pos = length l + 1 + length r" using assms(1) by (metis length_drop length_append length_Cons add_Suc_right Suc_eq_plus1 add_Suc)
  have "drop (pos + length l + 1) content = drop (length l + 1) (drop pos content)" by (simp add: add.commute add.left_commute)
  then have "drop (pos + length l + 1) content = r" using assms(1) by simp
  then have "drop pos (content @ more) = l @ delimiter # r @ more" "drop (pos + length l + 1) (content @ more) = r @ more" for more
    using len assms(1) by simp_all
  moreover have "valid_lines flt (l @ delimiter # s)
      = (if passes flt (l @ [delimiter]) then [l @ [delimiter]] else []) @ valid_lines flt s" for s
    using lines_from_line[OF assms(2), of 0 s] valid_lines_from[of flt "length l + 1" s]
    by (simp add: valid_lines_def)
  ultimately show ?thesis using len by (simp add: tailed_def)
qed

lemma readLine_tailed:
  assumes f: "no_fail read_fail"
  shows "pos \<le> length content \<Longrightarrow>
    (\<exists>l pos'. readLine flt bufferSize read_fail content pos = (l, None, pos') \<and> tailed flt content pos [l] pos'
        \<and> length content - pos' < length content - pos)
    \<or> (\<exists>pos'. readLine flt bufferSize read_fail content pos = ([], Some EOF, pos') \<and> tailed flt content pos [] pos'
        \<and> delimiter \<notin> set (drop pos' content))"
proof (induction "length content - pos" arbitrary: pos rule: less_induct)
  case less
  show ?case
  proof (cases "delimiter \<in> set (drop pos content)")
    case False
    then show ?thesis using readLine_end[OF f] tailed_refl[OF less.prems] by blast
  next
    case True
    then obtain l r where line: "drop pos content = l @ delimiter # r" "delimiter \<notin> set l" by (meson split_list_first)
    let ?q = "pos + length l + 1"
    have t: "tailed flt content pos (if passes flt (l @ [delimiter]) then [l @ [delimiter]] else []) ?q"
      using tailed_line[OF line] .
    have q: "length content - ?q < length content - pos" "?q \<le> length content"
      using t line(1) by (auto simp: tailed_def)
    show ?thesis
    proof (cases "passes flt (l @ [delimiter])")
      case True
      then show ?thesis using readLine_line[OF f line] t q by auto
    next
      case False
      then have "readLine flt bufferSize read_fail content pos = readLine flt bufferSize read_fail content ?q"
        "tailed flt content pos [] ?q" using readLine_line[OF f line] t by simp_all
      with less.hyps[OF q] q(1) show ?thesis using tailed_trans[of flt content pos "[]" ?q] by fastforce
    qed
  qed
qed

lemma poll_tailed:
  assumes f: "no_fail read_fail" and w: "\<forall>out line. write_fail out line = None"
  shows "pos \<le> length content \<Longrightarrow>
    \<exists>ls pos'. poll flt bufferSize read_fail write_fail content pos out = (None, pos', out @ concat ls)
      \<and> tailed flt content pos ls pos' \<and> delimiter \<notin> set (drop pos' content)"
proof (induction "length content - pos" arbitrary: pos out rule: less_induct)
  case less
  from readLine_tailed[OF f less.prems, of flt bufferSize] show ?case
  proof (elim disjE exE conjE)
    fix l q
    assume r: "readLine flt bufferSize read_fail content pos = (l, None, q)" "tailed flt content pos [l] q"
      "length content - q < length content - pos"
    then have "q \<le> length content" by (simp add: tailed_def)
    from less.hyps[OF r(3) this, of "out @ l"] obtain ls pos' where
      "poll flt bufferSize read_fail write_fail content q (out @ l) = (None, pos', (out @ l) @ concat ls)"
      "tailed flt content q ls pos'" "delimiter \<notin> set (drop pos' content)" by blast
    then show ?thesis using r w tailed_trans[OF r(2)]
      by (intro exI[of _ "l # ls"] exI[of _ pos']) (simp add: poll.simps[of flt bufferSize read_fail write_fail content pos])
  next
    fix q
    assume "readLine flt bufferSize read_fail content pos = ([], Some EOF, q)" "tailed flt content pos [] q"
      "delimiter \<notin> set (drop q content)"
    then show ?thesis using w
      by (intro exI[of _ "[]"] exI[of _ q]) (simp add: poll.simps[of flt bufferSize read_fail write_fail content pos])
  qed
qed

lemma valid_lines_none: "delimiter \<notin> set s \<Longrightarrow> valid_lines flt s = []"
  by (simp add: valid_lines_def lines_from_none)

lemma Tailer_loop_lines:
  assumes "no_fail read_fail" "\<forall>out line. write_fail out line = None" "no_fail flush_fail"
    and "ticks \<noteq> []" "sorted_wrt prefix ticks" "pos \<le> length (hd ticks)"
  shows "\<exists>pos'. Tailer_loop flt bufferSize read_fail write_fail flush_fail ticks pos out
    = (None, pos', out @ concat (valid_lines flt (drop pos (last ticks))))"
  using assms(4-6)
proof (induction ticks arbitrary: pos out)
  case (Cons content ticks)
  from poll_tailed[OF assms(1,2), of pos content flt bufferSize out] Cons.prems obtain ls pos' where
    p: "poll flt bufferSize read_fail write_fail content pos out = (None, pos', out @ concat ls)"
      "tailed flt content pos ls pos'" "delimiter \<notin> set (drop pos' content)" by auto
  show ?case
  proof (cases "ticks = []")
    case True
    have "valid_lines flt (drop pos content) = ls"
      using p(2,3) valid_lines_none[of "drop pos' content"] by (auto simp: tailed_def dest: spec[of _ "[]"])
    then show ?thesis using True p(1) assms(3) by (simp add: no_fail_def)
  next
    case False
    have "\<forall>t \<in> set ticks. prefix content t" using Cons.prems(2) by simp
    then obtain more1 more2 where m: "hd ticks = content @ more1" "last ticks = content @ more2"
      using False by (metis hd_in_set last_in_set prefix_def)
    have "pos' \<le> length (hd ticks)" using p(2) m(1) by (simp add: tailed_def)
    with Cons.IH[OF False, of pos' "out @ concat ls"] Cons.prems(2) obtain q where
      "Tailer_loop flt bufferSize read_fail write_fail flush_fail ticks pos' (out @ concat ls)
         = (None, q, (out @ concat ls) @ concat (valid_lines flt (drop pos' (last ticks))))" by auto
    moreover have "valid_lines flt (drop pos (last ticks)) = ls @ valid_lines flt (drop pos' (last ticks))"
      unfolding m(2) using p(2) by (simp add: tailed_def)
    moreover have "flush_fail (out @ concat ls) = None" using assms(3) by (simp add: no_fail_def)
    ultimately show ?thesis using False p(1) by simp
  qed
qed simp

text \<open>(C7) While the file only grows and nothing fails, the Tailer writes exactly the complete lines that
  pass the filter, from the position it started at to the end of the file at the last tick, each once
  and in order, however the writes of the file and the ticks are interleaved, and whatever
  the size of the buffer.\<close>

theorem Tailer_writes_lines:
  assumes "no_fail read_fail" "\<forall>out line. write_fail out line = None" "no_fail flush_fail"
    and "ticks \<noteq> []" "sorted_wrt prefix ticks" "pos \<le> length (hd ticks)"
  shows "\<exists>pos'. Tailer_loop flt bufferSize read_fail write_fail flush_fail ticks pos out
    = (None, pos', out @ concat (valid_lines flt (drop pos (last ticks))))"
  using Tailer_loop_lines[OF assms] .

theorem Tailer_writes_lines_witness:
  "\<exists>pos'. Tailer_loop None 0 (\<lambda>_. None) (\<lambda>_ _. None) (\<lambda>_. None :: nat option) [''a'', demo_file] 0 []
     = (None, pos', ''a'' @ [delimiter] @ ''b'' @ [delimiter])"
proof -
  have "prefix ''a'' demo_file" by (simp add: demo_file_def)
  then show ?thesis
    using Tailer_writes_lines[of "\<lambda>_. None :: nat option" "\<lambda>_ _. None" "\<lambda>_. None" "[''a'', demo_file]" 0 None 0 "[]"]
    by (simp add: no_fail_def demo_file_lines)
qed

end
