(* ===== verification/TailerLife.thy ===== *)
theory TailerLife
  imports Tailer Tomb
begin

text \<open>
  The life of a Tailer (\<^verbatim>\<open>src/tailer/tailer.go\<close>): the goroutine that \<^verbatim>\<open>NewTailer\<close> starts, and \<^verbatim>\<open>Stop\<close>,
  \<^verbatim>\<open>Wait\<close>, \<^verbatim>\<open>Dead\<close> and \<^verbatim>\<open>Err\<close>, which are calls to its tomb. The steps of the goroutine are one case of the
  select, one turn of the loop over lines, the flush, and the two deferred calls; they are interleaved
  with writers that append to the file and with callers of \<^verbatim>\<open>Stop\<close>. Every read, write and flush may fail.
  What one tick does in one go is \<open>poll\<close> of \<open>Tailer\<close>.
\<close>

subsection \<open>The Tailer and its goroutine\<close>

datatype 'err tail_pc = Selecting | Polling | Flushing | Returned "'err loop_error option" | Killed | Ended

text \<open>\<open>tl_content\<close> and \<open>tl_pos\<close> are the file behind the ReadSeeker and its position, \<open>tl_out\<close> is what was handed to
  the buffered writer.\<close>

record ('t, 'err) tailer =
  tl_tomb :: 't
  tl_content :: string
  tl_pos :: nat
  tl_bufferSize :: nat
  tl_out :: string
  tl_filter :: filterFunc
  tl_polltime :: int
  tl_pc :: "'err tail_pc"

definition defaultBufferSize :: nat where "defaultBufferSize = 4096"

definition default_polltime :: int where "default_polltime = 1000000000"

definition newTailer ::
  "('t, 'err loop_error) tomb_ops \<Rightarrow> nat \<Rightarrow> string \<Rightarrow> nat \<Rightarrow> filterFunc \<Rightarrow> int \<Rightarrow> ('t, 'err) tailer" where
  "newTailer T bufferSize content pos flt polltime =
     \<lparr>tl_tomb = tomb_new T, tl_content = content, tl_pos = pos, tl_bufferSize = bufferSize, tl_out = [],
      tl_filter = flt, tl_polltime = polltime, tl_pc = Selecting\<rparr>"

definition NewTailer ::
  "('t, 'err loop_error) tomb_ops \<Rightarrow> string \<Rightarrow> nat \<Rightarrow> filterFunc \<Rightarrow> ('t, 'err) tailer" where
  "NewTailer T content pos flt = newTailer T defaultBufferSize content pos flt default_polltime"

text \<open>One turn of the inner loop.\<close>

definition poll_turn ::
  "(nat \<Rightarrow> 'err option) \<Rightarrow> (string \<Rightarrow> string \<Rightarrow> 'err option) \<Rightarrow> ('t, 'err) tailer \<Rightarrow> ('t, 'err) tailer" where
  "poll_turn read_fail write_fail s =
     (case readLine (tl_filter s) (tl_bufferSize s) read_fail (tl_content s) (tl_pos s) of
        (line, readErr, pos') \<Rightarrow>
          (case write_fail (tl_out s) line of
             Some writeErr \<Rightarrow> s\<lparr>tl_pos := pos', tl_pc := Returned (Some (WriteErr writeErr))\<rparr>
           | None \<Rightarrow>
               (let s' = s\<lparr>tl_pos := pos', tl_out := tl_out s @ line\<rparr> in
                case readErr of
                  None \<Rightarrow> s'
                | Some err \<Rightarrow>
                    if err \<noteq> EOF then s'\<lparr>tl_pc := Returned (Some (ReadErr err))\<rparr> else s'\<lparr>tl_pc := Flushing\<rparr>)))"

definition flush_step :: "(string \<Rightarrow> 'err option) \<Rightarrow> ('t, 'err) tailer \<Rightarrow> ('t, 'err) tailer" where
  "flush_step flush_fail s =
     (case flush_fail (tl_out s) of
        Some writeErr \<Rightarrow> s\<lparr>tl_pc := Returned (Some (WriteErr writeErr))\<rparr>
      | None \<Rightarrow> s\<lparr>tl_pc := Selecting\<rparr>)"

text \<open>The calls to the tomb. \<^verbatim>\<open>Wait\<close> blocks (\<^const>\<open>None\<close>) until the goroutine has ended; \<^verbatim>\<open>Stop\<close> kills and then
  waits; the channel \<^verbatim>\<open>Dead\<close> is closed or not.\<close>

definition Tailer_Stop_kill :: "('t, 'err loop_error) tomb_ops \<Rightarrow> ('t, 'err) tailer \<Rightarrow> ('t, 'err) tailer" where
  "Tailer_Stop_kill T s = s\<lparr>tl_tomb := tomb_Kill T None (tl_tomb s)\<rparr>"

definition Tailer_Wait :: "('t, 'err loop_error) tomb_ops \<Rightarrow> ('t, 'err) tailer \<Rightarrow> 'err loop_error option option" where
  "Tailer_Wait T s = tomb_Wait T (tl_tomb s)"

definition Tailer_Dead :: "('t, 'err loop_error) tomb_ops \<Rightarrow> ('t, 'err) tailer \<Rightarrow> bool" where
  "Tailer_Dead T s = tomb_Dead T (tl_tomb s)"

definition Tailer_Err :: "('t, 'err loop_error) tomb_ops \<Rightarrow> ('t, 'err) tailer \<Rightarrow> 'err loop_error option" where
  "Tailer_Err T s = tomb_Err T (tl_tomb s)"

text \<open>The steps: the timer, what the goroutine does by itself, and what others do.\<close>

datatype tail_label = Tick | Own | Others

inductive tail_step ::
  "('t, 'err loop_error) tomb_ops \<Rightarrow> tail_label \<Rightarrow> ('t, 'err) tailer \<Rightarrow> ('t, 'err) tailer \<Rightarrow> bool" for T where
  tick: "tl_pc s = Selecting \<Longrightarrow> tail_step T Tick s (s\<lparr>tl_pc := Polling\<rparr>)"
| dying: "tl_pc s = Selecting \<Longrightarrow> tomb_Dying T (tl_tomb s) \<Longrightarrow> tail_step T Own s (s\<lparr>tl_pc := Returned None\<rparr>)"
| turn: "tl_pc s = Polling \<Longrightarrow> tail_step T Own s (poll_turn read_fail write_fail s)"
| flush: "tl_pc s = Flushing \<Longrightarrow> tail_step T Own s (flush_step flush_fail s)"
| kill: "tl_pc s = Returned err \<Longrightarrow>
    tail_step T Own s (s\<lparr>tl_tomb := tomb_Kill T err (tl_tomb s), tl_pc := Killed\<rparr>)"
| ends: "tl_pc s = Killed \<Longrightarrow> tail_step T Own s (s\<lparr>tl_tomb := tomb_Done T (tl_tomb s), tl_pc := Ended\<rparr>)"
| append: "tail_step T Others s (s\<lparr>tl_content := tl_content s @ added\<rparr>)"
| call_Stop: "tail_step T Others s (Tailer_Stop_kill T s)"

inductive tail_reach ::
  "('t, 'err loop_error) tomb_ops \<Rightarrow> ('t, 'err) tailer \<Rightarrow> ('t, 'err) tailer \<Rightarrow> bool" for T s0 where
  start: "tail_reach T s0 s0"
| step: "tail_reach T s0 s \<Longrightarrow> tail_step T l s s' \<Longrightarrow> tail_reach T s0 s'"

subsection \<open>Reading with faults\<close>

abbreviation no_fault :: "nat \<Rightarrow> 'err option" where "no_fault \<equiv> \<lambda>_. None"

text \<open>A read that does not fail does what it does without faults.\<close>

lemma ReadSlice_fault:
  "ReadSlice n rf content pos = ReadSlice n no_fault content pos
   \<or> (\<exists>err. ReadSlice n rf content pos = ([], Some (ReadError err)))"
  by (simp add: ReadSlice_def split: option.split)

lemma read_more_fault:
  "read_more n rf content line err pos = read_more n no_fault content line err pos
   \<or> (\<exists>l e q. read_more n rf content line err pos = (l, Some (ReadError e), q))"
proof (induction n rf content line err pos rule: read_more.induct)
  case (1 n rf content line err pos)
  show ?case
  proof (cases "err = Some ErrBufferFull")
    case True
    obtain sl e where r: "ReadSlice n rf content pos = (sl, e)" by force
    note step = read_more_full[OF r, of line] 1[OF True r[symmetric]]
    from ReadSlice_fault[of n rf content pos] show ?thesis
    proof
      assume "ReadSlice n rf content pos = ReadSlice n no_fault content pos"
      then have "ReadSlice n no_fault content pos = (sl, e)" using r by simp
      from read_more_full[OF this, of line] show ?thesis using step unfolding True by metis
    next
      assume "\<exists>err. ReadSlice n rf content pos = ([], Some (ReadError err))"
      then show ?thesis using r step(1) unfolding True by (auto simp: read_more_stop)
    qed
  qed (simp add: read_more_stop)
qed

lemma readLine_fault:
  fixes rf :: "nat \<Rightarrow> 'err option"
  shows "readLine flt n rf content pos = readLine flt n no_fault content pos
   \<or> (\<exists>e q. readLine flt n rf content pos = ([], Some (ReadError e), q))"
proof (induction flt n rf content pos rule: readLine.induct)
  case (1 flt n rf content pos)
  obtain sl e where r: "ReadSlice n rf content pos = (sl, e)" by force
  note rl = readLine.simps[of flt n rf content pos] and rl0 = readLine.simps[of flt n "no_fault :: nat \<Rightarrow> 'err option" content pos]
  from ReadSlice_fault[of n rf content pos] show ?case
  proof
    assume "\<exists>err. ReadSlice n rf content pos = ([], Some (ReadError err))"
    then show ?thesis using rl by (auto simp: read_more_stop)
  next
    assume "ReadSlice n rf content pos = ReadSlice n no_fault content pos"
    then have r0: "ReadSlice n no_fault content pos = (sl, e)" using r by simp
    show ?thesis
    proof (cases e)
      case None
      then show ?thesis using 1(1)[OF r[symmetric] None] rl rl0 r r0 by (cases "passes flt sl") simp_all
    next
      case (Some err)
      obtain l e' q where m: "read_more n rf content sl (Some err) (pos + length sl) = (l, e', q)"
        using prod_cases3 by blast
      from read_more_fault[of n rf content sl "Some err" "pos + length sl"] show ?thesis
      proof
        assume "read_more n rf content sl (Some err) (pos + length sl) = read_more n no_fault content sl (Some err) (pos + length sl)"
        then have m0: "read_more n no_fault content sl (Some err) (pos + length sl) = (l, e', q)" using m by simp
        show ?thesis
        proof (cases e')
          case None
          then show ?thesis using 1(2)[OF r[symmetric] Some m[symmetric] refl None] rl rl0 r r0 m m0 Some
            by (cases "passes flt l") simp_all
        qed (use rl rl0 r r0 m m0 Some in simp)
      next
        assume "\<exists>l e q. read_more n rf content sl (Some err) (pos + length sl) = (l, Some (ReadError e), q)"
        then show ?thesis using rl r Some by auto
      qed
    qed
  qed
qed

lemma readLine_outcome:
  assumes "pos \<le> length content"
  obtains l q where "readLine flt n rf content pos = (l, None, q)" "tailed flt content pos [l] q"
      "length content - q < length content - pos"
  | q where "readLine flt n rf content pos = ([], Some EOF, q)" "tailed flt content pos [] q"
      "delimiter \<notin> set (drop q content)"
  | e q where "readLine flt n rf content pos = ([], Some (ReadError e), q)"
proof -
  have "no_fail no_fault" by (simp add: no_fail_def)
  from readLine_tailed[OF this assms, of flt n] readLine_fault[of flt n rf content pos] that show thesis
    by metis
qed

lemma tailed_grow: "tailed flt content pos ls q \<Longrightarrow> tailed flt (content @ added) pos ls q"
  unfolding tailed_def append_assoc by (auto simp del: drop_append)

lemma tailed_prefix: "tailed flt content pos ls q \<Longrightarrow> prefix ls (valid_lines flt (drop pos content))"
  by (auto simp: tailed_def prefix_def dest: spec[of _ "[]"])

lemma tailed_all:
  "tailed flt content pos ls q \<Longrightarrow> delimiter \<notin> set (drop q content) \<Longrightarrow> ls = valid_lines flt (drop pos content)"
  using valid_lines_none[of "drop q content" flt] by (auto simp: tailed_def dest: spec[of _ "[]"])

subsection \<open>The invariant\<close>

text \<open>What was written: the valid lines of the file as it was at some earlier time, or only the first of them.\<close>

definition caught_up :: "filterFunc \<Rightarrow> nat \<Rightarrow> string \<Rightarrow> string \<Rightarrow> bool" where
  "caught_up flt pos content out \<longleftrightarrow>
     (\<exists>c. prefix c content \<and> pos \<le> length c \<and> out = concat (valid_lines flt (drop pos c)))"

definition whole_lines :: "filterFunc \<Rightarrow> nat \<Rightarrow> string \<Rightarrow> string \<Rightarrow> bool" where
  "whole_lines flt pos content out \<longleftrightarrow>
     pos \<le> length content \<and> (\<exists>ls. prefix ls (valid_lines flt (drop pos content)) \<and> out = concat ls)"

definition real_error :: "'err loop_error option \<Rightarrow> bool" where
  "real_error e \<longleftrightarrow> e \<noteq> Some (ReadErr EOF) \<and> e \<noteq> Some (ReadErr ErrBufferFull)"

definition reading :: "nat \<Rightarrow> ('t, 'err) tailer \<Rightarrow> bool" where
  "reading start s \<longleftrightarrow> (\<exists>ls. tailed (tl_filter s) (tl_content s) start ls (tl_pos s) \<and> tl_out s = concat ls)"

abbreviation written :: "nat \<Rightarrow> ('t, 'err) tailer \<Rightarrow> 'err loop_error option \<Rightarrow> bool" where
  "written start s e \<equiv>
     whole_lines (tl_filter s) start (tl_content s) (tl_out s) \<and> real_error e
     \<and> (e = None \<longrightarrow> caught_up (tl_filter s) start (tl_content s) (tl_out s))"

definition tail_inv :: "('t, 'err loop_error) tomb_ops \<Rightarrow> nat \<Rightarrow> ('t, 'err) tailer \<Rightarrow> bool" where
  "tail_inv T start s \<longleftrightarrow>
     (let unkilled = (tomb_Reason T (tl_tomb s) = None \<and> \<not> tomb_Dead T (tl_tomb s)) in
      case tl_pc s of
        Selecting \<Rightarrow> unkilled \<and> reading start s \<and> caught_up (tl_filter s) start (tl_content s) (tl_out s)
      | Polling \<Rightarrow> unkilled \<and> reading start s
      | Flushing \<Rightarrow> unkilled \<and> reading start s \<and> caught_up (tl_filter s) start (tl_content s) (tl_out s)
      | Returned e \<Rightarrow> unkilled \<and> written start s e
      | Killed \<Rightarrow> tomb_Dying T (tl_tomb s) \<and> \<not> tomb_Dead T (tl_tomb s) \<and> written start s (tomb_Reason T (tl_tomb s))
      | Ended \<Rightarrow> tomb_Dying T (tl_tomb s) \<and> tomb_Dead T (tl_tomb s) \<and> written start s (tomb_Reason T (tl_tomb s)))"

lemma whole_lines_grow: "whole_lines flt pos content out \<Longrightarrow> whole_lines flt pos (content @ added) out"
  unfolding whole_lines_def
  using valid_lines_append[of flt "drop pos content" added] by (auto intro: prefix_order.trans)

lemma caught_up_grow: "caught_up flt pos content out \<Longrightarrow> caught_up flt pos (content @ added) out"
  unfolding caught_up_def by (blast intro: prefix_prefix)

lemma caught_up_whole: "caught_up flt pos content out \<Longrightarrow> whole_lines flt pos content out"
proof -
  assume "caught_up flt pos content out"
  then obtain c r where c: "content = c @ r" "pos \<le> length c" "out = concat (valid_lines flt (drop pos c))"
    by (auto simp: caught_up_def prefix_def)
  then have "whole_lines flt pos c out" by (auto simp: whole_lines_def)
  then show ?thesis unfolding c(1) by (rule whole_lines_grow)
qed

lemma reading_whole: "reading start s \<Longrightarrow> start \<le> length (tl_content s) \<Longrightarrow> whole_lines (tl_filter s) start (tl_content s) (tl_out s)"
  by (auto simp: reading_def whole_lines_def dest: tailed_prefix)

lemma tail_inv_turn:
  assumes inv: "tail_inv T start s" and pc: "tl_pc s = Polling" and start: "start \<le> length (tl_content s)"
  shows "tail_inv T start (poll_turn read_fail write_fail s)"
proof -
  obtain ls where ls: "tailed (tl_filter s) (tl_content s) start ls (tl_pos s)" "tl_out s = concat ls"
    and alive: "tomb_Reason T (tl_tomb s) = None" "\<not> tomb_Dead T (tl_tomb s)"
    using inv pc by (auto simp: tail_inv_def reading_def)
  have whole: "whole_lines (tl_filter s) start (tl_content s) (tl_out s)"
    using ls start by (auto simp: whole_lines_def dest: tailed_prefix)
  have "tl_pos s \<le> length (tl_content s)" using ls(1) by (simp add: tailed_def)
  then show ?thesis
  proof (cases rule: readLine_outcome[of "tl_pos s" "tl_content s" "tl_filter s" "tl_bufferSize s" read_fail])
    case (1 l q)
    then have "tailed (tl_filter s) (tl_content s) start (ls @ [l]) q" using ls(1) tailed_trans by blast
    then show ?thesis using 1 pc alive ls(2) whole
      by (force simp: poll_turn_def tail_inv_def reading_def real_error_def split: option.split)
  next
    case (2 q)
    have t: "tailed (tl_filter s) (tl_content s) start ls q" using 2(2) ls(1) tailed_trans by fastforce
    then have "caught_up (tl_filter s) start (tl_content s) (concat ls)"
      using tailed_all[OF t 2(3)] start by (auto simp: caught_up_def)
    then show ?thesis using 2 pc alive ls(2) whole t
      by (force simp: poll_turn_def tail_inv_def reading_def real_error_def split: option.split)
  next
    case (3 e q)
    then show ?thesis using pc alive whole
      by (auto simp: poll_turn_def tail_inv_def real_error_def split: option.split)
  qed
qed

lemma tail_inv_flush:
  assumes "tail_inv T start s" "tl_pc s = Flushing" "start \<le> length (tl_content s)"
  shows "tail_inv T start (flush_step flush_fail s)"
  using assms caught_up_whole
  by (auto simp: tail_inv_def flush_step_def reading_def real_error_def split: option.split)

lemma tail_inv_append:
  assumes "tail_inv T start s"
  shows "tail_inv T start (s\<lparr>tl_content := tl_content s @ added\<rparr>)"
proof -
  have "reading start (s\<lparr>tl_content := tl_content s @ added\<rparr>)" if "reading start s"
    using that by (auto simp: reading_def dest: tailed_grow)
  then show ?thesis
    using assms whole_lines_grow caught_up_grow by (auto simp: tail_inv_def split: tail_pc.splits)
qed

lemma tail_inv_step:
  assumes "tomb_laws T" "tail_step T l s s'" "tail_inv T start s" "start \<le> length (tl_content s)"
  shows "tail_inv T start s' \<and> start \<le> length (tl_content s')
    \<and> tl_filter s' = tl_filter s \<and> tl_bufferSize s' = tl_bufferSize s"
  using assms(2)
proof cases
  case (turn rf wrf)
  then show ?thesis using tail_inv_turn[OF assms(3) turn(3) assms(4)] assms(4)
    by (auto simp: poll_turn_def Let_def split: prod.splits option.splits)
next
  case (flush ff)
  then show ?thesis using tail_inv_flush[OF assms(3) flush(3) assms(4)] assms(4)
    by (auto simp: flush_step_def split: option.splits)
next
  case (append added)
  then show ?thesis using tail_inv_append[OF assms(3)] assms(4) by simp
next
  case dying
  then show ?thesis using assms(3,4) caught_up_whole by (auto simp: tail_inv_def reading_def real_error_def)
next
  case tick
  then show ?thesis using assms(3,4) by (auto simp: tail_inv_def reading_def)
next
  case call_Stop
  then show ?thesis using assms(3,4)
    by (auto simp: tail_inv_def Tailer_Stop_kill_def reading_def tomb_lawsD[OF assms(1)] split: tail_pc.splits)
next
  case (kill err)
  then show ?thesis using assms(3,4) by (auto simp: tail_inv_def tomb_lawsD[OF assms(1)])
next
  case ends
  then show ?thesis using assms(3,4) by (auto simp: tail_inv_def tomb_lawsD[OF assms(1)])
qed

lemma tail_reach_inv:
  assumes T: "tomb_laws T" and pos: "pos \<le> length content"
    and reach: "tail_reach T (newTailer T bufferSize content pos flt polltime) s"
  shows "tail_inv T pos s" "pos \<le> length (tl_content s)" "tl_filter s = flt" "tl_bufferSize s = bufferSize"
proof -
  have "tail_inv T pos s \<and> pos \<le> length (tl_content s) \<and> tl_filter s = flt \<and> tl_bufferSize s = bufferSize"
    using reach
  proof induction
    case start
    have "caught_up flt pos content []"
      using pos valid_lines_none[of "drop pos (take pos content)" flt]
      by (auto simp: caught_up_def intro!: exI[of _ "take pos content"] take_is_prefix)
    moreover have "tailed flt content pos [] pos" using tailed_refl[OF pos] .
    ultimately show ?case
      using pos by (auto simp: newTailer_def tail_inv_def reading_def tomb_lawsD[OF T])
  next
    case (step s l s')
    then show ?case using tail_inv_step[OF T step.hyps(2)] by auto
  qed
  then show "tail_inv T pos s" "pos \<le> length (tl_content s)" "tl_filter s = flt" "tl_bufferSize s = bufferSize"
    by blast+
qed

subsection \<open>What is written and what Wait returns\<close>


subsection \<open>Stop returns\<close>

fun rank :: "'err tail_pc \<Rightarrow> nat" where
  "rank Polling = 5"
| "rank Flushing = 4"
| "rank Selecting = 3"
| "rank (Returned e) = 2"
| "rank Killed = 1"
| "rank Ended = 0"

definition work :: "('t, 'err) tailer \<Rightarrow> nat" where
  "work s = rank (tl_pc s) + (if tl_pc s = Polling then length (tl_content s) - tl_pos s else 0)"

lemma own_step_work:
  assumes "tail_step T Own s s'"
  shows "work s' < work s"
  using assms
proof cases
  case (turn rf wrf)
  obtain l e q where r: "readLine (tl_filter s) (tl_bufferSize s) rf (tl_content s) (tl_pos s) = (l, e, q)"
    using prod_cases3 by blast
  then show ?thesis using turn readLine_progress[of l q "tl_filter s" "tl_bufferSize s" rf "tl_content s" "tl_pos s"]
    by (auto simp: poll_turn_def work_def Let_def split: option.splits)
qed (auto simp: work_def flush_step_def split: option.splits)

text \<open>(C10) After \<^verbatim>\<open>Stop\<close> the goroutine ends and \<^verbatim>\<open>Stop\<close> returns: unless it has ended it has a step of its own,
  every one of which, whether its calls fail or not, brings the end nearer, and no more than a turn per
  line and five others are left. Only the timer, if the select prefers it to the dying tomb, delays it.\<close>

theorem Tailer_Stop_returns:
  assumes "tomb_laws T" "tail_reach T (newTailer T bufferSize content pos flt polltime) s" "pos \<le> length content"
    and "tomb_Dying T (tl_tomb s)"
  shows "(Tailer_Wait T s = None \<longrightarrow> (\<exists>s'. tail_step T Own s s'))
    \<and> (\<forall>s'. tail_step T Own s s' \<longrightarrow> tomb_Dying T (tl_tomb s') \<and> work s' < work s)
    \<and> work s \<le> length (tl_content s) - tl_pos s + 5
    \<and> (work s = 0 \<longleftrightarrow> Tailer_Wait T s \<noteq> None)"
proof (intro conjI)
  note inv = tail_reach_inv[OF assms(1,3,2)]
  show "Tailer_Wait T s = None \<longrightarrow> (\<exists>s'. tail_step T Own s s')"
    using inv(1) assms(4) by (cases "tl_pc s")
      (auto simp: tail_inv_def Tailer_Wait_def tomb_Wait_def intro: tail_step.intros)
  have "tomb_Dying T (tl_tomb s')" if "tail_step T Own s s'" for s'
    using that assms(4) by cases
      (auto simp: tomb_lawsD[OF assms(1)] poll_turn_def flush_step_def Let_def split: prod.splits option.splits)
  then show "\<forall>s'. tail_step T Own s s' \<longrightarrow> tomb_Dying T (tl_tomb s') \<and> work s' < work s"
    using own_step_work by blast
  show "work s \<le> length (tl_content s) - tl_pos s + 5" by (cases "tl_pc s") (simp_all add: work_def)
  show "work s = 0 \<longleftrightarrow> Tailer_Wait T s \<noteq> None"
    using inv(1) by (cases "tl_pc s") (auto simp: work_def tail_inv_def Tailer_Wait_def tomb_Wait_def)
qed

subsection \<open>The loop as a run\<close>

lemma poll_run:
  "tl_pc s = Polling \<Longrightarrow>
   poll (tl_filter s) (tl_bufferSize s) rf wrf (tl_content s) (tl_pos s) (tl_out s) = (e, q, out) \<Longrightarrow>
   (tail_step T Own)\<^sup>*\<^sup>* s
     (s\<lparr>tl_pos := q, tl_out := out, tl_pc := (case e of None \<Rightarrow> Flushing | Some err \<Rightarrow> Returned (Some err))\<rparr>)"
proof (induction "length (tl_content s) - tl_pos s" arbitrary: s rule: less_induct)
  case less
  obtain l r q' where rl: "readLine (tl_filter s) (tl_bufferSize s) rf (tl_content s) (tl_pos s) = (l, r, q')"
    using prod_cases3 by blast
  have p: "(case wrf (tl_out s) l of
      Some err \<Rightarrow> (Some (WriteErr err), q', tl_out s)
    | None \<Rightarrow> (case r of
        Some err \<Rightarrow> if err \<noteq> EOF then (Some (ReadErr err), q', tl_out s @ l) else (None, q', tl_out s @ l)
      | None \<Rightarrow> poll (tl_filter s) (tl_bufferSize s) rf wrf (tl_content s) q' (tl_out s @ l))) = (e, q, out)"
    using less.prems(2) rl by (subst (asm) poll.simps) simp
  have t: "tail_step T Own s (poll_turn rf wrf s)" using less.prems(1) by (rule tail_step.turn)
  show ?case
  proof (cases "wrf (tl_out s) l = None \<and> r = None")
    case True
    let ?s = "s\<lparr>tl_pos := q', tl_out := tl_out s @ l\<rparr>"
    have "length (tl_content s) - q' < length (tl_content s) - tl_pos s" using readLine_progress rl True by metis
    with less.hyps[of ?s] less.prems(1) p True
    have "(tail_step T Own)\<^sup>*\<^sup>* ?s (?s\<lparr>tl_pos := q, tl_out := out,
        tl_pc := (case e of None \<Rightarrow> Flushing | Some err \<Rightarrow> Returned (Some err))\<rparr>)" by simp
    moreover have "poll_turn rf wrf s = ?s" using rl True by (simp add: poll_turn_def)
    ultimately show ?thesis using t by (simp add: converse_rtranclp_into_rtranclp)
  next
    case False
    then have "poll_turn rf wrf s =
        s\<lparr>tl_pos := q, tl_out := out, tl_pc := (case e of None \<Rightarrow> Flushing | Some err \<Rightarrow> Returned (Some err))\<rparr>"
      using rl p by (auto simp: poll_turn_def split: option.splits if_splits)
    then show ?thesis using t by auto
  qed
qed

lemma tail_reach_own: "(tail_step T Own)\<^sup>*\<^sup>* s s' \<Longrightarrow> tail_reach T s0 s \<Longrightarrow> tail_reach T s0 s'"
  by (induction rule: rtranclp_induct) (auto intro: tail_reach.step)

text \<open>The ticks of \<open>Tailer_loop\<close> are a run of the goroutine while writers append to the file.\<close>

lemma Tailer_loop_run:
  "tail_reach T s0 s \<Longrightarrow> tl_pc s = Selecting \<Longrightarrow> sorted_wrt prefix (tl_content s # ticks) \<Longrightarrow>
   Tailer_loop (tl_filter s) (tl_bufferSize s) rf wrf ff ticks (tl_pos s) (tl_out s) = (e, q, out) \<Longrightarrow>
   \<exists>s'. tail_reach T s0 s' \<and> tl_pos s' = q \<and> tl_out s' = out \<and> tl_tomb s' = tl_tomb s
     \<and> tl_pc s' = (case e of None \<Rightarrow> Selecting | Some err \<Rightarrow> Returned (Some err))"
proof (induction ticks arbitrary: s)
  case (Cons c ticks)
  from Cons.prems(3) obtain added where c: "c = tl_content s @ added" by (auto simp: prefix_def)
  let ?t = "s\<lparr>tl_content := c, tl_pc := Polling\<rparr>"
  have "tail_reach T s0 (s\<lparr>tl_content := c\<rparr>)"
    unfolding c using Cons.prems(1) tail_step.append by (rule tail_reach.step)
  from tail_reach.step[OF this tail_step.tick] Cons.prems(2) have t: "tail_reach T s0 ?t" by simp
  obtain e' q' out' where p: "poll (tl_filter s) (tl_bufferSize s) rf wrf c (tl_pos s) (tl_out s) = (e', q', out')"
    using prod_cases3 by blast
  let ?u = "?t\<lparr>tl_pos := q', tl_out := out', tl_pc := (case e' of None \<Rightarrow> Flushing | Some err \<Rightarrow> Returned (Some err))\<rparr>"
  have u: "tail_reach T s0 ?u" using poll_run[of ?t] p by (intro tail_reach_own[OF _ t]) simp
  show ?case
  proof (cases e')
    case (Some err)
    then have "e = e' \<and> q = q' \<and> out = out'" using p Cons.prems(4) by simp
    then show ?thesis using u Some by (intro exI[of _ ?u]) simp
  next
    case None
    have "tail_step T Own ?u (flush_step ff ?u)" using None by (intro tail_step.flush) simp
    from tail_reach.step[OF u this] have f: "tail_reach T s0 (flush_step ff ?u)" .
    show ?thesis
    proof (cases "ff out'")
      case (Some err)
      then have "e = Some (WriteErr err) \<and> q = q' \<and> out = out'" using p Cons.prems(4) None by simp
      then show ?thesis using f None Some by (intro exI[of _ "flush_step ff ?u"]) (simp add: flush_step_def)
    next
      case F: None
      have "flush_step ff ?u = ?u\<lparr>tl_pc := Selecting\<rparr>" using F None by (simp add: flush_step_def)
      then show ?thesis using Cons.IH[of "?u\<lparr>tl_pc := Selecting\<rparr>"] f p Cons.prems(3,4) F None by simp
    qed
  qed
qed auto

lemma Tailer_stop_run:
  assumes "tomb_laws T" "tail_reach T s0 s" "tl_pc s = Selecting"
  shows "tail_reach T s0 (s\<lparr>tl_tomb := tomb_Done T (tomb_Kill T None (tomb_Kill T None (tl_tomb s))), tl_pc := Ended\<rparr>)"
proof -
  let ?t = "tomb_Kill T None (tl_tomb s)"
  have "tail_reach T s0 (s\<lparr>tl_tomb := ?t\<rparr>)"
    using tail_reach.step[OF assms(2) tail_step.call_Stop] by (simp add: Tailer_Stop_kill_def)
  from tail_reach.step[OF this tail_step.dying] have "tail_reach T s0 (s\<lparr>tl_tomb := ?t, tl_pc := Returned None\<rparr>)"
    using assms(3) by (simp add: tomb_lawsD[OF assms(1)])
  from tail_reach.step[OF this tail_step.kill[of _ None]]
  have "tail_reach T s0 (s\<lparr>tl_tomb := tomb_Kill T None ?t, tl_pc := Killed\<rparr>)" by simp
  from tail_reach.step[OF this tail_step.ends] show ?thesis by simp
qed

subsection \<open>Witnesses\<close>

type_synonym demo_tailer = "(bool \<times> bool \<times> nat loop_error option, nat) tailer"

definition tail_tomb :: "(bool \<times> bool \<times> nat loop_error option, nat loop_error) tomb_ops" where
  "tail_tomb = demo_tomb (WriteErr 0)"

lemma tail_tomb_laws: "tomb_laws tail_tomb"
  by (simp add: tail_tomb_def demo_tomb_laws)

text \<open>The two lines of a file are written at the first tick; the rest of the file has no end yet.\<close>

lemma demo_tail:
  "\<exists>s :: demo_tailer. tail_reach tail_tomb (newTailer tail_tomb 16 demo_file 0 None 1) s \<and> tl_pc s = Selecting
     \<and> tl_out s = ''a'' @ [delimiter] @ ''b'' @ [delimiter] \<and> tl_tomb s = tomb_new tail_tomb"
proof -
  let ?s = "newTailer tail_tomb 16 demo_file 0 None 1 :: demo_tailer"
  let ?loop = "Tailer_loop None 16 (\<lambda>_. None :: nat option) (\<lambda>_ _. None) (\<lambda>_. None) [demo_file] 0 []"
  have nf: "no_fail (\<lambda>_. None :: nat option)" by (simp add: no_fail_def)
  from poll_tailed[OF nf, of "\<lambda>_ _. None" 0 demo_file None 16 "[]"] obtain ls q where
    p: "poll None 16 (\<lambda>_. None :: nat option) (\<lambda>_ _. None) demo_file 0 [] = (None, q, concat ls)"
      "tailed None demo_file 0 ls q" "delimiter \<notin> set (drop q demo_file)" by auto
  have "ls = valid_lines None demo_file" using tailed_all[OF p(2,3)] by simp
  then have "?loop = (None, q, ''a'' @ [delimiter] @ ''b'' @ [delimiter])"
    using p(1) by (simp add: demo_file_lines)
  with Tailer_loop_run[OF tail_reach.start[of tail_tomb ?s], of "[demo_file]" "\<lambda>_. None" "\<lambda>_ _. None" "\<lambda>_. None"]
  show ?thesis by (fastforce simp: newTailer_def)
qed


theorem Tailer_Stop_returns_witness:
  "\<exists>s s' :: demo_tailer. tail_reach tail_tomb (newTailer tail_tomb 16 demo_file 0 None 1) s
     \<and> tl_out s = ''a'' @ [delimiter] @ ''b'' @ [delimiter] \<and> Tailer_Wait tail_tomb s = None
     \<and> tail_step tail_tomb Own s s' \<and> work s' < work s"
proof -
  from demo_tail obtain s :: demo_tailer where
    s: "tail_reach tail_tomb (newTailer tail_tomb 16 demo_file 0 None 1) s" "tl_pc s = Selecting"
      "tl_out s = ''a'' @ [delimiter] @ ''b'' @ [delimiter]" "tl_tomb s = tomb_new tail_tomb" by blast
  let ?s = "Tailer_Stop_kill tail_tomb s"
  have r: "tail_reach tail_tomb (newTailer tail_tomb 16 demo_file 0 None 1) ?s"
    using s(1) tail_step.call_Stop by (rule tail_reach.step)
  have d: "tomb_Dying tail_tomb (tl_tomb ?s)" "Tailer_Wait tail_tomb ?s = None"
    by (simp_all add: Tailer_Stop_kill_def Tailer_Wait_def tomb_Wait_def s(4) tomb_lawsD[OF tail_tomb_laws])
  from Tailer_Stop_returns[OF tail_tomb_laws r _ d(1)] obtain s' where "tail_step tail_tomb Own ?s s'" "work s' < work ?s"
    using d(2) by auto
  then show ?thesis using r d(2) s(3) by (intro exI[of _ ?s] exI[of _ s']) (simp add: Tailer_Stop_kill_def)
qed

end
