(* ===== verification/FileStorage.thy ===== *)
theory FileStorage
  imports Prelude
begin

text \<open>
  The package \<^verbatim>\<open>filestorage\<close>: the metadata of a stored file
  (\<^verbatim>\<open>src/filestorage/metadata.go\<close>), the metadata storage derived from a document storage
  (\<^verbatim>\<open>metadata_store.go\<close>), and the FileStorage that combines a metadata storage and a raw file
  storage (\<^verbatim>\<open>wrapper.go\<close>). The two storages are interfaces whose implementations are
  not part of the repository: their operations are the arguments \<open>M\<close> and \<open>R\<close>, and what the comments
  of \<^verbatim>\<open>interfaces.go\<close> promise of them are the predicates \<open>metadata_storage\<close> and
  \<open>raw_file_storage\<close>. \<^verbatim>\<open>errors.Trace\<close> only adds a position to an error and is left out; the
  errors that \<^verbatim>\<open>errors.IsNotFound\<close> recognises are an argument.
\<close>

datatype 'e err = Errorf string | NotFoundf string | Cause 'e | Annotate "'e err" string | Wrap "'e err" "'e err"

subsection \<open>Metadata\<close>

text \<open>Times are integers.\<close>

record FileMetadata =
  meta_ID :: string
  meta_Size :: "64 word"
  meta_Checksum :: string
  meta_ChecksumFormat :: string
  meta_Stored :: "int option"

definition NewMetadata :: FileMetadata where
  "NewMetadata = \<lparr>meta_ID = [], meta_Size = 0, meta_Checksum = [], meta_ChecksumFormat = [], meta_Stored = None\<rparr>"

definition Doc_SetID :: "string \<Rightarrow> FileMetadata \<Rightarrow> bool \<times> FileMetadata" where
  "Doc_SetID i d = (if meta_ID d \<noteq> [] then (True, d) else (False, d\<lparr>meta_ID := i\<rparr>))"

definition SetFileInfo :: "64 word \<Rightarrow> string \<Rightarrow> string \<Rightarrow> FileMetadata \<Rightarrow> 'e err option \<times> FileMetadata" where
  "SetFileInfo fsize0 checksum0 format0 m =
     (let fsize = if fsize0 = 0 then meta_Size m else fsize0;
          checksum = if checksum0 = [] then meta_Checksum m else checksum0;
          format = if format0 = [] then meta_ChecksumFormat m else format0
      in if checksum \<noteq> [] \<and> format = [] then (Some (Errorf ''missing checksum format''), m)
         else if checksum = [] \<and> format \<noteq> [] then (Some (Errorf ''missing checksum''), m)
         else if meta_Size m \<noteq> 0 \<and> fsize \<noteq> meta_Size m
           then (Some (Errorf ''file information (size) already set''), m)
         else if meta_Checksum m \<noteq> [] \<and> checksum \<noteq> meta_Checksum m
           then (Some (Errorf ''file information (checksum) already set''), m)
         else if meta_ChecksumFormat m \<noteq> [] \<and> format \<noteq> meta_ChecksumFormat m
           then (Some (Errorf ''file information (checksum format) already set''), m)
         else (None, m\<lparr>meta_Size := fsize, meta_Checksum := checksum, meta_ChecksumFormat := format\<rparr>))"

text \<open>\<open>now\<close> is the reading of the clock.\<close>

definition SetStored :: "int \<Rightarrow> int option \<Rightarrow> FileMetadata \<Rightarrow> FileMetadata" where
  "SetStored now timestamp m =
     (case timestamp of None \<Rightarrow> m\<lparr>meta_Stored := Some now\<rparr> | Some t \<Rightarrow> m\<lparr>meta_Stored := Some t\<rparr>)"

subsection \<open>MetadataDocStorage\<close>

text \<open>A document is a Metadata or something else.\<close>

datatype 'd document = MetadataDoc FileMetadata | OtherDoc 'd

record ('ds, 'd, 'e) doc_ops =
  ds_Doc :: "'ds \<Rightarrow> string \<Rightarrow> 'e err + 'd document"
  ds_ListDocs :: "'ds \<Rightarrow> 'e err + 'd document option list"
  ds_AddDoc :: "'ds \<Rightarrow> 'd document \<Rightarrow> ('e err + string) \<times> 'ds"
  ds_RemoveDoc :: "'ds \<Rightarrow> string \<Rightarrow> 'e err option \<times> 'ds"

fun Convert :: "'d document \<Rightarrow> 'e err + FileMetadata" where
  "Convert (MetadataDoc m) = Inr m"
| "Convert (OtherDoc d) = Inl (Errorf ''expected a Metadata doc'')"

definition MetadataDocStorage_Metadata :: "('ds, 'd, 'e) doc_ops \<Rightarrow> 'ds \<Rightarrow> string \<Rightarrow> 'e err + FileMetadata" where
  "MetadataDocStorage_Metadata D s i = sum_bind (ds_Doc D s i) Convert"

fun convert_docs :: "'d document option list \<Rightarrow> 'e err + FileMetadata list" where
  "convert_docs [] = Inr []"
| "convert_docs (None # docs) = convert_docs docs"
| "convert_docs (Some doc # docs) =
     sum_bind (Convert doc) (\<lambda>m. sum_bind (convert_docs docs) (\<lambda>ms. Inr (m # ms)))"

definition MetadataDocStorage_ListMetadata :: "('ds, 'd, 'e) doc_ops \<Rightarrow> 'ds \<Rightarrow> 'e err + FileMetadata list" where
  "MetadataDocStorage_ListMetadata D s = sum_bind (ds_ListDocs D s) convert_docs"

definition MetadataDocStorage_AddMetadata ::
  "('ds, 'd, 'e) doc_ops \<Rightarrow> 'ds \<Rightarrow> FileMetadata \<Rightarrow> ('e err + string) \<times> 'ds" where
  "MetadataDocStorage_AddMetadata D s m = ds_AddDoc D s (MetadataDoc m)"

definition MetadataDocStorage_RemoveMetadata ::
  "('ds, 'd, 'e) doc_ops \<Rightarrow> 'ds \<Rightarrow> string \<Rightarrow> 'e err option \<times> 'ds" where
  "MetadataDocStorage_RemoveMetadata D s i = ds_RemoveDoc D s i"

subsection \<open>The wrapper\<close>

record ('ms, 'e) meta_ops =
  ms_Metadata :: "'ms \<Rightarrow> string \<Rightarrow> 'e err + FileMetadata"
  ms_ListMetadata :: "'ms \<Rightarrow> 'e err + FileMetadata list"
  ms_AddMetadata :: "'ms \<Rightarrow> FileMetadata \<Rightarrow> ('e err + string) \<times> 'ms"
  ms_RemoveMetadata :: "'ms \<Rightarrow> string \<Rightarrow> 'e err option \<times> 'ms"
  ms_SetStored :: "'ms \<Rightarrow> string \<Rightarrow> 'e err option \<times> 'ms"
  ms_Close :: "'ms \<Rightarrow> 'e err option \<times> 'ms"

record ('rs, 'e) raw_ops =
  rs_File :: "'rs \<Rightarrow> string \<Rightarrow> 'e err + string"
  rs_AddFile :: "'rs \<Rightarrow> string \<Rightarrow> string \<Rightarrow> 64 word \<Rightarrow> 'e err option \<times> 'rs"
  rs_RemoveFile :: "'rs \<Rightarrow> string \<Rightarrow> 'e err option \<times> 'rs"
  rs_Close :: "'rs \<Rightarrow> 'e err option \<times> 'rs"

record ('ms, 'rs) fileStorage =
  metaStorage :: 'ms
  rawStorage :: 'rs

definition NewFileStorage :: "'ms \<Rightarrow> 'rs \<Rightarrow> ('ms, 'rs) fileStorage" where
  "NewFileStorage meta files = \<lparr>metaStorage = meta, rawStorage = files\<rparr>"

definition fileStorage_Metadata :: "('ms, 'e) meta_ops \<Rightarrow> ('ms, 'rs) fileStorage \<Rightarrow> string \<Rightarrow> 'e err + FileMetadata" where
  "fileStorage_Metadata M s i = ms_Metadata M (metaStorage s) i"

definition fileStorage_Get ::
  "('ms, 'e) meta_ops \<Rightarrow> ('rs, 'e) raw_ops \<Rightarrow> ('ms, 'rs) fileStorage \<Rightarrow> string \<Rightarrow> 'e err + (FileMetadata \<times> string)" where
  "fileStorage_Get M R s i =
     sum_bind (fileStorage_Metadata M s i) (\<lambda>meta.
       if meta_Stored meta = None then Inl (NotFoundf (''no file stored for '' @ i))
       else sum_bind (rs_File R (rawStorage s) i) (\<lambda>file. Inr (meta, file)))"

definition fileStorage_List :: "('ms, 'e) meta_ops \<Rightarrow> ('ms, 'rs) fileStorage \<Rightarrow> 'e err + FileMetadata list" where
  "fileStorage_List M s = ms_ListMetadata M (metaStorage s)"

definition fileStorage_addFile ::
  "('ms, 'e) meta_ops \<Rightarrow> ('rs, 'e) raw_ops \<Rightarrow> ('ms, 'rs) fileStorage \<Rightarrow> string \<Rightarrow> 64 word \<Rightarrow> string
    \<Rightarrow> 'e err option \<times> ('ms, 'rs) fileStorage" where
  "fileStorage_addFile M R s i fsize file =
     (case rs_AddFile R (rawStorage s) i file fsize of
        (Some err, rs) \<Rightarrow> (Some err, s\<lparr>rawStorage := rs\<rparr>)
      | (None, rs) \<Rightarrow>
          (case ms_SetStored M (metaStorage s) i of
             (Some err, ms) \<Rightarrow> (Some err, s\<lparr>rawStorage := rs, metaStorage := ms\<rparr>)
           | (None, ms) \<Rightarrow> (None, s\<lparr>rawStorage := rs, metaStorage := ms\<rparr>)))"

definition fileStorage_Add ::
  "('ms, 'e) meta_ops \<Rightarrow> ('rs, 'e) raw_ops \<Rightarrow> ('ms, 'rs) fileStorage \<Rightarrow> FileMetadata \<Rightarrow> string option
    \<Rightarrow> ('e err + string) \<times> ('ms, 'rs) fileStorage" where
  "fileStorage_Add M R s meta file =
     (case ms_AddMetadata M (metaStorage s) meta of
        (Inl err, ms) \<Rightarrow> (Inl err, s\<lparr>metaStorage := ms\<rparr>)
      | (Inr i, ms) \<Rightarrow>
          let s1 = s\<lparr>metaStorage := ms\<rparr> in
          (case file of
             None \<Rightarrow> (Inr i, s1)
           | Some f \<Rightarrow>
               (case fileStorage_addFile M R s1 i (meta_Size meta) f of
                  (None, s2) \<Rightarrow> (Inr i, s2)
                | (Some context, s2) \<Rightarrow>
                    (case ms_RemoveMetadata M (metaStorage s2) i of
                       (Some err, ms') \<Rightarrow>
                         (Inl (Wrap context (Annotate err ''while handling another error'')), s2\<lparr>metaStorage := ms'\<rparr>)
                     | (None, ms') \<Rightarrow> (Inl context, s2\<lparr>metaStorage := ms'\<rparr>)))))"

definition fileStorage_SetFile ::
  "('ms, 'e) meta_ops \<Rightarrow> ('rs, 'e) raw_ops \<Rightarrow> ('ms, 'rs) fileStorage \<Rightarrow> string \<Rightarrow> string
    \<Rightarrow> 'e err option \<times> ('ms, 'rs) fileStorage" where
  "fileStorage_SetFile M R s i file =
     (case fileStorage_Metadata M s i of
        Inl err \<Rightarrow> (Some err, s)
      | Inr meta \<Rightarrow> fileStorage_addFile M R s i (meta_Size meta) file)"

definition fileStorage_Remove ::
  "('e err \<Rightarrow> bool) \<Rightarrow> ('ms, 'e) meta_ops \<Rightarrow> ('rs, 'e) raw_ops \<Rightarrow> ('ms, 'rs) fileStorage \<Rightarrow> string
    \<Rightarrow> 'e err option \<times> ('ms, 'rs) fileStorage" where
  "fileStorage_Remove isNotFound M R s i =
     (case rs_RemoveFile R (rawStorage s) i of
        (err, rs) \<Rightarrow>
          let s1 = s\<lparr>rawStorage := rs\<rparr> in
          if err \<noteq> None \<and> \<not> isNotFound (the err) then (err, s1)
          else (case ms_RemoveMetadata M (metaStorage s1) i of (err', ms) \<Rightarrow> (err', s1\<lparr>metaStorage := ms\<rparr>)))"

definition fileStorage_Close ::
  "('ms, 'e) meta_ops \<Rightarrow> ('rs, 'e) raw_ops \<Rightarrow> ('ms, 'rs) fileStorage \<Rightarrow> 'e err option \<times> ('ms, 'rs) fileStorage" where
  "fileStorage_Close M R s =
     (case rs_Close R (rawStorage s) of
        (ferr, rs) \<Rightarrow>
          (case ms_Close M (metaStorage s) of
             (merr, ms) \<Rightarrow>
               (if ferr = None then merr
                else if merr = None then ferr
                else Some (Errorf ''closing both failed''),
                s\<lparr>rawStorage := rs, metaStorage := ms\<rparr>)))"

subsection \<open>What the storages promise\<close>

text \<open>
  The documented behaviour of a MetadataStorage, over what it stores: \<open>ma s\<close> maps identifiers
  to metadata. Any operation may fail; a failed operation stores nothing and removes nothing, and an
  operation on an identifier that is not stored fails with a not-found error.
\<close>

definition metadata_storage ::
  "('e err \<Rightarrow> bool) \<Rightarrow> ('ms, 'e) meta_ops \<Rightarrow> ('ms \<Rightarrow> string \<rightharpoonup> FileMetadata) \<Rightarrow> bool" where
  "metadata_storage isNotFound M ma \<longleftrightarrow>
     (\<forall>s i. case ms_Metadata M s i of
        Inr m \<Rightarrow> ma s i = Some m | Inl e \<Rightarrow> isNotFound e \<longleftrightarrow> ma s i = None)
     \<and> (\<forall>s m. case ms_AddMetadata M s m of
          (Inr i, s') \<Rightarrow> ma s i = None \<and> ma s' = (ma s)(i \<mapsto> m\<lparr>meta_ID := i\<rparr>) | (Inl e, s') \<Rightarrow> ma s' = ma s)
     \<and> (\<forall>s i. case ms_RemoveMetadata M s i of
          (None, s') \<Rightarrow> ma s i \<noteq> None \<and> ma s' = (ma s)(i := None)
        | (Some e, s') \<Rightarrow> ma s' = ma s \<and> (ma s i = None \<longrightarrow> isNotFound e))
     \<and> (\<forall>s i. case ms_SetStored M s i of
          (None, s') \<Rightarrow> \<exists>m t. ma s i = Some m \<and> ma s' = (ma s)(i \<mapsto> m\<lparr>meta_Stored := Some t\<rparr>)
        | (Some e, s') \<Rightarrow> ma s' = ma s \<and> (ma s i = None \<longrightarrow> isNotFound e))"

definition raw_file_storage ::
  "('e err \<Rightarrow> bool) \<Rightarrow> ('rs, 'e) raw_ops \<Rightarrow> ('rs \<Rightarrow> string \<rightharpoonup> string) \<Rightarrow> bool" where
  "raw_file_storage isNotFound R ra \<longleftrightarrow>
     (\<forall>s i. case rs_File R s i of Inr f \<Rightarrow> ra s i = Some f | Inl e \<Rightarrow> isNotFound e \<longleftrightarrow> ra s i = None)
     \<and> (\<forall>s i f n. case rs_AddFile R s i f n of
          (None, s') \<Rightarrow> ra s i = None \<and> ra s' = (ra s)(i \<mapsto> f) | (Some e, s') \<Rightarrow> ra s' = ra s)
     \<and> (\<forall>s i. case rs_RemoveFile R s i of
          (None, s') \<Rightarrow> ra s i \<noteq> None \<and> ra s' = (ra s)(i := None)
        | (Some e, s') \<Rightarrow> ra s' = ra s \<and> (isNotFound e \<longleftrightarrow> ra s i = None))"

text \<open>Every file has its metadata.\<close>

definition no_orphans :: "('ms \<Rightarrow> string \<rightharpoonup> FileMetadata) \<Rightarrow> ('rs \<Rightarrow> string \<rightharpoonup> string) \<Rightarrow> ('ms, 'rs) fileStorage \<Rightarrow> bool" where
  "no_orphans ma ra s \<longleftrightarrow> dom (ra (rawStorage s)) \<subseteq> dom (ma (metaStorage s))"

subsection \<open>The promises, call by call\<close>

lemma metadata_storageD:
  assumes "metadata_storage isNotFound M ma"
  shows Metadata_Inr: "ms_Metadata M s i = Inr m \<Longrightarrow> ma s i = Some m"
    and Metadata_Inl: "ms_Metadata M s i = Inl e \<Longrightarrow> isNotFound e \<longleftrightarrow> ma s i = None"
    and AddMetadata_Inr: "ms_AddMetadata M s m = (Inr j, s') \<Longrightarrow> ma s j = None \<and> ma s' = (ma s)(j \<mapsto> m\<lparr>meta_ID := j\<rparr>)"
    and AddMetadata_Inl: "ms_AddMetadata M s m = (Inl e, s') \<Longrightarrow> ma s' = ma s"
    and RemoveMetadata_None: "ms_RemoveMetadata M s i = (None, s') \<Longrightarrow> ma s i \<noteq> None \<and> ma s' = (ma s)(i := None)"
    and RemoveMetadata_Some: "ms_RemoveMetadata M s i = (Some e, s') \<Longrightarrow> ma s' = ma s"
    and SetStored_None: "ms_SetStored M s i = (None, s') \<Longrightarrow>
      \<exists>m t. ma s i = Some m \<and> ma s' = (ma s)(i \<mapsto> m\<lparr>meta_Stored := Some t\<rparr>)"
    and SetStored_Some: "ms_SetStored M s i = (Some e, s') \<Longrightarrow> ma s' = ma s"
proof -
  note c = assms[unfolded metadata_storage_def]
  show "ms_Metadata M s i = Inr m \<Longrightarrow> ma s i = Some m" "ms_Metadata M s i = Inl e \<Longrightarrow> isNotFound e \<longleftrightarrow> ma s i = None"
    using c[THEN conjunct1, rule_format, of s i] by auto
  show "ms_AddMetadata M s m = (Inr j, s') \<Longrightarrow> ma s j = None \<and> ma s' = (ma s)(j \<mapsto> m\<lparr>meta_ID := j\<rparr>)"
    "ms_AddMetadata M s m = (Inl e, s') \<Longrightarrow> ma s' = ma s"
    using c[THEN conjunct2, THEN conjunct1, rule_format, of s m] by auto
  show "ms_RemoveMetadata M s i = (None, s') \<Longrightarrow> ma s i \<noteq> None \<and> ma s' = (ma s)(i := None)"
    "ms_RemoveMetadata M s i = (Some e, s') \<Longrightarrow> ma s' = ma s"
    using c[THEN conjunct2, THEN conjunct2, THEN conjunct1, rule_format, of s i] by auto
  show "ms_SetStored M s i = (None, s') \<Longrightarrow> \<exists>m t. ma s i = Some m \<and> ma s' = (ma s)(i \<mapsto> m\<lparr>meta_Stored := Some t\<rparr>)"
    "ms_SetStored M s i = (Some e, s') \<Longrightarrow> ma s' = ma s"
    using c[THEN conjunct2, THEN conjunct2, THEN conjunct2, rule_format, of s i] by auto
qed

lemma raw_file_storageD:
  assumes "raw_file_storage isNotFound R ra"
  shows File_Inr: "rs_File R s i = Inr f \<Longrightarrow> ra s i = Some f"
    and File_Inl: "rs_File R s i = Inl e \<Longrightarrow> isNotFound e \<longleftrightarrow> ra s i = None"
    and AddFile_None: "rs_AddFile R s i f n = (None, s') \<Longrightarrow> ra s i = None \<and> ra s' = (ra s)(i \<mapsto> f)"
    and AddFile_Some: "rs_AddFile R s i f n = (Some e, s') \<Longrightarrow> ra s' = ra s"
    and RemoveFile_None: "rs_RemoveFile R s i = (None, s') \<Longrightarrow> ra s i \<noteq> None \<and> ra s' = (ra s)(i := None)"
    and RemoveFile_Some: "rs_RemoveFile R s i = (Some e, s') \<Longrightarrow> ra s' = ra s \<and> (isNotFound e \<longleftrightarrow> ra s i = None)"
proof -
  note c = assms[unfolded raw_file_storage_def]
  show "rs_File R s i = Inr f \<Longrightarrow> ra s i = Some f" "rs_File R s i = Inl e \<Longrightarrow> isNotFound e \<longleftrightarrow> ra s i = None"
    using c[THEN conjunct1, rule_format, of s i] by auto
  show "rs_AddFile R s i f n = (None, s') \<Longrightarrow> ra s i = None \<and> ra s' = (ra s)(i \<mapsto> f)"
    "rs_AddFile R s i f n = (Some e, s') \<Longrightarrow> ra s' = ra s"
    using c[THEN conjunct2, THEN conjunct1, rule_format, of s i f n] by auto
  show "rs_RemoveFile R s i = (None, s') \<Longrightarrow> ra s i \<noteq> None \<and> ra s' = (ra s)(i := None)"
    "rs_RemoveFile R s i = (Some e, s') \<Longrightarrow> ra s' = ra s \<and> (isNotFound e \<longleftrightarrow> ra s i = None)"
    using c[THEN conjunct2, THEN conjunct2, rule_format, of s i] by auto
qed

text \<open>\<^verbatim>\<open>addFile\<close>: it stores the file and marks its metadata; or the file is not stored; or it
  is, and its metadata could not be marked.\<close>

lemma addFile_cases:
  assumes "metadata_storage isNotFound M ma" "raw_file_storage isNotFound R ra"
    and "fileStorage_addFile M R s i n f = (r, s')"
  obtains
    (stored) m t where "r = None" "ra (rawStorage s') = (ra (rawStorage s))(i \<mapsto> f)" "ma (metaStorage s) i = Some m"
      "ma (metaStorage s') = (ma (metaStorage s))(i \<mapsto> m\<lparr>meta_Stored := Some t\<rparr>)"
  | (not_stored) e where "r = Some e" "ra (rawStorage s') = ra (rawStorage s)" "ma (metaStorage s') = ma (metaStorage s)"
  | (not_marked) e where "r = Some e" "ra (rawStorage s') = (ra (rawStorage s))(i \<mapsto> f)"
      "ma (metaStorage s') = ma (metaStorage s)"
proof -
  obtain e rs where a: "rs_AddFile R (rawStorage s) i f n = (e, rs)" by force
  obtain e' ms where st: "ms_SetStored M (metaStorage s) i = (e', ms)" by force
  show thesis
  proof (cases e)
    case (Some x)
    then show thesis using assms(3) a AddFile_Some[OF assms(2)] not_stored
      by (auto simp: fileStorage_addFile_def)
  next
    case None
    then have ra: "ra rs = (ra (rawStorage s))(i \<mapsto> f)" using AddFile_None[OF assms(2)] a by blast
    show thesis
    proof (cases e')
      case (Some x)
      then have "ma ms = ma (metaStorage s)" using SetStored_Some[OF assms(1)] st by blast
      then show thesis using Some None ra assms(3) a st not_marked by (auto simp: fileStorage_addFile_def)
    next
      case e': None
      then obtain m t where "ma (metaStorage s) i = Some m" "ma ms = (ma (metaStorage s))(i \<mapsto> m\<lparr>meta_Stored := Some t\<rparr>)"
        using SetStored_None[OF assms(1)] st by blast
      then show thesis using e' None ra assms(3) a st stored by (auto simp: fileStorage_addFile_def)
    qed
  qed
qed

text \<open>\<^verbatim>\<open>Add\<close>, likewise.\<close>

lemma Add_cases:
  assumes "metadata_storage isNotFound M ma" "raw_file_storage isNotFound R ra"
    and "fileStorage_Add M R s meta file = (r, s')"
  obtains
    (meta_only) i where "r = Inr i" "file = None" "ma (metaStorage s) i = None" "ra (rawStorage s') = ra (rawStorage s)"
      "ma (metaStorage s') = (ma (metaStorage s))(i \<mapsto> meta\<lparr>meta_ID := i\<rparr>)"
  | (stored) i f t where "r = Inr i" "file = Some f" "ma (metaStorage s) i = None"
      "ra (rawStorage s') = (ra (rawStorage s))(i \<mapsto> f)"
      "ma (metaStorage s') = (ma (metaStorage s))(i \<mapsto> meta\<lparr>meta_ID := i, meta_Stored := Some t\<rparr>)"
  | (undone) e where "r = Inl e" "ra (rawStorage s') = ra (rawStorage s)" "ma (metaStorage s') = ma (metaStorage s)"
  | (meta_left) e i where "r = Inl e" "ra (rawStorage s') = ra (rawStorage s) \<or> (\<exists>f. ra (rawStorage s') = (ra (rawStorage s))(i \<mapsto> f))"
      "ma (metaStorage s') = (ma (metaStorage s))(i \<mapsto> meta\<lparr>meta_ID := i\<rparr>)"
  | (file_left) e i f where "r = Inl e" "file = Some f" "ra (rawStorage s') = (ra (rawStorage s))(i \<mapsto> f)"
      "ma (metaStorage s') = ma (metaStorage s)"
proof -
  obtain q ms where a: "ms_AddMetadata M (metaStorage s) meta = (q, ms)" by force
  show thesis
  proof (cases q)
    case (Inl e)
    then show thesis using a assms(3) AddMetadata_Inl[OF assms(1)] undone by (auto simp: fileStorage_Add_def)
  next
    case (Inr i)
    then have ma: "ma (metaStorage s) i = None" "ma ms = (ma (metaStorage s))(i \<mapsto> meta\<lparr>meta_ID := i\<rparr>)"
      using AddMetadata_Inr[OF assms(1)] a by blast+
    show thesis
    proof (cases "file")
      case None
      then show thesis using Inr a assms(3) ma meta_only by (auto simp: fileStorage_Add_def)
    next
      case (Some f)
      let ?s1 = "s\<lparr>metaStorage := ms\<rparr>"
      obtain c s2 where af: "fileStorage_addFile M R ?s1 i (meta_Size meta) f = (c, s2)" by force
      obtain d ms' where rm: "ms_RemoveMetadata M (metaStorage s2) i = (d, ms')" by force
      have failed: "s' = s2\<lparr>metaStorage := ms'\<rparr> \<and> (\<exists>e. r = Inl e)" if "c \<noteq> None"
        using that assms(3) a Inr Some af rm
        by (cases c; cases d) (auto simp: fileStorage_Add_def)
      have removed: "ma ms' = (if d = None then (ma (metaStorage s2))(i := None) else ma (metaStorage s2))"
        using RemoveMetadata_None[OF assms(1)] RemoveMetadata_Some[OF assms(1)] rm by (cases d) auto
      show thesis
      proof (rule addFile_cases[OF assms(1,2) af])
        fix m t
        assume "c = None" "ra (rawStorage s2) = (ra (rawStorage ?s1))(i \<mapsto> f)" "ma (metaStorage ?s1) i = Some m"
          "ma (metaStorage s2) = (ma (metaStorage ?s1))(i \<mapsto> m\<lparr>meta_Stored := Some t\<rparr>)"
        then show thesis using stored[of i f t] assms(3) a Inr Some af ma by (auto simp: fileStorage_Add_def)
      next
        fix e
        assume n: "c = Some e" "ra (rawStorage s2) = ra (rawStorage ?s1)" "ma (metaStorage s2) = ma (metaStorage ?s1)"
        then show thesis
        proof (cases d)
          case None
          then show thesis using undone failed removed n ma by (auto simp: fun_upd_idem)
        next
          case (Some x)
          then show thesis using meta_left failed removed n ma by auto
        qed
      next
        fix e
        assume n: "c = Some e" "ra (rawStorage s2) = (ra (rawStorage ?s1))(i \<mapsto> f)" "ma (metaStorage s2) = ma (metaStorage ?s1)"
        show thesis
        proof (cases d)
          case None
          then show thesis using file_left Some failed removed n ma by (auto simp: fun_upd_idem)
        next
          case (Some x)
          then show thesis using meta_left[of _ i] failed removed n ma by auto
        qed
      qed
    qed
  qed
qed

lemma Remove_cases:
  assumes "metadata_storage isNotFound M ma" "raw_file_storage isNotFound R ra"
    and "fileStorage_Remove isNotFound M R s i = (r, s')"
  obtains
    (removed) "r = None" "ra (rawStorage s') = (ra (rawStorage s))(i := None)"
      "ma (metaStorage s') = (ma (metaStorage s))(i := None)" "ma (metaStorage s) i \<noteq> None"
  | (meta_kept) e where "r = Some e" "ra (rawStorage s') = (ra (rawStorage s))(i := None) \<or> ra (rawStorage s') = ra (rawStorage s)"
      "ma (metaStorage s') = ma (metaStorage s)"
proof -
  obtain e rs where rf: "rs_RemoveFile R (rawStorage s) i = (e, rs)" by force
  obtain d ms where rm: "ms_RemoveMetadata M (metaStorage s) i = (d, ms)" by force
  show thesis
  proof (cases "e \<noteq> None \<and> \<not> isNotFound (the e)")
    case True
    then have "r = e" "s' = s\<lparr>rawStorage := rs\<rparr>" using assms(3) rf by (auto simp: fileStorage_Remove_def)
    then show thesis using True RemoveFile_Some[OF assms(2)] rf meta_kept by fastforce
  next
    case False
    then have r: "r = d" "s' = s\<lparr>rawStorage := rs, metaStorage := ms\<rparr>"
      using assms(3) rf rm by (auto simp: fileStorage_Remove_def Let_def)
    have ra: "ra rs = (ra (rawStorage s))(i := None)"
    proof (cases e)
      case None
      then show ?thesis using RemoveFile_None[OF assms(2)] rf by blast
    next
      case (Some x)
      then have "ra rs = ra (rawStorage s) \<and> ra (rawStorage s) i = None"
        using RemoveFile_Some[OF assms(2)] rf False by auto
      then show ?thesis by (auto simp: fun_eq_iff)
    qed
    show thesis
    proof (cases d)
      case None
      then show thesis using removed r ra rm RemoveMetadata_None[OF assms(1)] by auto
    next
      case (Some x)
      then show thesis using meta_kept r ra rm RemoveMetadata_Some[OF assms(1)] by auto
    qed
  qed
qed

lemma no_orphans_alt:
  "no_orphans ma ra s \<longleftrightarrow> (\<forall>i f. ra (rawStorage s) i = Some f \<longrightarrow> (\<exists>m. ma (metaStorage s) i = Some m))"
  by (auto simp: no_orphans_def)

subsection \<open>Properties\<close>


text \<open>(C20) What \<^verbatim>\<open>Add\<close> stores \<^verbatim>\<open>Get\<close> returns: the file, and the metadata with the new
  identifier and marked as stored, under an identifier that was free; no other entry changes. Get
  fails only when one of the storages does, never with a not-found error.\<close>

theorem Get_after_Add:
  assumes "metadata_storage isNotFound M ma" "raw_file_storage isNotFound R ra"
    and "fileStorage_Add M R s meta (Some f) = (Inr i, s')"
  shows "ma (metaStorage s) i = None
    \<and> (\<exists>t. case fileStorage_Get M R s' i of
         Inr (m, g) \<Rightarrow> m = meta\<lparr>meta_ID := i, meta_Stored := Some t\<rparr> \<and> g = f
       | Inl e \<Rightarrow> \<not> isNotFound e)
    \<and> (\<forall>j. j \<noteq> i \<longrightarrow> ma (metaStorage s') j = ma (metaStorage s) j \<and> ra (rawStorage s') j = ra (rawStorage s) j)"
proof (cases rule: Add_cases[OF assms(1,2,3)])
  case (2 i' f' t)
  then have *: "ma (metaStorage s') i = Some (meta\<lparr>meta_ID := i, meta_Stored := Some t\<rparr>)" "ra (rawStorage s') i = Some f"
    by auto
  have "case fileStorage_Get M R s' i of
         Inr (m, g) \<Rightarrow> m = meta\<lparr>meta_ID := i, meta_Stored := Some t\<rparr> \<and> g = f | Inl e \<Rightarrow> \<not> isNotFound e"
    using * Metadata_Inr[OF assms(1), of "metaStorage s'" i] Metadata_Inl[OF assms(1), of "metaStorage s'" i]
      File_Inr[OF assms(2), of "rawStorage s'" i] File_Inl[OF assms(2), of "rawStorage s'" i]
    by (cases "ms_Metadata M (metaStorage s') i"; cases "rs_File R (rawStorage s') i")
      (auto simp: fileStorage_Get_def fileStorage_Metadata_def)
  then show ?thesis using 2 by auto
qed auto

text \<open>After a successful \<^verbatim>\<open>Remove\<close> neither the file nor its metadata is stored, no other entry
  has changed, and \<^verbatim>\<open>Metadata\<close> and \<^verbatim>\<open>Get\<close> fail with a not-found error; a
  \<^verbatim>\<open>Remove\<close> that fails has left the metadata alone.\<close>

theorem Remove_removes:
  assumes "metadata_storage isNotFound M ma" "raw_file_storage isNotFound R ra"
    and "fileStorage_Remove isNotFound M R s i = (r, s')"
  shows "if r = None
    then ra (rawStorage s') = (ra (rawStorage s))(i := None) \<and> ma (metaStorage s') = (ma (metaStorage s))(i := None)
      \<and> (\<exists>e. fileStorage_Get M R s' i = Inl e \<and> isNotFound e)
    else ma (metaStorage s') = ma (metaStorage s)"
proof (cases rule: Remove_cases[OF assms(1,2,3)])
  case 1
  then have "ma (metaStorage s') i = None" by simp
  then obtain e where "ms_Metadata M (metaStorage s') i = Inl e" "isNotFound e"
    using Metadata_Inr[OF assms(1), of "metaStorage s'" i] Metadata_Inl[OF assms(1), of "metaStorage s'" i]
    by (cases "ms_Metadata M (metaStorage s') i") auto
  then show ?thesis using 1 by (simp add: fileStorage_Get_def fileStorage_Metadata_def)
qed simp

text \<open>When the file is stored but its metadata cannot be marked, \<^verbatim>\<open>Add\<close> returns the error and
  takes the metadata back, but the file stays stored with no metadata.\<close>

theorem Add_leaves_file:
  assumes "metadata_storage isNotFound M ma" "raw_file_storage isNotFound R ra"
    and "ms_AddMetadata M (metaStorage s) meta = (Inr i, ms1)"
    and "rs_AddFile R (rawStorage s) i f (meta_Size meta) = (None, rs1)"
    and "ms_SetStored M ms1 i = (Some e, ms2)" and "ms_RemoveMetadata M ms2 i = (None, ms3)"
  shows "\<exists>s'. fileStorage_Add M R s meta (Some f) = (Inl e, s')
    \<and> ma (metaStorage s') i = None \<and> ra (rawStorage s') i = Some f \<and> \<not> no_orphans ma ra s'"
proof -
  have "fileStorage_Add M R s meta (Some f) = (Inl e, \<lparr>metaStorage = ms3, rawStorage = rs1\<rparr>)"
    using assms(3-6) by (cases s) (simp add: fileStorage_Add_def fileStorage_addFile_def Let_def)
  moreover have "ma ms3 i = None" using RemoveMetadata_None[OF assms(1,6)] by simp
  moreover have "ra rs1 i = Some f" using AddFile_None[OF assms(2,4)] by simp
  ultimately show ?thesis by (auto simp: no_orphans_def)
qed

text \<open>\<^verbatim>\<open>SetFileInfo\<close> sets each piece of information at most once: what was set before the call
  is the same after it, a failed call changes nothing, a successful one stores the arguments
  that were given, and a checksum always comes with its format.\<close>

theorem SetFileInfo_once:
  assumes "SetFileInfo fsize checksum format m = (err, m')"
  shows "(meta_Size m \<noteq> 0 \<longrightarrow> meta_Size m' = meta_Size m)
    \<and> (meta_Checksum m \<noteq> [] \<longrightarrow> meta_Checksum m' = meta_Checksum m)
    \<and> (meta_ChecksumFormat m \<noteq> [] \<longrightarrow> meta_ChecksumFormat m' = meta_ChecksumFormat m)
    \<and> (err \<noteq> None \<longrightarrow> m' = m)
    \<and> (err = None \<longrightarrow>
         (fsize \<noteq> 0 \<longrightarrow> meta_Size m' = fsize) \<and> (checksum \<noteq> [] \<longrightarrow> meta_Checksum m' = checksum)
         \<and> (format \<noteq> [] \<longrightarrow> meta_ChecksumFormat m' = format)
         \<and> (meta_Checksum m' = [] \<longleftrightarrow> meta_ChecksumFormat m' = [])
         \<and> meta_ID m' = meta_ID m \<and> meta_Stored m' = meta_Stored m)"
  using assms by (auto simp: SetFileInfo_def Let_def split: if_splits)

subsection \<open>Storages in memory\<close>

text \<open>A metadata storage that numbers its entries, whose \<^verbatim>\<open>SetStored\<close> works or always fails, and a raw
  file storage.\<close>

definition demo_not_found :: "nat err \<Rightarrow> bool" where
  "demo_not_found e \<longleftrightarrow> e = Cause 404"

definition demo_meta :: "bool \<Rightarrow> (nat \<times> (string \<rightharpoonup> FileMetadata), nat) meta_ops" where
  "demo_meta ok =
     \<lparr>ms_Metadata = (\<lambda>(n, d) i. case d i of Some m \<Rightarrow> Inr m | None \<Rightarrow> Inl (Cause 404)),
      ms_ListMetadata = (\<lambda>(n, d). Inr []),
      ms_AddMetadata = (\<lambda>(n, d) m. let i = replicate n CHR ''x'' in
        if d i = None then (Inr i, (Suc n, d(i \<mapsto> m\<lparr>meta_ID := i\<rparr>))) else (Inl (Cause 500), (n, d))),
      ms_RemoveMetadata = (\<lambda>(n, d) i. if d i = None then (Some (Cause 404), (n, d)) else (None, (n, d(i := None)))),
      ms_SetStored = (\<lambda>(n, d) i. case d i of
          None \<Rightarrow> (Some (Cause 404), (n, d))
        | Some m \<Rightarrow> if ok then (None, (n, d(i \<mapsto> m\<lparr>meta_Stored := Some 1\<rparr>))) else (Some (Cause 500), (n, d))),
      ms_Close = (\<lambda>s. (None, s))\<rparr>"

definition demo_raw :: "(string \<rightharpoonup> string, nat) raw_ops" where
  "demo_raw =
     \<lparr>rs_File = (\<lambda>d i. case d i of Some f \<Rightarrow> Inr f | None \<Rightarrow> Inl (Cause 404)),
      rs_AddFile = (\<lambda>d i f n. if d i = None then (None, d(i \<mapsto> f)) else (Some (Cause 409), d)),
      rs_RemoveFile = (\<lambda>d i. if d i = None then (Some (Cause 404), d) else (None, d(i := None))),
      rs_Close = (\<lambda>s. (None, s))\<rparr>"

lemma demo_meta_storage: "metadata_storage demo_not_found (demo_meta ok) snd"
  by (auto simp: metadata_storage_def demo_meta_def demo_not_found_def Let_def split: option.splits)

lemma demo_raw_storage: "raw_file_storage demo_not_found demo_raw id"
  by (auto simp: raw_file_storage_def demo_raw_def demo_not_found_def split: option.splits)

definition demo_empty :: "(nat \<times> (string \<rightharpoonup> FileMetadata), string \<rightharpoonup> string) fileStorage" where
  "demo_empty = NewFileStorage (0, Map.empty) Map.empty"

lemma demo_no_orphans: "no_orphans snd id demo_empty"
  by (simp add: no_orphans_def demo_empty_def NewFileStorage_def)


theorem Get_after_Add_witness:
  "\<exists>s'. fileStorage_Add (demo_meta True) demo_raw demo_empty NewMetadata (Some ''data'') = (Inr [], s')
     \<and> (case fileStorage_Get (demo_meta True) demo_raw s' [] of Inr (m, g) \<Rightarrow> g = ''data'' | Inl e \<Rightarrow> \<not> demo_not_found e)"
proof -
  obtain s' where a: "fileStorage_Add (demo_meta True) demo_raw demo_empty NewMetadata (Some ''data'') = (Inr [], s')"
    by (simp add: fileStorage_Add_def fileStorage_addFile_def demo_meta_def demo_raw_def demo_empty_def NewFileStorage_def)
  from Get_after_Add[OF demo_meta_storage demo_raw_storage a] show ?thesis
    using a by (auto split: sum.splits prod.splits)
qed

theorem Remove_removes_witness:
  "\<exists>e s'. fileStorage_Remove demo_not_found (demo_meta True) demo_raw demo_empty ''x'' = (Some e, s')
     \<and> snd (metaStorage s') = Map.empty"
proof -
  obtain e s' where r: "fileStorage_Remove demo_not_found (demo_meta True) demo_raw demo_empty ''x'' = (Some e, s')"
    by (simp add: fileStorage_Remove_def demo_meta_def demo_raw_def demo_empty_def NewFileStorage_def demo_not_found_def)
  from Remove_removes[OF demo_meta_storage demo_raw_storage r] show ?thesis
    using r by (auto simp: demo_empty_def NewFileStorage_def)
qed

theorem Add_leaves_file_witness:
  "\<exists>e s'. fileStorage_Add (demo_meta False) demo_raw demo_empty NewMetadata (Some ''data'') = (Inl e, s')
     \<and> \<not> no_orphans snd id s'"
proof -
  let ?m = "NewMetadata\<lparr>meta_ID := []\<rparr>"
  have a: "ms_AddMetadata (demo_meta False) (metaStorage demo_empty) NewMetadata = (Inr [], (Suc 0, [[] \<mapsto> ?m]))"
    by (simp add: demo_meta_def demo_empty_def NewFileStorage_def)
  have f: "rs_AddFile demo_raw (rawStorage demo_empty) [] ''data'' (meta_Size NewMetadata) = (None, [[] \<mapsto> ''data''])"
    by (simp add: demo_raw_def demo_empty_def NewFileStorage_def)
  have st: "ms_SetStored (demo_meta False) (Suc 0, [[] \<mapsto> ?m]) [] = (Some (Cause 500), (Suc 0, [[] \<mapsto> ?m]))"
    by (simp add: demo_meta_def)
  have rm: "ms_RemoveMetadata (demo_meta False) (Suc 0, [[] \<mapsto> ?m]) [] = (None, (Suc 0, Map.empty))"
    by (simp add: demo_meta_def)
  from Add_leaves_file[OF demo_meta_storage demo_raw_storage a f st rm] show ?thesis by blast
qed

theorem SetFileInfo_once_witness:
  "\<exists>m'. (SetFileInfo 10 ''c'' ''md5'' NewMetadata :: nat err option \<times> FileMetadata) = (None, m') \<and> meta_Size m' = 10"
proof -
  obtain m' where s: "(SetFileInfo 10 ''c'' ''md5'' NewMetadata :: nat err option \<times> FileMetadata) = (None, m')"
    by (simp add: SetFileInfo_def NewMetadata_def)
  from SetFileInfo_once[OF s] show ?thesis using s by auto
qed

end
