(* ===== verification/UUID.thy ===== *)
theory UUID
  imports Prelude
begin

unbundle bit_operations_syntax

text \<open>
  Version 4 UUIDs (\<^verbatim>\<open>src/uuid.go\<close>): 16 bytes, with a text form that is checked by a regular
  expression, parsed and printed. A Go array of 16 bytes is a list of that length.
\<close>

type_synonym UUID = "8 word list"

datatype uuid_error = InvalidUUID string | InvalidHex | RandError string

subsection \<open>The text form\<close>

definition is_hex :: "char \<Rightarrow> bool" where
  "is_hex c = (let n = of_char c :: nat in 48 \<le> n \<and> n \<le> 57 \<or> 97 \<le> n \<and> n \<le> 102)"

text \<open>The regular expression, one character class per position. The class \<^verbatim>\<open>variant\<close> is written
  \<^verbatim>\<open>[8,9,a,b]\<close>, and a comma is a member of it.\<close>

definition uuid_pattern :: "(char \<Rightarrow> bool) list" where
  "uuid_pattern =
     replicate 8 is_hex @ [\<lambda>c. c = CHR ''-''] @ replicate 4 is_hex @ [\<lambda>c. c = CHR ''-'']
     @ [\<lambda>c. c = CHR ''4''] @ replicate 3 is_hex @ [\<lambda>c. c = CHR ''-'']
     @ [\<lambda>c. c \<in> set ''8,9,a,b''] @ replicate 3 is_hex @ [\<lambda>c. c = CHR ''-''] @ replicate 12 is_hex"

definition IsValidUUIDString :: "string \<Rightarrow> bool" where
  "IsValidUUIDString s = list_all2 (\<lambda>p c. p c) uuid_pattern s"

text \<open>\<^verbatim>\<open>strings.Replace(s, "-", "", n)\<close>.\<close>

fun drop_hyphens :: "nat \<Rightarrow> string \<Rightarrow> string" where
  "drop_hyphens n [] = []"
| "drop_hyphens n (c # s) =
     (if n = 0 then c # s else if c = CHR ''-'' then drop_hyphens (n - 1) s else c # drop_hyphens n s)"

text \<open>\<^verbatim>\<open>hex.DecodeString\<close>.\<close>

definition fromHexChar :: "char \<Rightarrow> nat option" where
  "fromHexChar c =
     (let n = of_char c :: nat in
      if 48 \<le> n \<and> n \<le> 57 then Some (n - 48)
      else if 97 \<le> n \<and> n \<le> 102 then Some (n - 87)
      else if 65 \<le> n \<and> n \<le> 70 then Some (n - 55)
      else None)"

fun hex_decode :: "string \<Rightarrow> uuid_error + 8 word list" where
  "hex_decode [] = Inr []"
| "hex_decode [c] = Inl InvalidHex"
| "hex_decode (c # d # s) =
     (case (fromHexChar c, fromHexChar d) of
        (Some a, Some b) \<Rightarrow> sum_bind (hex_decode s) (\<lambda>bs. Inr (word_of_nat (16 * a + b) # bs))
      | _ \<Rightarrow> Inl InvalidHex)"

definition UUIDFromString :: "string \<Rightarrow> uuid_error + UUID" where
  "UUIDFromString s =
     (if \<not> IsValidUUIDString s then Inl (InvalidUUID s)
      else sum_bind (hex_decode (drop_hyphens 4 s)) (\<lambda>raw. Inr (take 16 raw @ replicate (16 - length raw) 0)))"

definition hexs :: "8 word list \<Rightarrow> string" where
  "hexs bs = concat (map (\<lambda>b. [hex_digit (unat b div 16), hex_digit (unat b mod 16)]) bs)"

definition UUID_String :: "UUID \<Rightarrow> string" where
  "UUID_String uuid =
     hexs (take 4 uuid) @ ''-'' @ hexs (take 2 (drop 4 uuid)) @ ''-'' @ hexs (take 2 (drop 6 uuid))
     @ ''-'' @ hexs (take 2 (drop 8 uuid)) @ ''-'' @ hexs (take 6 (drop 10 uuid))"

subsection \<open>New UUIDs\<close>

text \<open>\<open>rand\<close> is what \<^verbatim>\<open>io.ReadFull(rand.Reader, ...)\<close> filled the 16 bytes with, or its error.\<close>

definition NewUUID :: "uuid_error + 8 word list \<Rightarrow> uuid_error + UUID" where
  "NewUUID rand =
     sum_bind rand (\<lambda>uuid.
       let version = push_bit 4 (4 :: 8 word); variant = push_bit 4 (8 :: 8 word)
       in Inr (uuid[6 := version OR (uuid ! 6 AND 15), 8 := variant OR (uuid ! 8 AND 15)]))"

definition UUID_Copy :: "UUID \<Rightarrow> UUID" where
  "UUID_Copy uuid = uuid"

definition UUID_Raw :: "UUID \<Rightarrow> 8 word list" where
  "UUID_Raw uuid = uuid"

subsection \<open>Hexadecimal text\<close>

lemma hex_digit_props:
  assumes "d < 16"
  shows "is_hex (hex_digit d)" "fromHexChar (hex_digit d) = Some d" "hex_digit d \<noteq> CHR ''-''"
proof -
  have n: "(of_char (hex_digit d) :: nat) = (if d < 10 then 48 + d else 87 + d)"
    using assms by (simp add: hex_digit_def)
  show "is_hex (hex_digit d)" "fromHexChar (hex_digit d) = Some d"
    using assms n by (auto simp: is_hex_def fromHexChar_def Let_def)
  show "hex_digit d \<noteq> CHR ''-''"
  proof
    assume "hex_digit d = CHR ''-''"
    then have "(of_char (hex_digit d) :: nat) = 45" by simp
    with n show False by (auto split: if_splits)
  qed
qed

lemma hex_digit_fromHexChar: "is_hex c \<Longrightarrow> \<exists>d<16. fromHexChar c = Some d \<and> hex_digit d = c"
proof -
  assume h: "is_hex c"
  let ?n = "of_char c :: nat"
  have c: "c = char_of ?n" by simp
  show ?thesis
  proof (cases "48 \<le> ?n \<and> ?n \<le> 57")
    case True
    then show ?thesis using c by (intro exI[of _ "?n - 48"]) (auto simp: fromHexChar_def hex_digit_def Let_def)
  next
    case False
    then have "97 \<le> ?n \<and> ?n \<le> 102" using h by (auto simp: is_hex_def Let_def)
    then show ?thesis using c by (intro exI[of _ "?n - 87"]) (auto simp: fromHexChar_def hex_digit_def Let_def)
  qed
qed

lemma nibbles: "unat (b :: 8 word) div 16 < 16" "unat (b :: 8 word) mod 16 < 16"
  using unsigned_less[of b, where ?'a = nat] by (simp_all add: less_mult_imp_div_less)

lemma hexs_simps [simp]: "hexs [] = []" "hexs (b # bs) = hex_digit (unat b div 16) # hex_digit (unat b mod 16) # hexs bs"
  "hexs (bs @ cs) = hexs bs @ hexs cs" "length (hexs bs) = 2 * length bs"
  by (simp_all add: hexs_def length_concat sum_list_triv comp_def)

lemma hexs_is_hex: "list_all is_hex (hexs bs)" "CHR ''-'' \<notin> set (hexs bs)"
  by (induction bs) (auto simp: hex_digit_props nibbles dest!: sym[of "CHR ''-''"])

lemma hex_decode_hexs: "hex_decode (hexs bs) = Inr bs"
proof (induction bs)
  case (Cons b bs)
  have "word_of_nat (16 * (unat b div 16) + unat b mod 16) = b" by simp
  then show ?case using Cons by (simp add: hex_digit_props nibbles)
qed simp

lemma unat_byte: "n < 256 \<Longrightarrow> unat (word_of_nat n :: 8 word) = n"
  by (simp add: unsigned_of_nat take_bit_nat_eq_self)

lemma hexs_hex_decode: "list_all is_hex s \<Longrightarrow> even (length s) \<Longrightarrow> \<exists>bs. hex_decode s = Inr bs \<and> hexs bs = s"
proof (induction s rule: hex_decode.induct)
  case (3 c d s)
  obtain a b where ab: "a < 16" "fromHexChar c = Some a" "hex_digit a = c" "b < 16" "fromHexChar d = Some b" "hex_digit b = d"
    using 3(2) hex_digit_fromHexChar[of c] hex_digit_fromHexChar[of d] by auto
  then obtain bs where bs: "hex_decode s = Inr bs" "hexs bs = s" using 3 by auto
  note ab
  moreover from ab have "unat (word_of_nat (16 * a + b) :: 8 word) = 16 * a + b" by (intro unat_byte) simp
  ultimately show ?case using bs by (intro exI[of _ "word_of_nat (16 * a + b) # bs"]) (simp del: of_nat_add of_nat_mult)
qed auto

lemma hex_decode_chars: "hex_decode s = Inr bs \<Longrightarrow> (\<forall>c \<in> set s. fromHexChar c \<noteq> None) \<and> length s = 2 * length bs"
  by (induction s arbitrary: bs rule: hex_decode.induct) (auto simp: sum_bind_eq_Inr split: option.splits)

lemma hexs_take: "hexs (take n bs) = take (2 * n) (hexs bs)"
proof (induction bs arbitrary: n)
  case (Cons b bs)
  then show ?case by (cases n) auto
qed simp

lemma hexs_drop: "hexs (drop n bs) = drop (2 * n) (hexs bs)"
proof (induction bs arbitrary: n)
  case (Cons b bs)
  then show ?case by (cases n) auto
qed simp

lemma is_hex_not_hyphen: "is_hex c \<Longrightarrow> c \<noteq> CHR ''-''"
  by (auto simp: is_hex_def)

lemma drop_hyphens_skip: "CHR ''-'' \<notin> set t \<Longrightarrow> drop_hyphens (Suc n) (t @ CHR ''-'' # s) = t @ drop_hyphens n s"
  by (induction t) auto

lemma drop_hyphens_0: "drop_hyphens 0 s = s"
  by (cases s) auto

lemma drop_hyphens_four:
  assumes "CHR ''-'' \<notin> set a" "CHR ''-'' \<notin> set b" "CHR ''-'' \<notin> set c" "CHR ''-'' \<notin> set d"
  shows "drop_hyphens 4 (a @ CHR ''-'' # b @ CHR ''-'' # c @ CHR ''-'' # d @ CHR ''-'' # e) = a @ b @ c @ d @ e"
  using drop_hyphens_skip[OF assms(1), of 3] drop_hyphens_skip[OF assms(2), of 2]
    drop_hyphens_skip[OF assms(3), of 1] drop_hyphens_skip[OF assms(4), of 0]
  by (simp add: numeral_eq_Suc drop_hyphens_0)

text \<open>The version and the variant of a UUID.\<close>

definition is_v4 :: "UUID \<Rightarrow> bool" where
  "is_v4 uuid \<longleftrightarrow> length uuid = 16 \<and> unat (uuid ! 6) div 16 = 4 \<and> unat (uuid ! 8) div 16 \<in> {8, 9, 10, 11}"

lemma list_all2_hexs: "length bs = n \<Longrightarrow> list_all2 (\<lambda>p c. p c) (replicate (2 * n) is_hex) (hexs bs)"
proof (induction bs arbitrary: n)
  case (Cons b bs)
  then show ?case by (cases n) (auto simp: hex_digit_props nibbles)
qed simp

lemma take_2_drop: "n + 1 < length xs \<Longrightarrow> take 2 (drop n xs) = [xs ! n, xs ! (n + 1)]"
  by (simp add: numeral_eq_Suc Cons_nth_drop_Suc[symmetric])

lemma hex_digit_values:
  "hex_digit 4 = CHR ''4''" "hex_digit 8 = CHR ''8''" "hex_digit 9 = CHR ''9''" "hex_digit 10 = CHR ''a''" "hex_digit 11 = CHR ''b''"
  by code_simp+

lemma UUID_String_valid:
  assumes "is_v4 u"
  shows "IsValidUUIDString (UUID_String u)"
proof -
  have three: "replicate 3 is_hex = [is_hex, is_hex, is_hex]" by (simp add: numeral_3_eq_3)
  let ?P = "\<lambda>p c. p c" and ?h = "\<lambda>c. c = CHR ''-''"
  have len: "length u = 16" using assms by (simp add: is_v4_def)
  have six: "take 2 (drop 6 u) = [u ! 6, u ! 7]" and eight: "take 2 (drop 8 u) = [u ! 8, u ! 9]"
    using len by (simp_all add: take_2_drop)
  have parts: "list_all2 ?P (replicate 8 is_hex) (hexs (take 4 u))" "list_all2 ?P (replicate 4 is_hex) (hexs (take 2 (drop 4 u)))"
    "list_all2 ?P (replicate 12 is_hex) (hexs (take 6 (drop 10 u)))"
    using list_all2_hexs[of "take 4 u" 4] list_all2_hexs[of "take 2 (drop 4 u)" 2]
      list_all2_hexs[of "take 6 (drop 10 u)" 6] len by simp_all
  have ver: "list_all2 ?P ([\<lambda>c. c = CHR ''4''] @ replicate 3 is_hex) (hexs (take 2 (drop 6 u)))"
    unfolding six three using assms hex_digit_values by (simp add: is_v4_def hex_digit_props nibbles)
  have var: "list_all2 ?P ([\<lambda>c. c \<in> set ''8,9,a,b''] @ replicate 3 is_hex) (hexs (take 2 (drop 8 u)))"
    unfolding eight three using assms hex_digit_values by (auto simp: is_v4_def hex_digit_props nibbles)
  have pat: "uuid_pattern = replicate 8 is_hex @ [?h] @ replicate 4 is_hex @ [?h]
      @ ([\<lambda>c. c = CHR ''4''] @ replicate 3 is_hex) @ [?h]
      @ ([\<lambda>c. c \<in> set ''8,9,a,b''] @ replicate 3 is_hex) @ [?h] @ replicate 12 is_hex"
    by (simp add: uuid_pattern_def)
  show ?thesis
    unfolding IsValidUUIDString_def UUID_String_def pat
    by (intro list_all2_appendI parts ver var) simp_all
qed

lemma drop_hyphens_String:
  assumes "length u = 16"
  shows "drop_hyphens 4 (UUID_String u) = hexs u"
proof -
  have "u = take 4 u @ take 2 (drop 4 u) @ take 2 (drop 6 u) @ take 2 (drop 8 u) @ take 6 (drop 10 u)"
    using assms append_take_drop_id[of 4 u] append_take_drop_id[of 2 "drop 4 u"] append_take_drop_id[of 2 "drop 6 u"]
      append_take_drop_id[of 2 "drop 8 u"] by simp
  then have "hexs u = hexs (take 4 u) @ hexs (take 2 (drop 4 u)) @ hexs (take 2 (drop 6 u)) @ hexs (take 2 (drop 8 u))
      @ hexs (take 6 (drop 10 u))" by (metis hexs_simps(3))
  moreover have "drop_hyphens 4 (UUID_String u) = hexs (take 4 u) @ hexs (take 2 (drop 4 u)) @ hexs (take 2 (drop 6 u))
      @ hexs (take 2 (drop 8 u)) @ hexs (take 6 (drop 10 u))"
    unfolding UUID_String_def using drop_hyphens_four[OF hexs_is_hex(2) hexs_is_hex(2) hexs_is_hex(2) hexs_is_hex(2)] by simp
  ultimately show ?thesis by simp
qed

lemma UUIDFromString_String: "is_v4 u \<Longrightarrow> UUIDFromString (UUID_String u) = Inr u"
  by (simp add: UUIDFromString_def UUID_String_valid drop_hyphens_String hex_decode_hexs is_v4_def)

text \<open>The characters of a text that matches the pattern.\<close>

lemma valid_string_parts:
  assumes "IsValidUUIDString s"
  shows "\<exists>a b c v d e. s = a @ CHR ''-'' # b @ CHR ''-'' # (CHR ''4'' # c) @ CHR ''-'' # (v # d) @ CHR ''-'' # e
    \<and> length a = 8 \<and> length b = 4 \<and> length c = 3 \<and> length d = 3 \<and> length e = 12 \<and> v \<in> set ''8,9,a,b''
    \<and> list_all is_hex (a @ b @ c @ d @ e)"
proof -
  have rep: "list_all2 (\<lambda>p c. p c) (replicate n is_hex) t \<longleftrightarrow> length t = n \<and> list_all is_hex t" for n t
    by (auto simp: list_all2_conv_all_nth list_all_length)
  show ?thesis
    using assms unfolding IsValidUUIDString_def uuid_pattern_def
    by (simp add: list_all2_append1 list_all2_Cons1 rep) (elim exE conjE, simp, blast)
qed

lemma UUID_String_FromString:
  assumes "UUIDFromString s = Inr u"
  shows "UUID_String u = s \<and> length u = 16"
proof -
  have "IsValidUUIDString s" using assms by (auto simp: UUIDFromString_def split: if_splits)
  then obtain a b c v d e where s: "s = a @ CHR ''-'' # b @ CHR ''-'' # (CHR ''4'' # c) @ CHR ''-'' # (v # d) @ CHR ''-'' # e"
    and len: "length a = 8" "length b = 4" "length c = 3" "length d = 3" "length e = 12"
    and v: "v \<in> set ''8,9,a,b''" and hex: "list_all is_hex (a @ b @ c @ d @ e)"
    using valid_string_parts by blast
  let ?t = "a @ b @ (CHR ''4'' # c) @ (v # d) @ e"
  have nh: "CHR ''-'' \<notin> set t" if "list_all is_hex t" for t using that is_hex_not_hyphen by (auto simp: list_all_iff)
  have "drop_hyphens 4 s = ?t"
    unfolding s using v hex nh by (intro drop_hyphens_four) auto
  then obtain raw where raw: "hex_decode ?t = Inr raw" "u = take 16 raw @ replicate (16 - length raw) 0"
    using assms by (auto simp: UUIDFromString_def sum_bind_eq_Inr split: if_splits)
  have "fromHexChar v \<noteq> None" using hex_decode_chars[OF raw(1)] by simp
  then have "v \<noteq> CHR '',''" by (auto simp: fromHexChar_def)
  then have "is_hex v" using v by (auto simp: is_hex_def)
  then have "list_all is_hex ?t" using hex by (simp add: is_hex_def)
  moreover have "even (length ?t)" using len by simp
  ultimately obtain bs where "hex_decode ?t = Inr bs" "hexs bs = ?t" using hexs_hex_decode by blast
  with raw(1) have t: "hexs raw = ?t" by simp
  have "length (hexs raw) = 32" unfolding t using len by simp
  then have "length raw = 16" by simp
  with raw(2) have u: "u = raw" by simp
  have "hexs (take n (drop m u)) = take (2 * n) (drop (2 * m) ?t)" for n m
    by (simp add: hexs_take hexs_drop u t)
  from this[of 4 0] this[of 2 4] this[of 2 6] this[of 2 8] this[of 6 10]
  show ?thesis using \<open>length raw = 16\<close> len unfolding UUID_String_def s u by simp
qed

subsection \<open>Properties\<close>

text \<open>(C30) The text form and the bytes of a version 4 UUID are in bijection: parsing the printed UUID gives
  it back, and a text that parses is exactly what its UUID prints.\<close>

theorem UUID_roundtrip:
  "(is_v4 u \<longrightarrow> UUIDFromString (UUID_String u) = Inr u)
   \<and> (UUIDFromString s = Inr u' \<longrightarrow> UUID_String u' = s \<and> length u' = 16)"
  using UUIDFromString_String UUID_String_FromString by blast

definition demo_uuid :: UUID where
  "demo_uuid = replicate 6 0 @ [0x40, 7, 0x80] @ replicate 7 0"

lemma demo_uuid_v4: "is_v4 demo_uuid"
  by (simp add: is_v4_def demo_uuid_def nth_append)

theorem UUID_roundtrip_witness:
  "is_v4 demo_uuid \<and> UUIDFromString (UUID_String demo_uuid) = Inr demo_uuid"
  using UUID_roundtrip[of demo_uuid "[]" "[]"] demo_uuid_v4 by blast

lemma high_nibble:
  "unat ((push_bit 4 4 :: 8 word) OR (x AND 15)) div 16 = 4" "unat ((push_bit 4 8 :: 8 word) OR (x AND 15)) div 16 = 8"
proof -
  have d: "unat w div 16 = unat (drop_bit 4 w)" for w :: "8 word"
    by (simp add: drop_bit_eq_div unat_div)
  have "drop_bit 4 (15 :: 8 word) = 0" "drop_bit 4 (push_bit 4 4 :: 8 word) = 4" "drop_bit 4 (push_bit 4 8 :: 8 word) = 8"
    by code_simp+
  then show "unat ((push_bit 4 4 :: 8 word) OR (x AND 15)) div 16 = 4" "unat ((push_bit 4 8 :: 8 word) OR (x AND 15)) div 16 = 8"
    unfolding d drop_bit_or drop_bit_and by simp_all
qed

text \<open>\<^verbatim>\<open>NewUUID\<close> makes version 4 UUIDs: whatever the random bytes, the result has the version and
  variant of RFC 4122, its text form is valid and parses back to it, and all bytes but two are the
  random ones.\<close>

theorem NewUUID_valid:
  assumes "length rnd = 16"
  shows "\<exists>u. NewUUID (Inr rnd) = Inr u \<and> is_v4 u \<and> IsValidUUIDString (UUID_String u)
    \<and> UUIDFromString (UUID_String u) = Inr u
    \<and> (\<forall>i < 16. i \<noteq> 6 \<longrightarrow> i \<noteq> 8 \<longrightarrow> u ! i = rnd ! i)"
proof -
  obtain u where u: "NewUUID (Inr rnd) = Inr u"
    "u = rnd[6 := push_bit 4 4 OR (rnd ! 6 AND 15), 8 := push_bit 4 8 OR (rnd ! 8 AND 15)]"
    unfolding NewUUID_def sum_bind_simps Let_def by blast
  have "u ! 6 = push_bit 4 4 OR (rnd ! 6 AND 15)" "u ! 8 = push_bit 4 8 OR (rnd ! 8 AND 15)"
    unfolding u(2) using assms by simp_all
  then have "is_v4 u" using high_nibble assms by (simp add: is_v4_def u(2))
  then show ?thesis using u(1) UUID_String_valid UUIDFromString_String unfolding u(2) by auto
qed

theorem NewUUID_valid_witness:
  "\<exists>u. NewUUID (Inr (replicate 16 255)) = Inr u \<and> IsValidUUIDString (UUID_String u)"
  using NewUUID_valid[of "replicate 16 255"] by auto

text \<open>A text with a comma in the place of the variant is valid, and cannot be parsed.\<close>

lemma IsValidUUIDString_comma:
  "IsValidUUIDString ''00000000-0000-4000-,000-000000000000''
   \<and> UUIDFromString ''00000000-0000-4000-,000-000000000000'' = Inl InvalidHex"
  by code_simp

end
