(* ===== verification/Shell.thy ===== *)
theory Shell
  imports Prelude
begin

text \<open>
  Quoting for the shell (\<^verbatim>\<open>ShQuote\<close> and \<^verbatim>\<open>CommandString\<close> of
  \<^verbatim>\<open>src/trivial.go\<close>, \<^verbatim>\<open>src/shell/script.go\<close>). What quoting has to achieve is stated over
  \<open>sh_words\<close>, the rules by which a shell splits a command line into words: it fails when a
  character would be interpreted as anything but itself, so that a result means that the words are
  exactly what the command receives (of a shell that is not interactive, so that there is no history
  expansion).
\<close>

definition squote :: char where "squote = CHR 0x27"
definition dquote :: char where "dquote = CHR 0x22"
definition backslash :: char where "backslash = CHR 0x5C"

subsection \<open>Words of a command line\<close>

text \<open>Characters that are themselves outside quotes.\<close>

definition sh_plain :: "char \<Rightarrow> bool" where
  "sh_plain c \<longleftrightarrow>
     (let n = of_char c :: nat in
      48 \<le> n \<and> n \<le> 57 \<or> 65 \<le> n \<and> n \<le> 90 \<or> 97 \<le> n \<and> n \<le> 122 \<or> 128 \<le> n \<or> c \<in> set ''_-./:,@%+'')"

text \<open>Inside double quotes a backslash quotes the characters that are special there.\<close>

definition dq_escaped :: "char \<Rightarrow> bool" where
  "dq_escaped c \<longleftrightarrow> c = dquote \<or> c = CHR ''$'' \<or> c = backslash \<or> c = CHR ''`''"

datatype sh_mode = Outside | Single | Double

text \<open>The word read so far is \<^const>\<open>None\<close> between words.\<close>

fun sh_split :: "sh_mode \<Rightarrow> string option \<Rightarrow> string \<Rightarrow> string list option" where
  "sh_split Outside w [] = Some (case w of None \<Rightarrow> [] | Some t \<Rightarrow> [t])"
| "sh_split Single w [] = None"
| "sh_split Double w [] = None"
| "sh_split Single w (c # s) =
     (if c = squote then sh_split Outside w s else sh_split Single (map_option (\<lambda>t. t @ [c]) w) s)"
| "sh_split Double w (c # s) =
     (if c = dquote then sh_split Outside w s
      else if c = backslash then
        (case s of
           [] \<Rightarrow> None
         | d # s' \<Rightarrow> if dq_escaped d then sh_split Double (map_option (\<lambda>t. t @ [d]) w) s'
                    else sh_split Double (map_option (\<lambda>t. t @ [c]) w) s)
      else if dq_escaped c then None
      else sh_split Double (map_option (\<lambda>t. t @ [c]) w) s)"
| "sh_split Outside w (c # s) =
     (let t = (case w of None \<Rightarrow> [] | Some t \<Rightarrow> t) in
      if c = CHR '' '' then map_option (\<lambda>ws. (case w of None \<Rightarrow> [] | Some t \<Rightarrow> [t]) @ ws) (sh_split Outside None s)
      else if c = squote then sh_split Single (Some t) s
      else if c = dquote then sh_split Double (Some t) s
      else if sh_plain c then sh_split Outside (Some (t @ [c])) s
      else None)"

definition sh_words :: "string \<Rightarrow> string list option" where
  "sh_words s = sh_split Outside None s"

subsection \<open>The code\<close>

definition ShQuote :: "string \<Rightarrow> string" where
  "ShQuote s =
     [squote] @ concat (map (\<lambda>c. if c = squote then [squote, dquote, squote, dquote, squote] else [c]) s) @ [squote]"

text \<open>The loop over the characters of an argument. A string is the bytes of valid UTF-8 text: the
  code reads runes and writes each of them back, so that the bytes outside ASCII stay as they
  are. Unicode white space outside ASCII is left out.\<close>

fun command_arg :: "string \<Rightarrow> bool \<times> string" where
  "command_arg [] = (False, [])"
| "command_arg (r # arg) =
     (let (needsQuotes, argBuf) = command_arg arg in
      if is_space r then (True, r # argBuf)
      else if r = dquote \<or> r = CHR ''$'' \<or> r = backslash then (True, backslash # r # argBuf)
      else (needsQuotes, r # argBuf))"

definition CommandString :: "string list \<Rightarrow> string" where
  "CommandString args =
     strings_Join '' ''
       (map (\<lambda>arg. let (needsQuotes, argBuf) = command_arg arg
                   in if needsQuotes then [dquote] @ argBuf @ [dquote] else argBuf) args)"

definition DumpFileOnErrorScript :: "string \<Rightarrow> string" where
  "DumpFileOnErrorScript filename0 =
     (let filename = ShQuote filename0; nl = [CHR 0x0A] in
      ''dump_file() {'' @ nl @ ''    code=$?'' @ nl
      @ ''    if [ $code -ne 0 -a -e '' @ filename @ '' ]; then'' @ nl
      @ ''        cat '' @ filename @ '' >&2'' @ nl @ ''    fi'' @ nl @ ''    exit $code'' @ nl
      @ ''}'' @ nl @ ''trap dump_file EXIT'' @ nl)"

subsection \<open>ShQuote\<close>

lemma quotes_distinct [simp]: "squote \<noteq> dquote" "dquote \<noteq> squote" "squote \<noteq> backslash" "backslash \<noteq> squote"
  "dquote \<noteq> backslash" "backslash \<noteq> dquote" "squote \<noteq> CHR '' ''" "dquote \<noteq> CHR '' ''"
  "\<not> dq_escaped squote"
  by (simp_all add: squote_def dquote_def backslash_def dq_escaped_def)

text \<open>Inside the quotes of \<^verbatim>\<open>ShQuote\<close>.\<close>

lemma sh_split_quoted:
  "sh_split Single (Some w)
     (concat (map (\<lambda>c. if c = squote then [squote, dquote, squote, dquote, squote] else [c]) s) @ [squote] @ rest)
   = sh_split Outside (Some (w @ s)) rest"
  by (induction s arbitrary: w) auto

lemma sh_split_ShQuote: "sh_split Outside w (ShQuote s @ rest) = sh_split Outside (Some ((case w of None \<Rightarrow> [] | Some t \<Rightarrow> t) @ s)) rest"
  using sh_split_quoted[of _ s rest] by (simp add: ShQuote_def)

lemma sh_words_next: "sh_split Outside (Some t) (CHR '' '' # rest) = map_option ((#) t) (sh_words rest)"
  by (cases "sh_split Outside None rest") (simp_all add: sh_words_def)

text \<open>A command line is split into its arguments when each of them is printed as one word.\<close>

lemma sh_words_Join:
  assumes "\<And>a rest. a \<in> set args \<Longrightarrow> sh_split Outside None (f a @ rest) = sh_split Outside (Some a) rest"
  shows "sh_words (strings_Join '' '' (map f args)) = Some args"
  using assms
proof (induction args)
  case (Cons a args)
  have word: "sh_split Outside None (f a @ rest) = sh_split Outside (Some a) rest" for rest
    using Cons.prems by simp
  show ?case
  proof (cases args)
    case Nil
    then show ?thesis using word[of "[]"] by (simp add: sh_words_def)
  next
    case (Cons b bs)
    then have "strings_Join '' '' (map f (a # args)) = f a @ CHR '' '' # strings_Join '' '' (map f args)"
      by simp
    moreover have "sh_words (strings_Join '' '' (map f args)) = Some args"
      by (rule Cons.IH) (simp add: Cons.prems)
    ultimately show ?thesis
      using word sh_words_next by (simp add: sh_words_def)
  qed
qed (simp add: sh_words_def)

text \<open>(C34) A shell reads quoted arguments back as they are: \<^verbatim>\<open>ShQuote\<close> of any string is one word, that
  string, and a command line of quoted arguments is split into exactly these arguments,
  empty ones included, whatever characters they have.\<close>

theorem ShQuote_words:
  "sh_words (strings_Join '' '' (map ShQuote args)) = Some args"
  by (rule sh_words_Join) (simp add: sh_split_ShQuote)

subsection \<open>CommandString\<close>

text \<open>What is left to the caller of \<^verbatim>\<open>CommandString\<close>: no argument is empty or has a
  backquote, and one that has a character special to the shell also has one of those that make the
  code quote it.\<close>

definition command_safe :: "string \<Rightarrow> bool" where
  "command_safe arg \<longleftrightarrow> arg \<noteq> [] \<and> CHR ''`'' \<notin> set arg \<and> (fst (command_arg arg) \<or> list_all sh_plain arg)"

lemma not_space [simp]: "\<not> is_space squote" "\<not> is_space dquote" "\<not> is_space backslash" "\<not> is_space (CHR ''$'')"
  by (simp_all add: is_space_def squote_def dquote_def backslash_def)

lemma dollar_distinct: "CHR ''$'' \<noteq> dquote" "CHR ''$'' \<noteq> backslash" "dquote \<noteq> CHR ''$''" "backslash \<noteq> CHR ''$''"
  by (simp_all add: dquote_def backslash_def)

lemma sh_split_command_arg:
  assumes "CHR ''`'' \<notin> set arg"
  shows "sh_split Double (Some w) (snd (command_arg arg) @ dquote # rest) = sh_split Outside (Some (w @ arg)) rest"
  using assms
  by (induction arg arbitrary: w) (auto simp: split_beta Let_def dq_escaped_def dollar_distinct)

lemma command_arg_plain: "\<not> fst (command_arg arg) \<Longrightarrow> snd (command_arg arg) = arg"
  by (induction arg) (auto simp: split_beta Let_def split: if_splits)

lemma sh_plain_unquoted [simp]: "\<not> sh_plain squote" "\<not> sh_plain dquote" "\<not> sh_plain (CHR '' '')"
  "\<not> sh_plain (CHR ''`'')"
  by (simp_all add: sh_plain_def squote_def dquote_def)

lemma sh_split_plain:
  "list_all sh_plain arg \<Longrightarrow> sh_split Outside (Some w) (arg @ rest) = sh_split Outside (Some (w @ arg)) rest"
  by (induction arg arbitrary: w) auto

lemma sh_split_command_safe:
  assumes "command_safe arg"
  shows "sh_split Outside None
     ((let (needsQuotes, argBuf) = command_arg arg
       in if needsQuotes then [dquote] @ argBuf @ [dquote] else argBuf) @ rest) = sh_split Outside (Some arg) rest"
proof (cases "fst (command_arg arg)")
  case True
  then show ?thesis
    using assms sh_split_command_arg[of arg "[]" rest] by (simp add: command_safe_def split_beta)
next
  case False
  with assms obtain c arg' where "arg = c # arg'" "sh_plain c" "list_all sh_plain arg'"
    by (cases arg) (auto simp: command_safe_def)
  moreover have "snd (command_arg arg) = arg"
    using False by (rule command_arg_plain)
  ultimately show ?thesis
    using False sh_split_plain[of arg' "[c]" rest] by (auto simp: split_beta)
qed

text \<open>A shell splits the line of \<^verbatim>\<open>CommandString\<close> into the arguments it was made from, slashes,
  variables, double quotes and white space in them included, when no argument is empty or has a
  backquote and an argument whose characters are not all plain has one that makes the code
  quote it.\<close>

theorem CommandString_words:
  assumes "list_all command_safe args"
  shows "sh_words (CommandString args) = Some args"
  unfolding CommandString_def
  by (rule sh_words_Join, rule sh_split_command_safe) (use assms in \<open>simp add: list_all_iff\<close>)

theorem CommandString_words_witness:
  "sh_words (CommandString [''echo'', ''a $b'', [backslash, dquote]]) = Some [''echo'', ''a $b'', [backslash, dquote]]"
  by (rule CommandString_words) code_simp

text \<open>A line without double quotes has no single quote in its words, and one without any quotes no
  backquote.\<close>

lemma sh_split_no_squote:
  assumes "sh_split m w s = Some ws" "m \<noteq> Double" "dquote \<notin> set s" "\<forall>t. w = Some t \<longrightarrow> squote \<notin> set t"
  shows "\<forall>t \<in> set ws. squote \<notin> set t"
  using assms
proof (induction m w s arbitrary: ws rule: sh_split.induct)
  case (6 w c s)
  show ?case
  proof (cases "c = CHR '' ''")
    case True
    then show ?thesis
      using 6 by (auto split: option.splits)
  next
    case False
    then show ?thesis
      using 6 by (auto simp: Let_def split: option.splits if_splits)
  qed
next
  case (4 w c s)
  show ?case
  proof (cases "c = squote")
    case True
    show ?thesis by (rule "4.IH"(1)) (use "4.prems" True in simp_all)
  next
    case False
    show ?thesis by (rule "4.IH"(2)) (use "4.prems" False in auto)
  qed
next
  case (1 w)
  then show ?case by (cases w) auto
qed simp_all

lemma sh_split_backquote:
  assumes "dquote \<notin> set s" "squote \<notin> set s" "CHR ''`'' \<in> set s"
  shows "sh_split Outside w s = None"
  using assms
  by (induction s arbitrary: w) (auto simp: Let_def)

lemma command_arg_no_dquote: "\<not> fst (command_arg arg) \<Longrightarrow> dquote \<notin> set arg"
  by (induction arg) (auto simp: split_beta Let_def split: if_splits)

text \<open>The limits of \<^verbatim>\<open>CommandString\<close>: a single argument with no double quote, dollar,
  backslash or white space is printed as it is, so that an empty one is no word of the line, and one
  with a single quote or a backquote is not read back as itself.\<close>

lemma CommandString_unquoted:
  assumes "\<not> fst (command_arg arg)"
    and "arg = [] \<or> squote \<in> set arg \<or> CHR ''`'' \<in> set arg"
  shows "CommandString [arg] = arg \<and> sh_words (CommandString [arg]) \<noteq> Some [arg]"
proof -
  have line: "CommandString [arg] = arg"
    using assms(1) command_arg_plain[of arg] by (simp add: CommandString_def split_beta)
  have "sh_words arg \<noteq> Some [arg]"
    using assms(2) command_arg_no_dquote[OF assms(1)] sh_split_backquote[of arg None]
      sh_split_no_squote[of Outside None arg "[arg]"]
    by (cases "squote \<in> set arg") (auto simp: sh_words_def)
  with line show ?thesis by simp
qed

end
