(* ===== verification/Proxy.thy ===== *)
theory Proxy
  imports Prelude
begin

text \<open>
  Proxy settings (\<^verbatim>\<open>src/proxy/proxy.go\<close>). The process environment is a partial map from names
  to values and is passed to the functions that read it and returned by those that change it. The three
  forms in which settings leave the program (the environment of the process itself, the environment of
  a command and the lines of a script) are read back by the code's own detection.
\<close>

definition newline :: char where "newline = CHR 0x0A"

subsection \<open>The code\<close>

definition http_proxy :: string where "http_proxy = ''http_proxy''"
definition https_proxy :: string where "https_proxy = ''https_proxy''"
definition ftp_proxy :: string where "ftp_proxy = ''ftp_proxy''"
definition no_proxy :: string where "no_proxy = ''no_proxy''"

record Settings =
  Http :: string
  Https :: string
  Ftp :: string
  NoProxy :: string

definition getSetting :: "env \<Rightarrow> string \<Rightarrow> string" where
  "getSetting env key =
     (let value = os_Getenv env key in
      if value = [] then os_Getenv env (strings_ToUpper key) else value)"

definition DetectProxies :: "env \<Rightarrow> Settings" where
  "DetectProxies env =
     \<lparr>Http = getSetting env http_proxy, Https = getSetting env https_proxy,
      Ftp = getSetting env ftp_proxy, NoProxy = getSetting env no_proxy\<rparr>"

text \<open>The closures \<^verbatim>\<open>addLine\<close>, which append to the lines, and \<^verbatim>\<open>setenv\<close>.\<close>

definition addLine_script :: "string \<Rightarrow> string \<Rightarrow> string list \<Rightarrow> string list" where
  "addLine_script proxy value lines =
     (if value \<noteq> [] then lines @ [''export '' @ proxy @ ''='' @ value, ''export '' @ strings_ToUpper proxy @ ''='' @ value]
      else lines)"

definition AsScriptEnvironment :: "Settings \<Rightarrow> string" where
  "AsScriptEnvironment s =
     (let lines = addLine_script http_proxy (Http s) [];
          lines = addLine_script https_proxy (Https s) lines;
          lines = addLine_script ftp_proxy (Ftp s) lines;
          lines = addLine_script no_proxy (NoProxy s) lines
      in strings_Join [newline] lines)"

definition addLine_env :: "string \<Rightarrow> string \<Rightarrow> string list \<Rightarrow> string list" where
  "addLine_env proxy value lines =
     (if value \<noteq> [] then lines @ [proxy @ ''='' @ value, strings_ToUpper proxy @ ''='' @ value] else lines)"

definition AsEnvironmentValues :: "Settings \<Rightarrow> string list" where
  "AsEnvironmentValues s =
     (let lines = addLine_env http_proxy (Http s) [];
          lines = addLine_env https_proxy (Https s) lines;
          lines = addLine_env ftp_proxy (Ftp s) lines
      in addLine_env no_proxy (NoProxy s) lines)"

definition setenv :: "string \<Rightarrow> string \<Rightarrow> env \<Rightarrow> env" where
  "setenv proxy value env = os_Setenv (strings_ToUpper proxy) value (os_Setenv proxy value env)"

definition SetEnvironmentValues :: "Settings \<Rightarrow> env \<Rightarrow> env" where
  "SetEnvironmentValues s env =
     setenv no_proxy (NoProxy s) (setenv ftp_proxy (Ftp s) (setenv https_proxy (Https s)
       (setenv http_proxy (Http s) env)))"

subsection \<open>One setting\<close>

definition proxy_keys :: "string set" where
  "proxy_keys = {http_proxy, https_proxy, ftp_proxy, no_proxy}"

lemma proxy_keys_in [simp]:
  "http_proxy \<in> proxy_keys" "https_proxy \<in> proxy_keys" "ftp_proxy \<in> proxy_keys" "no_proxy \<in> proxy_keys"
  by (simp_all add: proxy_keys_def)

lemmas proxy_names = http_proxy_def https_proxy_def ftp_proxy_def no_proxy_def

lemma proxy_keys_distinct [simp]:
  "http_proxy \<noteq> https_proxy" "http_proxy \<noteq> ftp_proxy" "http_proxy \<noteq> no_proxy"
  "https_proxy \<noteq> http_proxy" "https_proxy \<noteq> ftp_proxy" "https_proxy \<noteq> no_proxy"
  "ftp_proxy \<noteq> http_proxy" "ftp_proxy \<noteq> https_proxy" "ftp_proxy \<noteq> no_proxy"
  "no_proxy \<noteq> http_proxy" "no_proxy \<noteq> https_proxy" "no_proxy \<noteq> ftp_proxy"
  by (simp_all add: proxy_names)

lemma proxy_upper:
  "strings_ToUpper http_proxy = ''HTTP_PROXY''" "strings_ToUpper https_proxy = ''HTTPS_PROXY''"
  "strings_ToUpper ftp_proxy = ''FTP_PROXY''" "strings_ToUpper no_proxy = ''NO_PROXY''"
  by code_simp+

lemma proxy_key_cases:
  assumes "p \<in> proxy_keys"
  obtains "p = http_proxy" | "p = https_proxy" | "p = ftp_proxy" | "p = no_proxy"
  using assms by (auto simp: proxy_keys_def)

lemma proxy_upper_other: "p \<in> proxy_keys \<Longrightarrow> q \<in> proxy_keys \<Longrightarrow> strings_ToUpper p \<noteq> q"
  by (elim proxy_key_cases; simp only: proxy_upper; simp add: proxy_names)

lemma proxy_upper_inj: "p \<in> proxy_keys \<Longrightarrow> q \<in> proxy_keys \<Longrightarrow> strings_ToUpper p = strings_ToUpper q \<longleftrightarrow> p = q"
  by (elim proxy_key_cases; simp only: proxy_upper; simp)

lemma proxy_key_ok:
  assumes "p \<in> proxy_keys" and "k = p \<or> k = strings_ToUpper p"
  shows "k \<noteq> [] \<and> CHR ''='' \<notin> set k \<and> nul \<notin> set k"
  using assms by (elim proxy_key_cases disjE; simp only: proxy_upper) (simp_all add: proxy_names nul_def)

lemma setenv_proxy:
  assumes "p \<in> proxy_keys" "nul \<notin> set v"
  shows "setenv p v env = env(p \<mapsto> v, strings_ToUpper p \<mapsto> v)"
  using proxy_key_ok[OF assms(1)] assms(2) by (simp add: setenv_def os_Setenv_def setenv_ok_def)

text \<open>What is detected for one key after another was written: to the environment, or as entries of the
  environment of a command.\<close>

lemma getSetting_setenv:
  assumes "p \<in> proxy_keys" "q \<in> proxy_keys" "nul \<notin> set v"
  shows "getSetting (setenv p v env) q = (if p = q then v else getSetting env q)"
  using proxy_upper_other[OF assms(1,2)] proxy_upper_other[OF assms(2,1)] proxy_upper_inj[OF assms(1,2)]
  by (auto simp: setenv_proxy[OF assms(1,3)] getSetting_def os_Getenv_def Let_def)

lemma getSetting_addLine:
  assumes "p \<in> proxy_keys" "q \<in> proxy_keys"
  shows "getSetting (env_of (addLine_env p v [] @ es)) q = (if p = q \<and> v \<noteq> [] then v else getSetting (env_of es) q)"
proof (cases "v = []")
  case False
  have "addLine_env p v [] @ es = (p @ CHR ''='' # v) # (strings_ToUpper p @ CHR ''='' # v) # es"
    using False by (simp add: addLine_env_def)
  moreover have "CHR ''='' \<notin> set p" "CHR ''='' \<notin> set (strings_ToUpper p)"
    using proxy_key_ok[OF assms(1)] by blast+
  ultimately have "env_of (addLine_env p v [] @ es) = (env_of es)(strings_ToUpper p \<mapsto> v, p \<mapsto> v)"
    by (simp only: env_of_entry not_False_eq_True)
  then show ?thesis
    using proxy_upper_other[OF assms] proxy_upper_other[OF assms(2,1)] proxy_upper_inj[OF assms] False
    by (auto simp: getSetting_def os_Getenv_def Let_def)
qed (simp add: addLine_env_def)

subsection \<open>Properties\<close>

text \<open>A value that an environment can hold has no NUL.\<close>

definition settings_ok :: "Settings \<Rightarrow> bool" where
  "settings_ok s \<longleftrightarrow> list_all (\<lambda>v. nul \<notin> set v) [Http s, Https s, Ftp s, NoProxy s]"

text \<open>Settings written to the environment are detected again, empty ones included and whatever the
  environment held before, and no variable but the eight of the proxies changes.\<close>

theorem DetectProxies_after_Set:
  assumes "settings_ok s"
  shows "DetectProxies (SetEnvironmentValues s env) = s
    \<and> (\<forall>k. k \<notin> proxy_keys \<union> strings_ToUpper ` proxy_keys \<longrightarrow> SetEnvironmentValues s env k = env k)"
proof
  show "DetectProxies (SetEnvironmentValues s env) = s"
    using assms by (simp add: settings_ok_def DetectProxies_def SetEnvironmentValues_def getSetting_setenv)
  show "\<forall>k. k \<notin> proxy_keys \<union> strings_ToUpper ` proxy_keys \<longrightarrow> SetEnvironmentValues s env k = env k"
    using assms by (auto simp: settings_ok_def SetEnvironmentValues_def setenv_proxy)
qed

theorem DetectProxies_after_Set_witness:
  "DetectProxies (SetEnvironmentValues \<lparr>Http = ''h'', Https = [], Ftp = ''f'', NoProxy = ''n''\<rparr> [''https_proxy'' \<mapsto> ''x''])
   = \<lparr>Http = ''h'', Https = [], Ftp = ''f'', NoProxy = ''n''\<rparr>"
proof -
  have "settings_ok \<lparr>Http = ''h'', Https = [], Ftp = ''f'', NoProxy = ''n''\<rparr>" by code_simp
  from DetectProxies_after_Set[OF this] show ?thesis by blast
qed

lemma AsEnvironmentValues_entries:
  "AsEnvironmentValues s = addLine_env http_proxy (Http s) [] @ addLine_env https_proxy (Https s) []
     @ addLine_env ftp_proxy (Ftp s) [] @ addLine_env no_proxy (NoProxy s) []"
  by (simp add: AsEnvironmentValues_def addLine_env_def)

lemma AsEnvironmentValues_keys:
  "set (AsEnvironmentValues s) \<subseteq> {e. CHR ''='' \<in> set e}" "distinct (map entry_key (AsEnvironmentValues s))"
proof -
  show "set (AsEnvironmentValues s) \<subseteq> {e. CHR ''='' \<in> set e}"
    by (auto simp: AsEnvironmentValues_entries addLine_env_def)
  have keys: "map entry_key (addLine_env p v []) = (if v = [] then [] else [p, strings_ToUpper p])" if "p \<in> proxy_keys" for p v
    using proxy_key_ok[OF that] by (simp add: addLine_env_def)
  show "distinct (map entry_key (AsEnvironmentValues s))"
    by (simp add: AsEnvironmentValues_entries keys proxy_upper_other proxy_upper_other[THEN not_sym] proxy_upper_inj)
qed

text \<open>A command whose environment starts with the environment values of the settings detects
  the values that are not empty as they are, whatever characters they have, and the others as it would
  without these entries; in an environment of these values alone it detects exactly the settings.\<close>

theorem DetectProxies_of_values:
  "DetectProxies (env_of (AsEnvironmentValues s @ es)) =
     (let d = DetectProxies (env_of es) in
      \<lparr>Http = (if Http s = [] then Http d else Http s), Https = (if Https s = [] then Https d else Https s),
       Ftp = (if Ftp s = [] then Ftp d else Ftp s), NoProxy = (if NoProxy s = [] then NoProxy d else NoProxy s)\<rparr>)
   \<and> DetectProxies (env_of (AsEnvironmentValues s)) = s"
proof -
  have empty_env: "DetectProxies Map.empty = \<lparr>Http = [], Https = [], Ftp = [], NoProxy = []\<rparr>"
    by (simp add: DetectProxies_def getSetting_def os_Getenv_def)
  have all: "DetectProxies (env_of (AsEnvironmentValues s @ es)) =
     (let d = DetectProxies (env_of es) in
      \<lparr>Http = (if Http s = [] then Http d else Http s), Https = (if Https s = [] then Https d else Https s),
       Ftp = (if Ftp s = [] then Ftp d else Ftp s), NoProxy = (if NoProxy s = [] then NoProxy d else NoProxy s)\<rparr>)" for es
    by (simp add: AsEnvironmentValues_entries DetectProxies_def getSetting_addLine Let_def)
  show ?thesis
    using all[of es] all[of "[]"] by (simp add: empty_env Let_def)
qed

text \<open>The script has one exporting line per environment value.\<close>

lemma AsScriptEnvironment_lines:
  "AsScriptEnvironment s = strings_Join [newline] (map ((@) ''export '') (AsEnvironmentValues s))"
  by (simp add: AsScriptEnvironment_def AsEnvironmentValues_def addLine_script_def addLine_env_def)

end
