(* ===== verification/DebugStatus.thy ===== *)
theory DebugStatus
  imports Prelude
begin

text \<open>
  Status checks (\<^verbatim>\<open>src/debugstatus/status.go\<close>). A checker is a function with effects: it takes
  the state of the program, which has the captured variables of the closures and what the checkers look
  at, and returns a key, a result and the new state. What \<^verbatim>\<open>Pinger\<close> and
  \<^verbatim>\<open>Collector\<close> answer is an argument; a collection is its name.
\<close>

record CheckResult =
  Name :: string
  Value :: string
  Passed :: bool

type_synonym 's CheckerFunc = "'s \<Rightarrow> (string \<times> CheckResult) \<times> 's"

fun Check_loop :: "'s CheckerFunc list \<Rightarrow> (string, CheckResult) mapping \<Rightarrow> 's \<Rightarrow> (string, CheckResult) mapping \<times> 's" where
  "Check_loop [] results s = (results, s)"
| "Check_loop (c # cs) results s =
     (let ((key, result), s') = c s in Check_loop cs (Mapping.update key result results) s')"

definition Check :: "'s CheckerFunc list \<Rightarrow> 's \<Rightarrow> (string, CheckResult) mapping \<times> 's" where
  "Check checkers s = Check_loop checkers Mapping.empty s"

definition ServerStartTime :: "string \<Rightarrow> 's CheckerFunc" where
  "ServerStartTime StartTime s =
     ((''server_started'', \<lparr>Name = ''Server started'', Value = StartTime, Passed = True\<rparr>), s)"

text \<open>\<^verbatim>\<open>Ping\<close> returns the text of its error, or no error.\<close>

definition Connection :: "('s \<Rightarrow> string option \<times> 's) \<Rightarrow> 's CheckerFunc" where
  "Connection Ping s =
     (let (err, s') = Ping s in
      case err of
        Some e \<Rightarrow> ((''mongo_connected'', \<lparr>Name = ''MongoDB is connected'', Value = ''Ping error: '' @ e, Passed = False\<rparr>), s')
      | None \<Rightarrow> ((''mongo_connected'', \<lparr>Name = ''MongoDB is connected'', Value = ''Connected'', Passed = True\<rparr>), s'))"

text \<open>The loops over the expected collections and over the names.\<close>

fun found :: "string \<Rightarrow> string list \<Rightarrow> bool" where
  "found coll [] = False"
| "found coll (name # names) = (if name = coll then True else found coll names)"

fun missing_collections :: "string list \<Rightarrow> string list \<Rightarrow> string list \<Rightarrow> string list" where
  "missing_collections [] names missing = missing"
| "missing_collections (coll # colls) names missing =
     missing_collections colls names (if \<not> found coll names then missing @ [coll] else missing)"

text \<open>The verb \<^verbatim>\<open>%s\<close> of \<^verbatim>\<open>fmt\<close> on a slice of strings.\<close>

definition fmt_slice :: "string list \<Rightarrow> string" where
  "fmt_slice xs = ''['' @ strings_Join '' '' xs @ '']''"

definition MongoCollections ::
  "('s \<Rightarrow> (string + string list) \<times> 's) \<Rightarrow> ('s \<Rightarrow> string list \<times> 's) \<Rightarrow> 's CheckerFunc" where
  "MongoCollections CollectionNames Collections s =
     (let (r, s1) = CollectionNames s in
      case r of
        Inl err \<Rightarrow>
          ((''mongo_collections'', \<lparr>Name = ''MongoDB collections'', Value = ''Cannot get collections: '' @ err, Passed = False\<rparr>), s1)
      | Inr names \<Rightarrow>
          (let (colls, s2) = Collections s1; missing = missing_collections colls names [] in
           if length missing = 0
           then ((''mongo_collections'', \<lparr>Name = ''MongoDB collections'', Value = ''All required collections exist'', Passed = True\<rparr>), s2)
           else ((''mongo_collections'', \<lparr>Name = ''MongoDB collections'', Value = ''Missing collections: '' @ fmt_slice missing, Passed = False\<rparr>), s2)))"

text \<open>The closure of \<^verbatim>\<open>Rename\<close> assigns to the parameter \<^verbatim>\<open>newKey\<close> that it has captured, which
  is therefore part of the state: the pair of it and of the state of the renamed check.\<close>

definition Rename :: "string \<Rightarrow> 's CheckerFunc \<Rightarrow> (string \<times> 's) CheckerFunc" where
  "Rename newName check st =
     (let (newKey, s) = st;
          ((key, result), s') = check s;
          newKey = (if newKey = [] then key else newKey);
          result = (if newName \<noteq> [] then result\<lparr>Name := newName\<rparr> else result)
      in ((newKey, result), (newKey, s')))"

subsection \<open>Check\<close>

text \<open>The answers of checkers that are run in order.\<close>

fun answers :: "'s CheckerFunc list \<Rightarrow> 's \<Rightarrow> (string \<times> CheckResult) list" where
  "answers [] s = []"
| "answers (c # cs) s = (let (r, s') = c s in r # answers cs s')"

lemma Check_loop_lookup:
  "Mapping.lookup (fst (Check_loop cs results s)) k
   = (case map_of (rev (answers cs s)) k of Some r \<Rightarrow> Some r | None \<Rightarrow> Mapping.lookup results k)"
proof (induction cs arbitrary: results s)
  case (Cons c cs)
  obtain key result s' where "c s = ((key, result), s')" by (metis prod.exhaust)
  with Cons.IH show ?case
    by (auto simp: lookup_update' map_add_def split: option.splits)
qed simp

lemma Check_loop_state: "snd (Check_loop cs results s) = fold (\<lambda>c s. snd (c s)) cs s"
  by (induction cs arbitrary: results s) (auto simp: split_beta Let_def)

text \<open>Every checker is run once, in order and on the state its predecessor left, and the results
  hold for each key the answer of the last checker that gave this key, and no other keys.\<close>

theorem Check_collects:
  "Mapping.lookup (fst (Check checkers s)) = map_of (rev (answers checkers s))
   \<and> snd (Check checkers s) = fold (\<lambda>c s. snd (c s)) checkers s"
  by (auto simp: Check_def Check_loop_lookup Check_loop_state lookup_empty split: option.splits)

subsection \<open>MongoCollections\<close>

lemma found_set: "found coll names \<longleftrightarrow> coll \<in> set names"
  by (induction names) auto

lemma missing_collections_filter:
  "missing_collections colls names missing = missing @ filter (\<lambda>c. c \<notin> set names) colls"
  by (induction colls arbitrary: missing) (auto simp: found_set)

text \<open>The check passes exactly when every required collection exists, and otherwise says which
  ones do not, or that they could not be listed.\<close>

theorem MongoCollections_outcome:
  assumes "CollectionNames s = (r, s1)" and "Collections s1 = (colls, s2)"
  shows "Passed (snd (fst (MongoCollections CollectionNames Collections s)))
      \<longleftrightarrow> (\<exists>names. r = Inr names \<and> set colls \<subseteq> set names)"
    and "r = Inr names \<Longrightarrow> \<not> set colls \<subseteq> set names \<Longrightarrow>
      Value (snd (fst (MongoCollections CollectionNames Collections s)))
      = ''Missing collections: '' @ fmt_slice (filter (\<lambda>c. c \<notin> set names) colls)"
  using assms
  by (auto simp: MongoCollections_def missing_collections_filter filter_empty_conv Let_def split: sum.splits)

subsection \<open>Rename\<close>

text \<open>Renaming a check that always answers with the same key.\<close>

lemma Rename_outcome:
  assumes "check s = ((key, result), s')"
  shows "Rename newName check (newKey, s)
    = ((if newKey = [] then key else newKey, if newName = [] then result else result\<lparr>Name := newName\<rparr>),
       (if newKey = [] then key else newKey, s'))"
  using assms by (simp add: Rename_def)

text \<open>The key of the first call sticks: with an empty new key, which is to leave the key alone, a
  check that changes its key is reported under its first key for ever.\<close>

lemma Rename_key_sticks:
  assumes "Rename newName check (newKey, s) = ((k, r), st)" and "k \<noteq> []"
  shows "fst (fst (Rename newName check st)) = k"
  using assms by (auto simp: Rename_def split_beta Let_def split: if_splits)

end
