(* ===== verification/Paths.thy ===== *)
theory Paths
  imports Prelude
begin

text \<open>
  Slash separated paths: the functions of the packages \<^verbatim>\<open>path\<close> and \<^verbatim>\<open>path/filepath\<close> (on Unix, where they
  agree) that the code calls. A path is a string; \<open>path_comps\<close> are the names that the operating
  system walks along, and the lemmas say what cleaning and joining do to them.
\<close>

named_theorems path_simps \<open>components of cleaned and joined paths\<close>

definition dotdot :: string where "dotdot = ''..''"
definition dot :: string where "dot = ''.''"
definition slash :: char where "slash = CHR ''/''"

lemma dots_distinct [simp]: "dotdot \<noteq> dot" "dot \<noteq> dotdot" "dotdot \<noteq> []" "dot \<noteq> []"
  "slash \<notin> set dotdot" "slash \<notin> set dot"
  by (simp_all add: dotdot_def dot_def slash_def)

subsection \<open>The functions\<close>

definition IsAbs :: "string \<Rightarrow> bool" where
  "IsAbs p = (p \<noteq> [] \<and> hd p = slash)"

text \<open>One element of the path in the loop of \<^verbatim>\<open>Clean\<close>; the output is kept in reverse.\<close>

definition clean_step :: "bool \<Rightarrow> string \<Rightarrow> string list \<Rightarrow> string list" where
  "clean_step rooted x out =
     (if x = [] \<or> x = dot then out
      else if x = dotdot then
        (case out of
           [] \<Rightarrow> if rooted then [] else [dotdot]
         | y # ys \<Rightarrow> if y = dotdot then dotdot # out else ys)
      else x # out)"

definition clean_comps :: "bool \<Rightarrow> string list \<Rightarrow> string list" where
  "clean_comps rooted xs = rev (fold (clean_step rooted) xs [])"

definition path_Clean :: "string \<Rightarrow> string" where
  "path_Clean p =
     (let cs = clean_comps (IsAbs p) (strings_Split slash p) in
      if IsAbs p then slash # strings_Join [slash] cs
      else if cs = [] then dot else strings_Join [slash] cs)"

definition path_Join :: "string list \<Rightarrow> string" where
  "path_Join elems =
     (case dropWhile (\<lambda>e. e = []) elems of [] \<Rightarrow> [] | es \<Rightarrow> path_Clean (strings_Join [slash] es))"

definition filepath_Split :: "string \<Rightarrow> string \<times> string" where
  "filepath_Split p =
     (let r = takeWhile (\<lambda>c. c \<noteq> slash) (rev p) in (take (length p - length r) p, rev r))"

definition filepath_Dir :: "string \<Rightarrow> string" where
  "filepath_Dir p = path_Clean (fst (filepath_Split p))"

definition path_Base :: "string \<Rightarrow> string" where
  "path_Base p =
     (if p = [] then dot
      else let q = rev (dropWhile (\<lambda>c. c = slash) (rev p)) in
        if q = [] then [slash] else snd (filepath_Split q))"

text \<open>The names that the operating system walks along.\<close>

definition path_comps :: "string \<Rightarrow> string list" where
  "path_comps p = filter (\<lambda>x. x \<noteq> [] \<and> x \<noteq> dot) (strings_Split slash p)"

text \<open>\<^verbatim>\<open>Rel\<close>: the common elements are dropped; an element \<^verbatim>\<open>..\<close> of the base that is left where
  the paths differ is an error.\<close>

fun drop_common :: "string list \<Rightarrow> string list \<Rightarrow> string list \<times> string list" where
  "drop_common (b # bs) (t # ts) = (if b = t then drop_common bs ts else (b # bs, t # ts))"
| "drop_common bs ts = (bs, ts)"

definition filepath_Rel :: "string \<Rightarrow> string \<Rightarrow> string option" where
  "filepath_Rel basepath targpath =
     (let base = path_Clean basepath; targ = path_Clean targpath in
      if base = targ then Some dot
      else let base = (if base = dot then [] else base) in
        if IsAbs base \<noteq> IsAbs targ then None
        else let (bs, ts) = drop_common (filter (\<lambda>x. x \<noteq> []) (strings_Split slash base))
                                        (filter (\<lambda>x. x \<noteq> []) (strings_Split slash targ)) in
          if bs \<noteq> [] \<and> ts \<noteq> [] \<and> hd bs = dotdot then None
          else Some (strings_Join [slash] (replicate (length bs) dotdot @ ts)))"

subsection \<open>Components\<close>

text \<open>Names of entries, and components of a clean path: names after any number of \<^verbatim>\<open>..\<close>, of which
  a rooted path has none.\<close>

definition is_name :: "string \<Rightarrow> bool" where
  "is_name x \<longleftrightarrow> x \<noteq> [] \<and> x \<noteq> dot \<and> x \<noteq> dotdot \<and> slash \<notin> set x"

definition clean_list :: "bool \<Rightarrow> string list \<Rightarrow> bool" where
  "clean_list rooted cs \<longleftrightarrow> (\<exists>n xs. cs = replicate n dotdot @ xs \<and> list_all is_name xs \<and> (rooted \<longrightarrow> n = 0))"

lemma clean_list_names: "list_all is_name cs \<Longrightarrow> clean_list r cs"
  unfolding clean_list_def by (rule exI[of _ 0]) auto

lemma clean_list_rooted: "clean_list True cs \<longleftrightarrow> list_all is_name cs"
  by (auto simp: clean_list_def)

lemma clean_step_simps [simp]:
  "clean_step r [] out = out" "clean_step r dot out = out"
  "is_name x \<Longrightarrow> clean_step r x out = x # out"
  by (auto simp: clean_step_def is_name_def)

lemma clean_step_clean:
  assumes "clean_list r (rev out)" "slash \<notin> set x"
  shows "clean_list r (rev (clean_step r x out))"
proof -
  obtain n xs where out: "out = rev xs @ replicate n dotdot" "list_all is_name xs" "r \<longrightarrow> n = 0"
    using assms(1) unfolding clean_list_def by (metis rev_append rev_replicate rev_rev_ident)
  consider "x = [] \<or> x = dot" | "is_name x" | "x = dotdot"
    using assms(2) by (auto simp: is_name_def)
  then show ?thesis
  proof cases
    case 1
    then show ?thesis using assms by auto
  next
    case 2
    then show ?thesis
      using out by (auto simp: clean_list_def intro!: exI[of _ n] exI[of _ "xs @ [x]"])
  next
    case 3
    show ?thesis
    proof (cases xs rule: rev_cases)
      case (snoc ys y)
      then have "clean_step r x out = rev ys @ replicate n dotdot"
        using 3 out by (auto simp: clean_step_def is_name_def)
      then show ?thesis using out snoc by (auto simp: clean_list_def)
    next
      case Nil
      then have "clean_step r x out = (if r then [] else replicate (Suc n) dotdot)"
        using 3 out by (cases n) (auto simp: clean_step_def)
      then show ?thesis
        by (auto simp: clean_list_def intro: exI[of _ "Suc n"] simp del: replicate_Suc)
    qed
  qed
qed

lemma clean_fold_clean:
  "clean_list r (rev out) \<Longrightarrow> \<forall>x \<in> set xs. slash \<notin> set x \<Longrightarrow> clean_list r (rev (fold (clean_step r) xs out))"
  by (induction xs arbitrary: out) (auto simp: clean_step_clean)

lemma clean_comps_clean: "\<forall>x \<in> set xs. slash \<notin> set x \<Longrightarrow> clean_list r (clean_comps r xs)"
  using clean_fold_clean[of r "[]" xs] by (simp add: clean_comps_def clean_list_def)

lemma clean_fold_names: "list_all is_name xs \<Longrightarrow> fold (clean_step r) xs out = rev xs @ out"
  by (induction xs arbitrary: out) auto

lemma clean_fold_dotdots: "fold (clean_step False) (replicate n dotdot) (replicate m dotdot) = replicate (n + m) dotdot"
proof (induction n arbitrary: m)
  case (Suc n)
  have "clean_step False dotdot (replicate m dotdot) = replicate (Suc m) dotdot"
    by (cases m) (simp_all add: clean_step_def)
  then show ?case using Suc[of "Suc m"] by simp
qed simp

lemma clean_comps_fix:
  assumes "clean_list r cs"
  shows "clean_comps r cs = cs"
proof -
  obtain n xs where cs: "cs = replicate n dotdot @ xs" "list_all is_name xs" "r \<longrightarrow> n = 0"
    using assms unfolding clean_list_def by blast
  then have "fold (clean_step r) (replicate n dotdot) [] = replicate n dotdot"
    using clean_fold_dotdots[of n 0] by (cases r) auto
  then show ?thesis
    using cs by (simp add: clean_comps_def clean_fold_names)
qed

lemma clean_list_no_slash: "clean_list r cs \<Longrightarrow> \<forall>x \<in> set cs. x \<noteq> [] \<and> x \<noteq> dot \<and> slash \<notin> set x"
  unfolding clean_list_def by (elim exE conjE) (simp add: ball_Un list_all_iff is_name_def)

text \<open>Components and printing of clean paths.\<close>

lemma strings_Split_clean:
  "clean_list r cs \<Longrightarrow> cs \<noteq> [] \<Longrightarrow> strings_Split slash (strings_Join [slash] cs) = cs"
  using clean_list_no_slash[of r cs] by (simp add: strings_Split_Join)

lemma Split_slash_Cons [simp]: "strings_Split slash (slash # p) = [] # strings_Split slash p"
  by simp

lemma path_comps_Cons [path_simps]: "path_comps (slash # p) = path_comps p"
  by (simp add: path_comps_def)

lemma path_comps_Nil [simp]: "path_comps [] = []" "path_comps dot = []"
  by (simp_all add: path_comps_def dot_def slash_def)

lemma path_comps_Join_clean [path_simps]:
  assumes "clean_list r cs"
  shows "path_comps (strings_Join [slash] cs) = cs"
proof (cases "cs = []")
  case False
  have "filter (\<lambda>x. x \<noteq> [] \<and> x \<noteq> dot) cs = cs"
    using clean_list_no_slash[OF assms] by (auto intro: filter_True)
  then show ?thesis
    using strings_Split_clean[OF assms False] by (simp add: path_comps_def)
qed simp

lemma Split_no_slash: "\<forall>x \<in> set (strings_Split slash p). slash \<notin> set x"
  using strings_Split_parts by blast

text \<open>Cleaning depends on the components only.\<close>

lemma clean_fold_comps:
  "fold (clean_step r) (filter (\<lambda>x. x \<noteq> [] \<and> x \<noteq> dot) xs) out = fold (clean_step r) xs out"
  by (induction xs arbitrary: out) auto

lemma clean_comps_Split: "clean_comps r (strings_Split slash p) = clean_comps r (path_comps p)"
  by (simp add: clean_comps_def path_comps_def clean_fold_comps)

lemma path_comps_no_slash: "\<forall>x \<in> set (path_comps p). slash \<notin> set x"
  using Split_no_slash by (auto simp: path_comps_def)

lemma path_Clean_alt:
  "path_Clean p =
     (let cs = clean_comps (IsAbs p) (path_comps p) in
      if IsAbs p then slash # strings_Join [slash] cs
      else if cs = [] then dot else strings_Join [slash] cs)"
  by (simp add: path_Clean_def clean_comps_Split)

lemma path_comps_Clean [path_simps]: "path_comps (path_Clean p) = clean_comps (IsAbs p) (path_comps p)"
  using clean_comps_clean[OF path_comps_no_slash, of "IsAbs p" p]
  by (auto simp: path_Clean_alt Let_def path_comps_Cons path_comps_Join_clean)

lemma path_comps_Clean_clean: "clean_list (IsAbs p) (path_comps (path_Clean p))"
  by (simp add: path_comps_Clean clean_comps_clean path_comps_no_slash)

lemma IsAbs_Cons [simp]: "IsAbs (slash # p)"
  by (simp add: IsAbs_def)

lemma hd_Join: "cs \<noteq> [] \<Longrightarrow> hd cs \<noteq> [] \<Longrightarrow> hd (strings_Join [slash] cs) = hd (hd cs) \<and> strings_Join [slash] cs \<noteq> []"
  by (cases cs rule: strings_Join.cases[of "([slash], cs)" for cs]) auto

lemma IsAbs_Clean [simp]: "IsAbs (path_Clean p) = IsAbs p"
proof (cases "IsAbs p")
  case False
  let ?cs = "clean_comps (IsAbs p) (path_comps p)"
  have "hd ?cs \<noteq> [] \<and> slash \<notin> set (hd ?cs)" if "?cs \<noteq> []"
    using clean_list_no_slash[OF clean_comps_clean[OF path_comps_no_slash, of "IsAbs p" p]] that by simp
  then have "hd (strings_Join [slash] ?cs) \<noteq> slash" if "?cs \<noteq> []"
    using hd_Join[of ?cs] that by (metis list.set_sel(1))
  moreover have "hd dot \<noteq> slash" by (simp add: dot_def slash_def)
  ultimately show ?thesis
    using False by (auto simp: IsAbs_def path_Clean_alt Let_def)
qed (simp add: path_Clean_alt Let_def)

lemma path_Clean_idem [simp]: "path_Clean (path_Clean p) = path_Clean p"
proof -
  have "clean_comps (IsAbs p) (path_comps (path_Clean p)) = clean_comps (IsAbs p) (path_comps p)"
    using clean_comps_fix[OF path_comps_Clean_clean, of p] by (simp only: path_comps_Clean)
  then have "path_Clean (path_Clean p) =
      (let cs = clean_comps (IsAbs p) (path_comps p) in
       if IsAbs p then slash # strings_Join [slash] cs
       else if cs = [] then dot else strings_Join [slash] cs)"
    by (subst path_Clean_alt) simp
  then show ?thesis by (simp only: path_Clean_alt[of p])
qed

text \<open>A clean path is printed from its components.\<close>

lemma path_Clean_abs: "IsAbs p \<Longrightarrow> path_comps (path_Clean p) = cs \<Longrightarrow> path_Clean p = slash # strings_Join [slash] cs"
  using path_Clean_alt[of p] path_comps_Clean[of p] by simp

lemma path_Clean_rel:
  "\<not> IsAbs p \<Longrightarrow> path_comps (path_Clean p) = cs \<Longrightarrow> path_Clean p = (if cs = [] then dot else strings_Join [slash] cs)"
  using path_Clean_alt[of p] path_comps_Clean[of p] by simp

lemma path_Clean_not_Nil [simp]: "path_Clean p \<noteq> []"
proof (cases "IsAbs p")
  case False
  let ?cs = "path_comps (path_Clean p)"
  have "strings_Join [slash] ?cs \<noteq> []" if "?cs \<noteq> []"
    using hd_Join[OF that] clean_list_no_slash[OF path_comps_Clean_clean[of p]] that by simp
  then show ?thesis using path_Clean_rel[OF False] by (auto split: if_splits)
qed (use path_Clean_abs in force)

text \<open>A clean rooted path is determined by its components.\<close>

lemma path_Clean_eq_iff:
  assumes "IsAbs p" "IsAbs q"
  shows "path_Clean p = path_Clean q \<longleftrightarrow> path_comps (path_Clean p) = path_comps (path_Clean q)"
  using assms by (metis path_Clean_alt path_comps_Clean)

subsection \<open>Joining\<close>

lemma strings_Split_append2: "strings_Split c (s @ c # t) = strings_Split c s @ strings_Split c t"
proof (induction s)
  case (Cons x s)
  then show ?case by (cases "strings_Split c s") (auto split: list.splits)
qed simp

lemma path_comps_append [path_simps]: "path_comps (p @ slash # q) = path_comps p @ path_comps q"
  by (simp add: path_comps_def strings_Split_append2)

lemma path_comps_Join2 [path_simps]: "path_comps (strings_Join [slash] [p, q]) = path_comps p @ path_comps q"
  by (simp add: path_comps_append)

lemma IsAbs_append [simp]: "IsAbs p \<Longrightarrow> IsAbs (p @ q)"
  by (cases p) (simp_all add: IsAbs_def)

lemma path_Join_abs:
  assumes "IsAbs p"
  shows "IsAbs (path_Join [p, q])" "path_comps (path_Join [p, q]) = clean_comps True (path_comps p @ path_comps q)"
proof -
  have "p \<noteq> []" using assms by (simp add: IsAbs_def)
  then have "path_Join [p, q] = path_Clean (p @ slash # q)" by (simp add: path_Join_def)
  then show "IsAbs (path_Join [p, q])" "path_comps (path_Join [p, q]) = clean_comps True (path_comps p @ path_comps q)"
    using assms by (simp_all add: path_comps_Clean path_comps_append)
qed

lemma clean_fold_rooted_dotdots:
  "list_all is_name out \<Longrightarrow> fold (clean_step True) (replicate n dotdot) out = drop n out"
proof (induction n arbitrary: out)
  case (Suc n)
  have "clean_step True dotdot out = tl out"
    using Suc.prems by (cases out) (auto simp: clean_step_def is_name_def)
  moreover have "list_all is_name (tl out)"
    using Suc.prems by (cases out) auto
  ultimately show ?case using Suc.IH by (simp add: drop_Suc)
qed simp

text \<open>Joining a clean relative path to a clean rooted one: leading \<^verbatim>\<open>..\<close> remove names of the root.\<close>

lemma clean_comps_join:
  assumes "list_all is_name rs" "list_all is_name xs"
  shows "clean_comps True (rs @ replicate n dotdot @ xs) = take (length rs - n) rs @ xs"
proof -
  have "fold (clean_step True) (replicate n dotdot) (rev rs) = drop n (rev rs)"
    by (rule clean_fold_rooted_dotdots) (use assms in \<open>simp add: list_all_iff\<close>)
  then show ?thesis
    using assms by (simp add: clean_comps_def clean_fold_names drop_rev del: fold_replicate)
qed

lemma clean_comps_join_names:
  "list_all is_name rs \<Longrightarrow> list_all is_name xs \<Longrightarrow> clean_comps True (rs @ xs) = rs @ xs"
  using clean_comps_join[of rs xs 0] by simp

text \<open>The clean rooted path with given components.\<close>

definition abs_path :: "string list \<Rightarrow> string" where
  "abs_path cs = slash # strings_Join [slash] cs"

lemma abs_path_comps [simp]: "IsAbs (abs_path cs)" "list_all is_name cs \<Longrightarrow> path_comps (abs_path cs) = cs"
  by (simp_all add: abs_path_def path_simps path_comps_Join_clean[OF clean_list_names])

lemma abs_path_eq: "IsAbs p \<Longrightarrow> path_Clean p = p \<Longrightarrow> path_comps p = cs \<Longrightarrow> p = abs_path cs"
  using path_Clean_abs[of p cs] by (simp add: abs_path_def)

lemma path_Join_abs_path:
  assumes "list_all is_name cs" "list_all is_name (path_comps q)"
  shows "path_Join [abs_path cs, q] = abs_path (cs @ path_comps q)"
proof (rule abs_path_eq)
  show "path_comps (path_Join [abs_path cs, q]) = cs @ path_comps q"
    using path_Join_abs(2)[of "abs_path cs" q] clean_comps_join_names assms by simp
  show "path_Clean (path_Join [abs_path cs, q]) = path_Join [abs_path cs, q]"
    by (simp add: path_Join_def abs_path_def)
qed (simp add: path_Join_abs)

lemma path_comps_name: "is_name x \<Longrightarrow> path_comps x = [x]"
  using path_comps_Join_clean[OF clean_list_names[of "[x]" False]] by simp

lemma strings_Join_append:
  "xs \<noteq> [] \<Longrightarrow> ys \<noteq> [] \<Longrightarrow> strings_Join [c] (xs @ ys) = strings_Join [c] xs @ c # strings_Join [c] ys"
proof (induction xs)
  case (Cons x xs)
  then show ?case by (cases xs; cases ys) auto
qed simp

lemma abs_path_append:
  "abs_path (cs @ ds) =
     (if ds = [] then abs_path cs else if cs = [] then abs_path ds else abs_path cs @ slash # strings_Join [slash] ds)"
  by (simp add: abs_path_def strings_Join_append)

text \<open>Components of the directory and the base of a clean path.\<close>

lemma filepath_Split_append: "fst (filepath_Split p) @ snd (filepath_Split p) = p"
proof -
  let ?r = "takeWhile (\<lambda>c. c \<noteq> slash) (rev p)"
  have "rev p = ?r @ dropWhile (\<lambda>c. c \<noteq> slash) (rev p)" by simp
  then have "p = rev (dropWhile (\<lambda>c. c \<noteq> slash) (rev p)) @ rev ?r"
    by (metis rev_append rev_rev_ident)
  moreover have "length p - length ?r = length (dropWhile (\<lambda>c. c \<noteq> slash) (rev p))"
    by (metis add_diff_cancel_left' length_append length_rev takeWhile_dropWhile_id)
  ultimately show ?thesis
    by (simp add: filepath_Split_def Let_def) (metis append_eq_conv_conj length_rev)
qed

lemma filepath_Split_slash:
  assumes "slash \<notin> set b"
  shows "filepath_Split (a @ slash # b) = (a @ [slash], b)"
proof -
  have "takeWhile (\<lambda>c. c \<noteq> slash) (rev (a @ slash # b)) = rev b"
    using assms by (simp only: rev_append rev.simps append_assoc) (auto simp: takeWhile_append)
  then show ?thesis by (simp add: filepath_Split_def)
qed

lemma path_comps_slash_end: "path_comps (a @ [slash]) = path_comps a"
  using path_comps_append[of a "[]"] by simp

lemma strings_Join_snoc: "cs \<noteq> [] \<Longrightarrow> strings_Join [c] (cs @ [x]) = strings_Join [c] cs @ c # x"
  by (induction "[c]" cs rule: strings_Join.induct) auto

text \<open>A clean rooted path is split into the path of its directory and its last name.\<close>

lemma filepath_Split_comps:
  assumes "IsAbs p" "path_comps (path_Clean p) = cs"
  shows "IsAbs (fst (filepath_Split (path_Clean p)))"
    and "path_comps (fst (filepath_Split (path_Clean p))) = butlast cs"
    and "cs \<noteq> [] \<Longrightarrow> snd (filepath_Split (path_Clean p)) = last cs"
proof -
  have clean: "clean_list True cs"
    using path_comps_Clean_clean[of p] assms by simp
  then have clean': "clean_list True (butlast cs)"
    by (auto simp: clean_list_rooted list_all_iff dest: in_set_butlastD)
  have p: "path_Clean p = slash # strings_Join [slash] cs"
    using path_Clean_abs[OF assms] .
  have "filepath_Split (path_Clean p) =
      (slash # strings_Join [slash] (butlast cs) @ (if length cs > 1 then [slash] else []), if cs = [] then [] else last cs)"
  proof (cases cs rule: rev_cases)
    case Nil
    then show ?thesis using p filepath_Split_slash[of "[]" "[]"] by simp
  next
    case (snoc ys y)
    then have "slash \<notin> set y" using clean_list_no_slash[OF clean] by simp
    then show ?thesis
      using p snoc filepath_Split_slash[of y "[]"] filepath_Split_slash[of y "slash # strings_Join [slash] ys"]
      by (cases "ys = []") (simp_all add: strings_Join_snoc)
  qed
  then show "IsAbs (fst (filepath_Split (path_Clean p)))"
    and "path_comps (fst (filepath_Split (path_Clean p))) = butlast cs"
    and "cs \<noteq> [] \<Longrightarrow> snd (filepath_Split (path_Clean p)) = last cs"
    using path_comps_slash_end[of "slash # strings_Join [slash] (butlast cs)"] clean'
    by (simp_all add: path_comps_Cons path_comps_Join_clean)
qed

lemma filepath_Dir_comps:
  assumes "IsAbs p"
  shows "IsAbs (filepath_Dir (path_Clean p))"
    and "path_comps (filepath_Dir (path_Clean p)) = butlast (path_comps (path_Clean p))"
proof -
  note split = filepath_Split_comps[OF assms refl]
  have "clean_list True (butlast (path_comps (path_Clean p)))"
    using path_comps_Clean_clean[of p] assms
    by (auto simp: clean_list_rooted list_all_iff dest: in_set_butlastD)
  with split show "IsAbs (filepath_Dir (path_Clean p))"
    and "path_comps (filepath_Dir (path_Clean p)) = butlast (path_comps (path_Clean p))"
    by (simp_all add: filepath_Dir_def path_comps_Clean[of "fst _"] clean_comps_fix)
qed

end
