(* ===== verification/OsCalls.thy ===== *)
theory OsCalls
  imports FileSystem Paths "HOL-Library.State_Monad"
begin

unbundle bit_operations_syntax

text \<open>
  The functions of the packages \<^verbatim>\<open>os\<close>, \<^verbatim>\<open>io\<close> and \<^verbatim>\<open>ioutil\<close> that the code calls, for programs that
  run alone: a state monad over the tree of \<open>FileSystem\<close>. Paths are strings and are resolved as the
  kernel does it, through symbolic links and \<^verbatim>\<open>..\<close>, where at most forty links are followed. Every call
  may also fail for a reason outside of the model; \<open>faults\<close> says which of the calls to come do,
  and how much of the data they have transferred before.
\<close>

record os =
  tree :: node
  cwd :: path
  umask :: nat
  faults :: "(errno \<times> nat) option list"

type_synonym 'a io = "(os, 'a) state"

subsection \<open>Resolution of paths\<close>

text \<open>The position is a directory without links on the way; a last name that does not exist is where a
  new entry would be.\<close>

function walk :: "node \<Rightarrow> bool \<Rightarrow> nat \<Rightarrow> path \<Rightarrow> string list \<Rightarrow> errno + path" where
  "walk t follow n cur [] = Inr cur"
| "walk t follow n cur (x # xs) =
     (if x = dotdot then walk t follow n (butlast cur) xs
      else (case fs_lookup t (cur @ [x]) of
              None \<Rightarrow> if xs = [] then Inr (cur @ [x]) else Inl ENOENT
            | Some (File _ _) \<Rightarrow> if xs = [] then Inr (cur @ [x]) else Inl ENOTDIR
            | Some (Dir _ _) \<Rightarrow> walk t follow n (cur @ [x]) xs
            | Some (Link target) \<Rightarrow>
                if xs = [] \<and> \<not> follow then Inr (cur @ [x])
                else (case n of
                        0 \<Rightarrow> Inl ELOOP
                      | Suc m \<Rightarrow> walk t follow m (if IsAbs target then [] else cur) (path_comps target @ xs))))"
  by pat_completeness auto
termination
  by (relation "measures [\<lambda>(t, follow, n, cur, xs). n, \<lambda>(t, follow, n, cur, xs). length xs]") auto

definition max_links :: nat where "max_links = 40"

definition namei :: "bool \<Rightarrow> string \<Rightarrow> os \<Rightarrow> errno + path" where
  "namei follow p s =
     (if p = [] then Inl ENOENT
      else walk (tree s) follow max_links (if IsAbs p then [] else cwd s) (path_comps p))"

subsection \<open>Calls\<close>

text \<open>A call takes the next fault, and otherwise has its effect or fails without any.\<close>

definition os_call :: "(os \<Rightarrow> errno + 'a \<times> node) \<Rightarrow> (errno + 'a) io" where
  "os_call f = State (\<lambda>s.
     case faults s of
       Some (e, k) # fs \<Rightarrow> (Inl e, s\<lparr>faults := fs\<rparr>)
     | _ \<Rightarrow> (case f s of
               Inl e \<Rightarrow> (Inl e, s\<lparr>faults := tl (faults s)\<rparr>)
             | Inr (a, t) \<Rightarrow> (Inr a, s\<lparr>tree := t, faults := tl (faults s)\<rparr>)))"

definition read_call :: "bool \<Rightarrow> string \<Rightarrow> (path \<Rightarrow> node \<Rightarrow> errno + 'a) \<Rightarrow> (errno + 'a) io" where
  "read_call follow p f =
     os_call (\<lambda>s. sum_bind (namei follow p s) (\<lambda>q. map_sum id (\<lambda>a. (a, tree s)) (f q (tree s))))"

definition write_call :: "bool \<Rightarrow> string \<Rightarrow> (path \<Rightarrow> os \<Rightarrow> errno + node) \<Rightarrow> (errno + unit) io" where
  "write_call follow p f =
     os_call (\<lambda>s. sum_bind (namei follow p s) (\<lambda>q. map_sum id (\<lambda>t. ((), t)) (f q s)))"

definition masked :: "nat \<Rightarrow> nat \<Rightarrow> nat" where
  "masked mode um = mode - (mode AND um)"

text \<open>The permission bits of a mode.\<close>

definition Perm :: "nat \<Rightarrow> nat" where
  "Perm mode = mode AND 511"

definition sys_Lstat :: "string \<Rightarrow> (errno + node) io" where
  "sys_Lstat p = read_call False p os_Lstat"

definition sys_Stat :: "string \<Rightarrow> (errno + node) io" where
  "sys_Stat p = read_call True p os_Lstat"

definition sys_Readlink :: "string \<Rightarrow> (errno + string) io" where
  "sys_Readlink p = read_call False p (\<lambda>q t.
     sum_bind (os_Lstat q t) (\<lambda>n. case n of Link target \<Rightarrow> Inr target | _ \<Rightarrow> Inl EINVAL))"

definition sys_Mkdir :: "string \<Rightarrow> nat \<Rightarrow> (errno + unit) io" where
  "sys_Mkdir p mode = write_call False p (\<lambda>q s. os_Mkdir q (masked mode (umask s)) (tree s))"

definition sys_Symlink :: "string \<Rightarrow> string \<Rightarrow> (errno + unit) io" where
  "sys_Symlink target p = write_call False p (\<lambda>q s.
     if target = [] then Inl ENOENT
     else if fs_lookup (tree s) q \<noteq> None then Inl EEXIST
     else Inr (fs_put q (Link target) (tree s)))"

fun set_mode :: "nat \<Rightarrow> node \<Rightarrow> node" where
  "set_mode m (File c _) = File c m"
| "set_mode m (Dir _ es) = Dir m es"
| "set_mode m (Link t) = Link t"

definition sys_Chmod :: "string \<Rightarrow> nat \<Rightarrow> (errno + unit) io" where
  "sys_Chmod p mode = write_call True p (\<lambda>q s.
     map_sum id (\<lambda>n. fs_put q (set_mode mode n) (tree s)) (os_Lstat q (tree s)))"

text \<open>\<^verbatim>\<open>Remove\<close> removes a file, a link or an empty directory.\<close>

definition sys_Remove :: "string \<Rightarrow> (errno + unit) io" where
  "sys_Remove p = write_call False p (\<lambda>q s.
     sum_bind (os_Lstat q (tree s)) (\<lambda>n.
       if q = [] then Inl EINVAL
       else case n of Dir _ (e # es) \<Rightarrow> Inl ENOTEMPTY | _ \<Rightarrow> Inr (fs_del q (tree s))))"

text \<open>\<^verbatim>\<open>RemoveAll\<close> of what is not there is no error. When it fails nothing has been removed here.\<close>

definition sys_RemoveAll :: "string \<Rightarrow> (errno + unit) io" where
  "sys_RemoveAll p = os_call (\<lambda>s.
     case namei False p s of
       Inl e \<Rightarrow> if e = ENOENT \<or> e = ENOTDIR then Inr ((), tree s) else Inl e
     | Inr q \<Rightarrow> if q = [] then Inl EINVAL else Inr ((), fs_del q (tree s)))"

definition sys_Rename :: "string \<Rightarrow> string \<Rightarrow> (errno + unit) io" where
  "sys_Rename p p' = write_call False p (\<lambda>q s. sum_bind (namei False p' s) (\<lambda>q'. os_Rename q q' (tree s)))"

text \<open>An open file is the place of its node. \<^verbatim>\<open>O_CREATE|O_TRUNC\<close> follows a link, \<^verbatim>\<open>O_CREATE|O_EXCL\<close>
  does not.\<close>

type_synonym handle = path

definition sys_Open :: "string \<Rightarrow> (errno + handle) io" where
  "sys_Open p = read_call True p (\<lambda>q t. map_sum id (\<lambda>_. q) (os_Lstat q t))"

definition sys_Create :: "string \<Rightarrow> nat \<Rightarrow> (errno + handle) io" where
  "sys_Create p mode = os_call (\<lambda>s. sum_bind (namei True p s) (\<lambda>q.
     map_sum id (\<lambda>t. (q, t)) (os_WriteFile q [] (masked mode (umask s)) (tree s))))"

definition sys_CreateExcl :: "string \<Rightarrow> nat \<Rightarrow> (errno + handle) io" where
  "sys_CreateExcl p mode = os_call (\<lambda>s. sum_bind (namei False p s) (\<lambda>q.
     if fs_lookup (tree s) q \<noteq> None then Inl EEXIST
     else Inr (q, fs_put q (File [] (masked mode (umask s))) (tree s))))"

definition fs_append :: "path \<Rightarrow> string \<Rightarrow> node \<Rightarrow> node" where
  "fs_append q d t =
     (case fs_lookup t q of Some (File c m) \<Rightarrow> fs_put q (File (c @ d) m) t | _ \<Rightarrow> t)"

text \<open>Writing goes to the end of an open file; a failing write may have written a part.\<close>

definition sys_Write :: "handle \<Rightarrow> string \<Rightarrow> (errno + unit) io" where
  "sys_Write h d = State (\<lambda>s.
     case faults s of
       Some (e, k) # fs \<Rightarrow> (Inl e, s\<lparr>tree := fs_append h (take k d) (tree s), faults := fs\<rparr>)
     | _ \<Rightarrow> (Inr (), s\<lparr>tree := fs_append h d (tree s), faults := tl (faults s)\<rparr>))"

text \<open>Reading gives the data, and the error when there is one.\<close>

definition sys_ReadAll :: "handle \<Rightarrow> (string \<times> errno option) io" where
  "sys_ReadAll h = State (\<lambda>s.
     let d = (case fs_lookup (tree s) h of
                Some (File c _) \<Rightarrow> (c, None) | Some (Dir _ _) \<Rightarrow> ([], Some EISDIR) | _ \<Rightarrow> ([], Some EINVAL)) in
     case faults s of
       Some (e, k) # fs \<Rightarrow> ((take k (fst d), Some e), s\<lparr>faults := fs\<rparr>)
     | _ \<Rightarrow> (d, s\<lparr>faults := tl (faults s)\<rparr>))"

text \<open>\<^verbatim>\<open>io.Copy\<close> writes what it has read before it returns the error of a read.\<close>

definition io_Copy_data :: "handle \<Rightarrow> string \<times> errno option \<Rightarrow> (errno + unit) io" where
  "io_Copy_data dst r =
     do {
       w \<leftarrow> sys_Write dst (fst r);
       State_Monad.return (case w of Inl e \<Rightarrow> Inl e | Inr _ \<Rightarrow> (case snd r of Some e \<Rightarrow> Inl e | None \<Rightarrow> Inr ()))
     }"

definition io_Copy :: "handle \<Rightarrow> handle \<Rightarrow> (errno + unit) io" where
  "io_Copy dst src = do { r \<leftarrow> sys_ReadAll src; io_Copy_data dst r }"

text \<open>The names of a directory when it is opened; \<^verbatim>\<open>Readdirnames\<close> returns the next hundred of them,
  and the end of the list when there are none left.\<close>

definition dir_names :: "handle \<Rightarrow> string list io" where
  "dir_names h = State (\<lambda>s. (case fs_lookup (tree s) h of Some (Dir _ es) \<Rightarrow> map fst es | _ \<Rightarrow> [], s))"

datatype read_end = MoreNames | EndOfNames | ReadError errno

definition sys_Readdirnames :: "string list \<Rightarrow> (string list \<times> read_end) io" where
  "sys_Readdirnames names = State (\<lambda>s.
     case faults s of
       Some (e, k) # fs \<Rightarrow> ((take (min k 100) names, ReadError e), s\<lparr>faults := fs\<rparr>)
     | _ \<Rightarrow> ((take 100 names, if names = [] then EndOfNames else MoreNames), s\<lparr>faults := tl (faults s)\<rparr>))"

text \<open>\<^verbatim>\<open>MkdirAll\<close>: the parent first, by the path up to the slash before the last name.\<close>

definition mkdirall_parent :: "string \<Rightarrow> string option" where
  "mkdirall_parent p =
     (let r = dropWhile (\<lambda>c. c \<noteq> slash) (dropWhile (\<lambda>c. c = slash) (rev p)) in
      if length r > 1 then Some (rev (tl r)) else None)"

lemma mkdirall_parent_shorter: "mkdirall_parent p = Some q \<Longrightarrow> length q < length p"
proof -
  assume q: "mkdirall_parent p = Some q"
  let ?r = "dropWhile (\<lambda>c. c \<noteq> slash) (dropWhile (\<lambda>c. c = slash) (rev p))"
  have "length ?r \<le> length p"
    by (metis length_dropWhile_le length_rev order_trans)
  moreover have "length q = length ?r - 1" "length ?r > 1"
    using q by (auto simp: mkdirall_parent_def Let_def split: if_splits)
  ultimately show ?thesis by linarith
qed

function os_MkdirAll_at :: "string \<Rightarrow> nat \<Rightarrow> (errno + unit) io" where
  "os_MkdirAll_at p perm =
     do {
       r \<leftarrow> sys_Stat p;
       (case r of
          Inr n \<Rightarrow> State_Monad.return (if is_dir (Some n) then Inr () else Inl ENOTDIR)
        | Inl _ \<Rightarrow>
            do {
              e \<leftarrow> (case mkdirall_parent p of
                     Some q \<Rightarrow> os_MkdirAll_at q perm
                   | None \<Rightarrow> State_Monad.return (Inr ()));
              (case e of
                 Inl e \<Rightarrow> State_Monad.return (Inl e)
               | Inr _ \<Rightarrow>
                   do {
                     m \<leftarrow> sys_Mkdir p perm;
                     (case m of
                        Inr _ \<Rightarrow> State_Monad.return (Inr ())
                      | Inl e \<Rightarrow>
                          do {
                            l \<leftarrow> sys_Lstat p;
                            State_Monad.return
                              (case l of Inr n \<Rightarrow> if is_dir (Some n) then Inr () else Inl e | Inl _ \<Rightarrow> Inl e)
                          })
                   })
            })
     }"
  by pat_completeness auto
termination
  by (relation "measure (\<lambda>(p, perm). length p)") (auto simp: mkdirall_parent_shorter)

declare os_MkdirAll_at.simps [simp del]

subsection \<open>Calls that do not fail\<close>

text \<open>The calls of a program without faults, at paths whose directories exist.\<close>

definition dirs_to :: "node \<Rightarrow> path \<Rightarrow> bool" where
  "dirs_to t p \<longleftrightarrow> (\<forall>q. strict_prefix q p \<longrightarrow> is_dir (fs_lookup t q))"

definition names_path :: "string \<Rightarrow> path \<Rightarrow> bool" where
  "names_path p ps \<longleftrightarrow> IsAbs p \<and> path_comps p = ps \<and> list_all is_name ps"

lemma walk_dirs_to:
  assumes "list_all is_name xs" "\<forall>q. strict_prefix q xs \<longrightarrow> is_dir (fs_lookup t (cur @ q))"
    "\<not> follow \<or> \<not> is_link (fs_lookup t (cur @ xs))"
  shows "walk t follow n cur xs = Inr (cur @ xs)"
  using assms
proof (induction xs arbitrary: cur)
  case (Cons x xs)
  have x: "x \<noteq> dotdot" using Cons.prems(1) by (simp add: is_name_def)
  show ?case
  proof (cases "xs = []")
    case True
    then show ?thesis
      using x Cons.prems(3) by (auto split: option.split node.split)
  next
    case False
    then have "is_dir (fs_lookup t (cur @ [x]))"
      using Cons.prems(2) by (auto simp: strict_prefix_def)
    moreover have "walk t follow n (cur @ [x]) xs = Inr ((cur @ [x]) @ xs)"
    proof (rule Cons.IH)
      show "\<forall>q. strict_prefix q xs \<longrightarrow> is_dir (fs_lookup t ((cur @ [x]) @ q))"
        using Cons.prems(2) by (metis append.assoc append_Cons append_Nil strict_prefix_simps(3))
    qed (use Cons.prems in auto)
    ultimately show ?thesis
      using x by (auto split: option.split node.split)
  qed
qed simp

lemma namei_dirs_to:
  assumes "names_path p ps" "dirs_to (tree s) ps" "\<not> follow \<or> \<not> is_link (fs_lookup (tree s) ps)"
  shows "namei follow p s = Inr ps"
  using walk_dirs_to[of ps "tree s" "[]" follow max_links] assms
  by (auto simp: namei_def names_path_def dirs_to_def IsAbs_def)

lemma run_os_call:
  assumes "faults s = []"
  shows "run_state (os_call f) s = (case f s of Inl e \<Rightarrow> (Inl e, s) | Inr (a, t) \<Rightarrow> (Inr a, s\<lparr>tree := t\<rparr>))"
proof -
  have "s\<lparr>faults := []\<rparr> = s" "s\<lparr>tree := t, faults := []\<rparr> = s\<lparr>tree := t\<rparr>" for t
    using assms by simp_all
  then show ?thesis using assms by (simp add: os_call_def split: sum.split)
qed

text \<open>The effect of a call that succeeds, whatever else may fail; one that fails has none.\<close>

lemma os_call_Inr:
  "run_state (os_call f) s = (Inr a, s') \<Longrightarrow> \<exists>t. f s = Inr (a, t) \<and> tree s' = t \<and> umask s' = umask s"
  by (auto simp: os_call_def split: list.splits option.splits sum.splits)

lemma os_call_Inl: "run_state (os_call f) s = (Inl e, s') \<Longrightarrow> tree s' = tree s \<and> umask s' = umask s"
  by (auto simp: os_call_def split: list.splits option.splits sum.splits)

lemma run_Lstat:
  assumes "faults s = []" "names_path p ps" "dirs_to (tree s) ps"
  shows "run_state (sys_Lstat p) s = (os_Lstat ps (tree s), s)"
  using namei_dirs_to[OF assms(2,3), of False]
  by (cases "os_Lstat ps (tree s)") (simp_all add: sys_Lstat_def read_call_def run_os_call[OF assms(1)])

lemma run_Open:
  assumes "faults s = []" "names_path p ps" "dirs_to (tree s) ps" "fs_lookup (tree s) ps = Some n" "\<not> is_link (Some n)"
  shows "run_state (sys_Open p) s = (Inr ps, s)"
  using namei_dirs_to[OF assms(2,3), of True] assms(4,5)
  by (simp add: sys_Open_def read_call_def run_os_call[OF assms(1)] os_Lstat_def)

lemma run_Readlink:
  assumes "faults s = []" "names_path p ps" "dirs_to (tree s) ps" "fs_lookup (tree s) ps = Some (Link target)"
  shows "run_state (sys_Readlink p) s = (Inr target, s)"
  using namei_dirs_to[OF assms(2,3), of False] assms(4)
  by (simp add: sys_Readlink_def read_call_def run_os_call[OF assms(1)] os_Lstat_def)

lemma dirs_to_parent: "dirs_to t ps \<Longrightarrow> ps \<noteq> [] \<Longrightarrow> is_dir (fs_lookup t (butlast ps))"
  by (cases ps rule: rev_cases) (simp_all add: dirs_to_def)

lemma run_Mkdir:
  assumes "faults s = []" "names_path p ps" "dirs_to (tree s) ps" "fs_lookup (tree s) ps = None"
  shows "run_state (sys_Mkdir p mode) s = (Inr (), s\<lparr>tree := fs_put ps (Dir (masked mode (umask s)) []) (tree s)\<rparr>)"
proof -
  have "ps \<noteq> []" using assms(4) by auto
  then show ?thesis
    using namei_dirs_to[OF assms(2,3), of False] assms(4) dirs_to_parent[OF assms(3)]
    by (simp add: sys_Mkdir_def write_call_def run_os_call[OF assms(1)] os_Mkdir_def)
qed

lemma run_Symlink:
  assumes "faults s = []" "names_path p ps" "dirs_to (tree s) ps" "fs_lookup (tree s) ps = None" "target \<noteq> []"
  shows "run_state (sys_Symlink target p) s = (Inr (), s\<lparr>tree := fs_put ps (Link target) (tree s)\<rparr>)"
  using namei_dirs_to[OF assms(2,3), of False] assms(4,5)
  by (simp add: sys_Symlink_def write_call_def run_os_call[OF assms(1)])

lemma run_Create:
  assumes "faults s = []" "names_path p ps" "dirs_to (tree s) ps" "fs_lookup (tree s) ps = None"
  shows "run_state (sys_Create p mode) s = (Inr ps, s\<lparr>tree := fs_put ps (File [] (masked mode (umask s))) (tree s)\<rparr>)"
proof -
  have "ps \<noteq> []" using assms(4) by auto
  then show ?thesis
    using namei_dirs_to[OF assms(2,3), of True] assms(4) dirs_to_parent[OF assms(3)]
    by (simp add: sys_Create_def run_os_call[OF assms(1)] os_WriteFile_def)
qed

lemma run_Chmod:
  assumes "faults s = []" "names_path p ps" "dirs_to (tree s) ps" "fs_lookup (tree s) ps = Some n" "\<not> is_link (Some n)"
  shows "run_state (sys_Chmod p mode) s = (Inr (), s\<lparr>tree := fs_put ps (set_mode mode n) (tree s)\<rparr>)"
  using namei_dirs_to[OF assms(2,3), of True] assms(4,5)
  by (simp add: sys_Chmod_def write_call_def run_os_call[OF assms(1)] os_Lstat_def)

lemma run_io_Copy:
  assumes "faults s = []" "fs_lookup (tree s) src = Some (File c m)"
  shows "run_state (io_Copy dst src) s = (Inr (), s\<lparr>tree := fs_append dst c (tree s)\<rparr>)"
proof -
  have "s\<lparr>faults := []\<rparr> = s" "s\<lparr>tree := t, faults := []\<rparr> = s\<lparr>tree := t\<rparr>" for t
    using assms(1) by simp_all
  then show ?thesis using assms by (simp add: io_Copy_def io_Copy_data_def sys_ReadAll_def sys_Write_def Let_def)
qed

lemma run_Readdirnames:
  "faults s = [] \<Longrightarrow>
   run_state (sys_Readdirnames names) s = ((take 100 names, if names = [] then EndOfNames else MoreNames), s)"
  by (simp add: sys_Readdirnames_def)

lemma run_dir_names:
  "fs_lookup (tree s) h = Some (Dir m es) \<Longrightarrow> run_state (dir_names h) s = (map fst es, s)"
  by (simp add: dir_names_def)

text \<open>Paths of entries.\<close>

lemma names_path_Join:
  assumes "names_path p ps" "is_name x"
  shows "names_path (path_Join [p, x]) (ps @ [x])"
proof -
  have "path_comps x = [x]"
    using path_comps_Join_clean[OF clean_list_names[of "[x]" False]] assms(2) by simp
  then have "path_comps (path_Join [p, x]) = ps @ [x]"
    using path_Join_abs[of p x] clean_comps_join_names[of ps "[x]"] assms by (simp add: names_path_def)
  then show ?thesis using path_Join_abs(1)[of p x] assms by (simp add: names_path_def)
qed

lemma dirs_to_snoc: "dirs_to t (ps @ [x]) \<longleftrightarrow> dirs_to t ps \<and> is_dir (fs_lookup t ps)"
proof -
  have "strict_prefix q (ps @ [x]) \<longleftrightarrow> q = ps \<or> strict_prefix q ps" for q
    by (auto simp: strict_prefix_def prefix_snoc dest: prefix_length_le)
  then show ?thesis by (auto simp: dirs_to_def)
qed

subsection \<open>Trees\<close>

text \<open>Well formed trees: the names in a directory are distinct and have no slash.\<close>

fun tree_ok :: "node \<Rightarrow> bool" where
  "tree_ok (Dir m es) \<longleftrightarrow> distinct (map fst es) \<and> list_all (\<lambda>(x, c). is_name x \<and> tree_ok c) es"
| "tree_ok (Link target) \<longleftrightarrow> target \<noteq> []"
| "tree_ok (File _ _) \<longleftrightarrow> True"

fun height :: "node \<Rightarrow> nat" where
  "height (Dir m es) = Suc (foldr max (map (\<lambda>e. height (snd e)) es) 0)"
| "height _ = 0"

lemma height_child: "(x, c) \<in> set es \<Longrightarrow> height c < height (Dir m es)"
proof -
  have "(x, c) \<in> set es \<Longrightarrow> height c \<le> foldr max (map (\<lambda>e. height (snd e)) es) 0"
    by (induction es) (auto simp: le_max_iff_disj)
  moreover assume "(x, c) \<in> set es"
  ultimately show ?thesis by (simp add: less_Suc_eq_le)
qed

lemma lookup_put_parallel: "q \<parallel> D \<Longrightarrow> fs_lookup (fs_put D c t) q = fs_lookup t q"
  by (simp add: fs_lookup_put_other parallel_def)

lemma view_put_new:
  "D \<noteq> [] \<Longrightarrow> dirs_to t D \<Longrightarrow>
   fs_view (fs_put D c t) q = (if prefix D q then fs_view c (drop (length D) q) else fs_view t q)"
  by (simp add: fs_view_put dirs_to_parent)

subsection \<open>Invariants of programs\<close>

text \<open>A program keeps an invariant of the state, and its result has a property. The rules follow the
  structure of the program.\<close>

named_theorems io_rules \<open>introduction rules for programs that keep an invariant\<close>

definition io_ensures :: "(os \<Rightarrow> bool) \<Rightarrow> 'a io \<Rightarrow> ('a \<Rightarrow> bool) \<Rightarrow> bool" where
  "io_ensures I m Q \<longleftrightarrow> (\<forall>s. I s \<longrightarrow> I (snd (run_state m s)) \<and> Q (fst (run_state m s)))"

abbreviation io_keeps :: "(os \<Rightarrow> bool) \<Rightarrow> 'a io \<Rightarrow> bool" where
  "io_keeps I m \<equiv> io_ensures I m (\<lambda>_. True)"

lemma io_ensuresD: "io_ensures I m Q \<Longrightarrow> I s \<Longrightarrow> run_state m s = (a, s') \<Longrightarrow> I s' \<and> Q a"
  by (metis fst_conv io_ensures_def snd_conv)

lemma io_ensures_mono: "io_ensures I m Q' \<Longrightarrow> (\<And>a. Q' a \<Longrightarrow> Q a) \<Longrightarrow> io_ensures I m Q"
  by (auto simp: io_ensures_def)

lemma io_ensures_return [io_rules]: "Q a \<Longrightarrow> io_ensures I (State_Monad.return a) Q"
  by (simp add: io_ensures_def)

lemma io_ensures_bind:
  assumes "io_ensures I m Q'" "\<And>a. Q' a \<Longrightarrow> io_ensures I (f a) Q"
  shows "io_ensures I (State_Monad.bind m f) Q"
  using assms by (fastforce simp: io_ensures_def split: prod.splits)

lemma io_keeps_bind [io_rules]:
  "io_keeps I m \<Longrightarrow> (\<And>a. io_ensures I (f a) Q) \<Longrightarrow> io_ensures I (State_Monad.bind m f) Q"
  by (rule io_ensures_bind)

lemma io_ensures_if [io_rules]:
  "(b \<Longrightarrow> io_ensures I m Q) \<Longrightarrow> (\<not> b \<Longrightarrow> io_ensures I n Q) \<Longrightarrow> io_ensures I (if b then m else n) Q"
  by simp

lemma io_ensures_sum [io_rules]:
  "(\<And>e. r = Inl e \<Longrightarrow> io_ensures I (f e) Q) \<Longrightarrow> (\<And>x. r = Inr x \<Longrightarrow> io_ensures I (g x) Q)
   \<Longrightarrow> io_ensures I (case r of Inl e \<Rightarrow> f e | Inr x \<Rightarrow> g x) Q"
  by (cases r) simp_all

lemma io_ensures_option [io_rules]:
  "(r = None \<Longrightarrow> io_ensures I m Q) \<Longrightarrow> (\<And>x. r = Some x \<Longrightarrow> io_ensures I (g x) Q)
   \<Longrightarrow> io_ensures I (case r of None \<Rightarrow> m | Some x \<Rightarrow> g x) Q"
  by (cases r) simp_all

text \<open>An invariant that does not depend on the faults to come is kept by every call that keeps it when
  it succeeds.\<close>

locale os_invariant =
  fixes I :: "os \<Rightarrow> bool"
  assumes I_faults: "I s \<Longrightarrow> I (s\<lparr>faults := fs\<rparr>)"
begin

lemma ensures_os_call:
  assumes "\<And>s a t. I s \<Longrightarrow> f s = Inr (a, t) \<Longrightarrow> I (s\<lparr>tree := t\<rparr>) \<and> Q (Inr a)" "\<And>e. Q (Inl e)"
  shows "io_ensures I (os_call f) Q"
  unfolding io_ensures_def
proof (intro allI impI)
  fix s
  assume I: "I s"
  have ok: "I (s\<lparr>tree := t, faults := fs\<rparr>) \<and> Q (Inr a)" if "f s = Inr (a, t)" for a t fs
    using assms(1)[OF I that] I_faults by fastforce
  show "I (snd (run_state (os_call f) s)) \<and> Q (fst (run_state (os_call f) s))"
    using ok I_faults[OF I] assms(2) by (auto simp: os_call_def split: list.split option.split sum.split)
qed

lemma keeps_read_call: "io_keeps I (read_call follow p f)"
  unfolding read_call_def
  by (rule ensures_os_call) (auto simp: sum_bind_eq_Inr map_sum_eq_Inr)

lemma keeps_write_call:
  assumes "\<And>s q t. I s \<Longrightarrow> namei follow p s = Inr q \<Longrightarrow> f q s = Inr t \<Longrightarrow> I (s\<lparr>tree := t\<rparr>)"
  shows "io_keeps I (write_call follow p f)"
  unfolding write_call_def
  by (rule ensures_os_call) (auto simp: sum_bind_eq_Inr map_sum_eq_Inr assms)

lemma keeps_Write:
  assumes "\<And>s d. I s \<Longrightarrow> I (s\<lparr>tree := fs_append h d (tree s)\<rparr>)"
  shows "io_keeps I (sys_Write h d)"
proof -
  have "I (s\<lparr>tree := fs_append h d (tree s), faults := fs\<rparr>)" if "I s" for s d fs
    using I_faults[OF assms[OF that]] by simp
  then show ?thesis
    by (auto simp: io_ensures_def sys_Write_def split: list.split option.split)
qed

lemma keeps_io_Copy_data:
  "(\<And>s d. I s \<Longrightarrow> I (s\<lparr>tree := fs_append h d (tree s)\<rparr>)) \<Longrightarrow> io_keeps I (io_Copy_data h r)"
  unfolding io_Copy_data_def by (intro io_rules keeps_Write TrueI)

lemma keeps_ReadAll: "io_keeps I (sys_ReadAll h)"
  by (auto simp: io_ensures_def sys_ReadAll_def Let_def I_faults split: list.split option.split)

lemma keeps_Readdirnames: "io_keeps I (sys_Readdirnames names)"
  by (auto simp: io_ensures_def sys_Readdirnames_def I_faults split: list.split option.split)

lemma keeps_dir_names: "io_keeps I (dir_names h)"
  by (auto simp: io_ensures_def dir_names_def)

lemma keeps_Lstat: "io_keeps I (sys_Lstat p)" and keeps_Stat: "io_keeps I (sys_Stat p)"
  and keeps_Readlink: "io_keeps I (sys_Readlink p)" and keeps_Open: "io_keeps I (sys_Open p)"
  by (simp_all add: sys_Lstat_def sys_Stat_def sys_Readlink_def sys_Open_def keeps_read_call)

lemmas keeps_reads = keeps_Lstat keeps_Stat keeps_Readlink keeps_Open keeps_ReadAll keeps_Readdirnames keeps_dir_names

end

end
