(* ===== verification/Confinement.thy ===== *)
theory Confinement
  imports OsCalls
begin

text \<open>
  Programs that unpack something below a directory \<open>R\<close>: what it means that they change nothing outside
  of it, and the rules for the calls they make. The directory is where its path says, without symbolic
  links on the way and below; directories above it that do not exist may be made.
\<close>

definition no_links :: "path \<Rightarrow> node \<Rightarrow> bool" where
  "no_links R t \<longleftrightarrow> (\<forall>q. \<not> q \<parallel> R \<longrightarrow> \<not> is_link (fs_lookup t q))"

definition confined :: "path \<Rightarrow> os \<Rightarrow> os \<Rightarrow> bool" where
  "confined R s0 s \<longleftrightarrow>
     umask s = umask s0
     \<and> no_links R (tree s)
     \<and> (\<forall>q. \<not> prefix R q \<longrightarrow>
            fs_view (tree s) q = fs_view (tree s0) q
            \<or> prefix q R \<and> fs_view (tree s0) q = None \<and> is_dir (fs_view (tree s) q))"

lemma confined_start: "no_links R (tree s) \<Longrightarrow> confined R s s"
  by (simp add: confined_def)

interpretation conf: os_invariant "confined R s0" for R s0
  by unfold_locales (simp add: confined_def)

text \<open>Confinement to a subdirectory is stronger.\<close>

lemma no_links_below:
  assumes "no_links R t" "prefix R R'"
  shows "no_links R' t"
  unfolding no_links_def
proof (intro allI impI)
  fix q
  assume "\<not> q \<parallel> R'"
  then have "\<not> q \<parallel> R"
    using assms(2) by (metis parallel_def prefix_order.trans prefix_same_cases)
  then show "\<not> is_link (fs_lookup t q)" using assms(1) by (simp add: no_links_def)
qed

text \<open>Paths that lead to \<open>R\<close> or below it.\<close>

definition leads_to :: "path \<Rightarrow> string \<Rightarrow> path \<Rightarrow> bool" where
  "leads_to R p ps \<longleftrightarrow> IsAbs p \<and> path_comps p = ps \<and> dotdot \<notin> set ps \<and> \<not> ps \<parallel> R"

lemma comparable_prefix: "prefix q p \<Longrightarrow> \<not> p \<parallel> R \<Longrightarrow> \<not> q \<parallel> R"
  by (meson parallelE parallelI prefix_order.trans prefix_same_cases)

lemma walk_no_links:
  assumes "no_links R t" "\<not> (cur @ xs) \<parallel> R" "dotdot \<notin> set xs" "walk t follow n cur xs = Inr q"
  shows "q = cur @ xs"
  using assms
proof (induction xs arbitrary: cur)
  case (Cons x xs)
  have "\<not> (cur @ [x]) \<parallel> R"
    by (rule comparable_prefix[OF _ Cons.prems(2)]) simp
  then have "\<not> is_link (fs_lookup t (cur @ [x]))"
    using Cons.prems(1) by (auto simp: no_links_def)
  then show ?case
    using Cons.prems Cons.IH[of "cur @ [x]"] by (auto split: option.splits node.splits if_splits)
qed simp

lemma namei_leads_to:
  "confined R s0 s \<Longrightarrow> leads_to R p ps \<Longrightarrow> namei follow p s = Inr q \<Longrightarrow> q = ps"
  using walk_no_links[of R "tree s" "[]" ps follow max_links q]
  by (auto simp: confined_def leads_to_def namei_def split: if_splits)

text \<open>The root of an unpacked archive, and places below it.\<close>

definition root_ok :: "string \<Rightarrow> bool" where
  "root_ok root \<longleftrightarrow> IsAbs root \<and> path_Clean root = root"

lemma root_names: "root_ok root \<Longrightarrow> list_all is_name (path_comps root)"
  using path_comps_Clean_clean[of root] by (simp add: root_ok_def clean_list_rooted)

lemma leads_to_below:
  assumes "root_ok root" "list_all is_name (path_comps q)"
  shows "path_comps (path_Join [root, q]) = path_comps root @ path_comps q"
    "leads_to (path_comps root) (path_Join [root, q]) (path_comps root @ path_comps q)"
proof -
  have "IsAbs root" using assms(1) by (simp add: root_ok_def)
  then show c: "path_comps (path_Join [root, q]) = path_comps root @ path_comps q"
    using path_Join_abs[of root q] clean_comps_join_names[OF root_names[OF assms(1)] assms(2)] by simp
  show "leads_to (path_comps root) (path_Join [root, q]) (path_comps root @ path_comps q)"
    using c path_Join_abs(1)[OF \<open>IsAbs root\<close>] root_names[OF assms(1)] assms(2)
    by (auto simp: leads_to_def list_all_iff is_name_def parallel_def)
qed

subsection \<open>Calls at such paths\<close>

definition linkless :: "node \<Rightarrow> bool" where
  "linkless n \<longleftrightarrow> (\<forall>q. \<not> is_link (fs_lookup n q))"

lemma linkless_leaf: "linkless (File c m)" "linkless (Dir m [])"
  unfolding linkless_def by (auto elim: fs_lookup.elims simp: fs_lookup.simps split: list.splits)
    (case_tac q; simp)+

lemma fs_lookup_set_mode: "q \<noteq> [] \<Longrightarrow> fs_lookup (set_mode m n) q = fs_lookup n q"
  by (cases q; cases n) auto

lemma linkless_set_mode: "linkless n \<Longrightarrow> linkless (set_mode m n)"
  unfolding linkless_def
proof
  fix q
  assume "\<forall>q. \<not> is_link (fs_lookup n q)"
  then show "\<not> is_link (fs_lookup (set_mode m n) q)"
    using fs_lookup_set_mode[of q m n] by (cases "q = []"; cases n) (auto dest: spec[of _ "[]"])
qed

lemma confined_put:
  assumes "confined R s0 s" "prefix R q" "linkless c"
  shows "confined R s0 (s\<lparr>tree := fs_put q c (tree s)\<rparr>)"
proof -
  have "\<not> is_link (fs_view (fs_put q c (tree s)) p)" if "\<not> p \<parallel> R" for p
    using fs_view_put_cases[of q c "tree s" p] assms that
    by (auto simp: confined_def no_links_def linkless_def simp del: is_link_view) (simp_all add: is_link_view)
  moreover have "fs_view (fs_put q c (tree s)) p = fs_view (tree s) p" if "\<not> prefix R p" for p
    using fs_view_put_cases[of q c "tree s" p] assms(2) that prefix_order.trans by blast
  ultimately show ?thesis
    using assms(1) by (simp add: confined_def no_links_def)
qed

lemma confined_del:
  assumes "confined R s0 s" "prefix R q" "q \<noteq> []"
  shows "confined R s0 (s\<lparr>tree := fs_del q (tree s)\<rparr>)"
proof -
  have view: "fs_view (fs_del q (tree s)) p = (if prefix q p then None else fs_view (tree s) p)" for p
    using assms(3) by (rule fs_view_del)
  then have "\<not> is_link (fs_view (fs_del q (tree s)) p)" if "\<not> p \<parallel> R" for p
    using assms that by (simp add: confined_def no_links_def)
  moreover have "fs_view (fs_del q (tree s)) p = fs_view (tree s) p" if "\<not> prefix R p" for p
    using view[of p] assms(2) that prefix_order.trans by auto
  ultimately show ?thesis
    using assms(1) by (simp add: confined_def no_links_def)
qed

lemma confined_mkdir:
  assumes "confined R s0 s" "\<not> q \<parallel> R" "os_Mkdir q m (tree s) = Inr t"
  shows "confined R s0 (s\<lparr>tree := t\<rparr>)"
proof -
  have t: "t = fs_put q (Dir m []) (tree s)" and new: "fs_lookup (tree s) q = None"
    and parent: "is_dir (fs_lookup (tree s) (butlast q))"
    using assms(3) by (auto simp: os_Mkdir_def split: if_splits)
  have "q \<noteq> []" using new by auto
  have view: "fs_view t p = (if p = q then Some (Dir m []) else fs_view (tree s) p)" for p
  proof (cases "prefix q p")
    case True
    then obtain r where "p = q @ r" by (auto simp: prefix_def)
    then show ?thesis
      using fs_view_put[OF \<open>q \<noteq> []\<close> parent] new fs_view_below_None[of "tree s" q r]
      by (cases r) (auto simp: t)
  qed (auto simp: t fs_view_put[OF \<open>q \<noteq> []\<close> parent])
  then have "no_links R t"
    using assms(1) by (simp add: confined_def no_links_def flip: is_link_view)
  moreover have "fs_view (tree s0) q = None" "prefix q R" if "\<not> prefix R q"
  proof -
    have "fs_view (tree s) q = None" using new by simp
    then show "fs_view (tree s0) q = None" using assms(1) that by (metis confined_def)
    show "prefix q R" using assms(2) that by (auto simp: parallel_def)
  qed
  ultimately show ?thesis
    using assms(1) view by (auto simp: confined_def)
qed

lemma keeps_Mkdir: "leads_to R p ps \<Longrightarrow> io_keeps (confined R s0) (sys_Mkdir p mode)"
  unfolding sys_Mkdir_def
  by (rule conf.keeps_write_call) (metis confined_mkdir leads_to_def namei_leads_to)

lemma keeps_RemoveAll: "leads_to R p ps \<Longrightarrow> prefix R ps \<Longrightarrow> io_keeps (confined R s0) (sys_RemoveAll p)"
  unfolding sys_RemoveAll_def
  by (rule conf.ensures_os_call)
    (auto dest: namei_leads_to intro: confined_del split: sum.splits if_splits)

lemma keeps_CreateExcl:
  assumes "leads_to R p ps" "prefix R ps"
  shows "io_ensures (confined R s0) (sys_CreateExcl p mode) (\<lambda>r. \<forall>h. r = Inr h \<longrightarrow> prefix R h)"
  unfolding sys_CreateExcl_def
  using assms by (intro conf.ensures_os_call)
    (auto simp: sum_bind_eq_Inr dest!: namei_leads_to intro!: confined_put linkless_leaf split: if_splits)

lemma keeps_Create:
  assumes "leads_to R p ps" "prefix R ps"
  shows "io_ensures (confined R s0) (sys_Create p mode) (\<lambda>r. \<forall>h. r = Inr h \<longrightarrow> prefix R h)"
  unfolding sys_Create_def
  using assms by (intro conf.ensures_os_call)
    (auto simp: sum_bind_eq_Inr map_sum_eq_Inr os_WriteFile_def dest!: namei_leads_to
      intro!: confined_put linkless_leaf split: option.splits node.splits if_splits)

lemma confined_linkless: "confined R s0 s \<Longrightarrow> prefix R q \<Longrightarrow> fs_lookup (tree s) q = Some n \<Longrightarrow> linkless n"
proof -
  assume *: "confined R s0 s" "prefix R q" "fs_lookup (tree s) q = Some n"
  have "\<not> is_link (fs_lookup (tree s) (q @ r))" for r
    using *(1,2) by (auto simp: confined_def no_links_def parallel_def)
  then show ?thesis
    using *(3) by (simp add: linkless_def fs_lookup_append)
qed

lemma keeps_Chmod: "leads_to R p ps \<Longrightarrow> prefix R ps \<Longrightarrow> io_keeps (confined R s0) (sys_Chmod p mode)"
  unfolding sys_Chmod_def
proof (rule conf.keeps_write_call)
  fix s q t
  assume "leads_to R p ps" "prefix R ps" and s: "confined R s0 s" and "namei True p s = Inr q"
    and t: "map_sum id (\<lambda>n. fs_put q (set_mode mode n) (tree s)) (os_Lstat q (tree s)) = Inr t"
  then have q: "prefix R q" using namei_leads_to by blast
  from t obtain n where "fs_lookup (tree s) q = Some n" "t = fs_put q (set_mode mode n) (tree s)"
    by (auto simp: map_sum_eq_Inr os_Lstat_def split: option.splits)
  with q s show "confined R s0 (s\<lparr>tree := t\<rparr>)"
    using confined_linkless linkless_set_mode confined_put by auto
qed

lemma keeps_Copy_data: "prefix R h \<Longrightarrow> io_keeps (confined R s0) (io_Copy_data h r)"
  by (rule conf.keeps_io_Copy_data)
    (auto simp: fs_append_def intro!: confined_put linkless_leaf split: option.splits node.splits)

text \<open>\<^verbatim>\<open>MkdirAll\<close> makes directories on the path only.\<close>

lemma mkdirall_parent_comps:
  assumes "mkdirall_parent p = Some q"
  shows "IsAbs q = IsAbs p" "prefix (path_comps q) (path_comps p)"
proof -
  define r where "r = dropWhile (\<lambda>c. c \<noteq> slash) (dropWhile (\<lambda>c. c = slash) (rev p))"
  have q: "q = rev (tl r)" "length r > 1"
    using assms by (auto simp: mkdirall_parent_def Let_def r_def split: if_splits)
  then have "hd r = slash"
    unfolding r_def using hd_dropWhile[of "\<lambda>c. c \<noteq> slash" "dropWhile (\<lambda>c. c = slash) (rev p)"]
    by (metis One_nat_def list.size(3) not_less_zero)
  then have r: "r = slash # rev q"
    using q by (cases r) auto
  have "\<exists>u. rev p = u @ r"
    unfolding r_def by (metis append.assoc takeWhile_dropWhile_id)
  then obtain u where "rev p = u @ slash # rev q"
    using r by auto
  then have p: "p = q @ slash # rev u"
    by (metis rev.simps(2) rev_append rev_rev_ident append_Cons append_Nil append_assoc)
  have "q \<noteq> []" using q r by auto
  then show "IsAbs q = IsAbs p" by (auto simp: p IsAbs_def)
  show "prefix (path_comps q) (path_comps p)" by (simp add: p path_comps_append)
qed

lemma leads_to_parent:
  assumes "leads_to R p ps" "mkdirall_parent p = Some q"
  shows "leads_to R q (path_comps q)"
  using assms mkdirall_parent_comps[OF assms(2)] comparable_prefix
  by (auto simp: leads_to_def dest: set_mono_prefix)

lemma keeps_MkdirAll: "leads_to R p ps \<Longrightarrow> io_keeps (confined R s0) (os_MkdirAll_at p perm)"
proof (induction p perm arbitrary: ps rule: os_MkdirAll_at.induct)
  case (1 p perm)
  have parent: "io_keeps (confined R s0) (os_MkdirAll_at q perm)" if "mkdirall_parent p = Some q" for q
    using 1 that leads_to_parent by blast
  show ?case
    by (subst os_MkdirAll_at.simps)
      (intro io_rules TrueI conf.keeps_reads parent keeps_Mkdir[OF "1.prems"]; assumption)
qed

subsection \<open>Effects of successful calls\<close>

text \<open>The directories on the way to a place that is found exist.\<close>

lemma walk_dirs:
  assumes "no_links R t" "\<not> (cur @ xs) \<parallel> R" "dotdot \<notin> set xs" "walk t follow n cur xs = Inr q"
    "is_dir (fs_lookup t cur)" "xs \<noteq> []"
  shows "is_dir (fs_lookup t (cur @ butlast xs))"
  using assms
proof (induction xs arbitrary: cur)
  case (Cons x xs)
  show ?case
  proof (cases "xs = []")
    case False
    have "\<not> (cur @ [x]) \<parallel> R"
      by (rule comparable_prefix[OF _ Cons.prems(2)]) simp
    then have "\<not> is_link (fs_lookup t (cur @ [x]))"
      using Cons.prems(1) by (auto simp: no_links_def)
    then have "is_dir (fs_lookup t (cur @ [x]))" "walk t follow n (cur @ [x]) xs = Inr q"
      using Cons.prems False by (auto split: option.splits node.splits if_splits)
    then show ?thesis
      using Cons.IH[of "cur @ [x]"] Cons.prems False by simp
  qed (use Cons.prems in simp)
qed simp

lemma namei_parent:
  assumes "confined R s0 s" "leads_to R p ps" "namei follow p s = Inr q" "is_dir (Some (tree s))" "ps \<noteq> []"
  shows "is_dir (fs_lookup (tree s) (butlast ps))"
  using walk_dirs[of R "tree s" "[]" ps follow max_links q] assms
  by (auto simp: confined_def leads_to_def namei_def split: if_splits)

lemma confined_root: "confined R s0 s \<Longrightarrow> R \<noteq> [] \<Longrightarrow> is_dir (Some (tree s0)) \<Longrightarrow> is_dir (Some (tree s))"
proof -
  assume *: "confined R s0 s" "R \<noteq> []" "is_dir (Some (tree s0))"
  then have "fs_view (tree s) [] = fs_view (tree s0) []"
    unfolding confined_def by (metis fs_view_Nil option.distinct(1) prefix_Nil)
  then have "is_dir (fs_view (tree s) []) = is_dir (fs_view (tree s0) [])" by simp
  with *(3) show ?thesis unfolding is_dir_view by simp
qed

lemma CreateExcl_new_file:
  assumes "confined R s0 s" "leads_to R p ps" "is_dir (Some (tree s))"
    "run_state (sys_CreateExcl p mode) s = (Inr h, s')"
  shows "h = ps" "fs_lookup (tree s') ps = Some (File [] (masked mode (umask s)))"
proof -
  have q: "namei False p s = Inr h" "fs_lookup (tree s) h = None"
    and t: "tree s' = fs_put h (File [] (masked mode (umask s))) (tree s)"
    using os_call_Inr[OF assms(4)[unfolded sys_CreateExcl_def]]
    by (auto simp: sum_bind_eq_Inr split: if_splits)
  show h: "h = ps" using namei_leads_to[OF assms(1,2) q(1)] .
  have "ps \<noteq> []" using q(2) h by auto
  then show "fs_lookup (tree s') ps = Some (File [] (masked mode (umask s)))"
    using namei_parent[OF assms(1,2) q(1) assms(3)] fs_lookup_put_below[of ps "tree s" _ "[]"] by (simp add: t h)
qed

lemma Copy_data_appends:
  assumes "run_state (io_Copy_data h r) s = (Inr u, s')"
  shows "tree s' = fs_append h (fst r) (tree s)" "snd r = None"
  using assms
  by (auto simp: io_Copy_data_def sys_Write_def split: list.splits option.splits prod.splits sum.splits)

lemma append_content:
  assumes "fs_lookup t q = Some (File c m)"
  shows "fs_view (fs_append q d t) q = Some (File (c @ d) m)"
proof (cases q rule: rev_cases)
  case Nil
  then show ?thesis using assms by (simp add: fs_append_def)
next
  case (snoc p x)
  then show ?thesis
    using fs_view_put[of q t "File (c @ d) m" q] fs_lookup_parent[of t p x] assms by (simp add: fs_append_def)
qed

end
