(* ===== verification/Glob.thy ===== *)
theory Glob
  imports Paths
begin

text \<open>
  Shell file name patterns: \<^verbatim>\<open>path.Match\<close> as its documentation defines it. A pattern is parsed
  first, and a malformed one has no parse (\<^verbatim>\<open>ErrBadPattern\<close>).
\<close>

datatype pat = Star | AnyChar | Chr char | ClassOf bool "(char \<times> char) list"

subsection \<open>Parsing\<close>

text \<open>A character of a class, escaped or not; the class has to go on after it.\<close>

definition get_esc :: "string \<Rightarrow> (char \<times> string) option" where
  "get_esc s =
     (case s of
        [] \<Rightarrow> None
      | c # s1 \<Rightarrow>
          if c = CHR ''-'' \<or> c = CHR '']'' then None
          else if c = CHR 0x5C then (case s1 of [] \<Rightarrow> None | d # s2 \<Rightarrow> if s2 = [] then None else Some (d, s2))
          else if s1 = [] then None else Some (c, s1))"

text \<open>The ranges up to the closing bracket; there is at least one. The number bounds the recursion: every
  range takes a character.\<close>

fun parse_ranges :: "nat \<Rightarrow> bool \<Rightarrow> string \<Rightarrow> ((char \<times> char) list \<times> string) option" where
  "parse_ranges 0 first s = None"
| "parse_ranges (Suc n) first s =
     (if s \<noteq> [] \<and> hd s = CHR '']'' \<and> \<not> first then Some ([], tl s)
      else (case get_esc s of
              None \<Rightarrow> None
            | Some (lo, s1) \<Rightarrow>
                if hd s1 = CHR ''-'' then
                  (case get_esc (tl s1) of
                     None \<Rightarrow> None
                   | Some (hi, s2) \<Rightarrow> map_option (apfst (\<lambda>rs. (lo, hi) # rs)) (parse_ranges n False s2))
                else map_option (apfst (\<lambda>rs. (lo, lo) # rs)) (parse_ranges n False s1)))"

fun parse_items :: "nat \<Rightarrow> string \<Rightarrow> pat list option" where
  "parse_items n [] = Some []"
| "parse_items 0 (c # s) = None"
| "parse_items (Suc n) (c # s) =
     (if c = CHR ''*'' then map_option ((#) Star) (parse_items n s)
      else if c = CHR ''?'' then map_option ((#) AnyChar) (parse_items n s)
      else if c = CHR ''['' then
        (let neg = (s \<noteq> [] \<and> hd s = CHR ''^''); t = (if neg then tl s else s) in
         case parse_ranges (Suc (length t)) True t of
           None \<Rightarrow> None
         | Some (rs, s') \<Rightarrow> map_option ((#) (ClassOf neg rs)) (parse_items n s'))
      else if c = CHR 0x5C then
        (case s of [] \<Rightarrow> None | d # s' \<Rightarrow> map_option ((#) (Chr d)) (parse_items n s'))
      else map_option ((#) (Chr c)) (parse_items n s))"

definition parse_pattern :: "string \<Rightarrow> pat list option" where
  "parse_pattern s = parse_items (length s) s"

subsection \<open>Matching\<close>

fun char_matches :: "pat \<Rightarrow> char \<Rightarrow> bool" where
  "char_matches Star c = False"
| "char_matches AnyChar c = (c \<noteq> slash)"
| "char_matches (Chr d) c = (c = d)"
| "char_matches (ClassOf neg rs) c =
     ((\<exists>(lo, hi) \<in> set rs. (of_char lo :: nat) \<le> of_char c \<and> (of_char c :: nat) \<le> of_char hi) \<noteq> neg)"

fun match_items :: "pat list \<Rightarrow> string \<Rightarrow> bool" where
  "match_items [] s = (s = [])"
| "match_items (Star # ps) [] = match_items ps []"
| "match_items (Star # ps) (c # s) = (match_items ps (c # s) \<or> c \<noteq> slash \<and> match_items (Star # ps) s)"
| "match_items (p # ps) [] = False"
| "match_items (p # ps) (c # s) = (char_matches p c \<and> match_items ps s)"

text \<open>No value for a bad pattern.\<close>

definition path_Match :: "string \<Rightarrow> string \<Rightarrow> bool option" where
  "path_Match pattern name = map_option (\<lambda>ps. match_items ps name) (parse_pattern pattern)"

subsection \<open>Properties\<close>

lemma match_Star: "match_items [Star] s \<longleftrightarrow> slash \<notin> set s"
  by (induction s) auto

lemma path_Match_star: "path_Match ''*'' name = Some (slash \<notin> set name)"
  by (simp add: path_Match_def parse_pattern_def match_Star)

text \<open>A star matches any run of characters other than slashes.\<close>

lemma match_Star_append:
  "match_items (Star # ps) s \<longleftrightarrow> (\<exists>a b. s = a @ b \<and> slash \<notin> set a \<and> match_items ps b)"
proof (induction s)
  case (Cons c s)
  show ?case
  proof
    assume "match_items (Star # ps) (c # s)"
    then consider "match_items ps (c # s)" | "c \<noteq> slash" "match_items (Star # ps) s" by auto
    then show "\<exists>a b. c # s = a @ b \<and> slash \<notin> set a \<and> match_items ps b"
    proof cases
      case 1
      then show ?thesis by (intro exI[of _ "[]"] exI[of _ "c # s"]) simp
    next
      case 2
      with Cons.IH obtain a b where "s = a @ b" "slash \<notin> set a" "match_items ps b" by blast
      with 2 show ?thesis by (intro exI[of _ "c # a"] exI[of _ b]) simp
    qed
  next
    assume "\<exists>a b. c # s = a @ b \<and> slash \<notin> set a \<and> match_items ps b"
    then show "match_items (Star # ps) (c # s)"
      using Cons.IH by (elim exE conjE, rename_tac a b, case_tac a) auto
  qed
qed simp

text \<open>A pattern without special characters matches itself only.\<close>

lemma parse_literal:
  assumes "set s \<inter> {CHR ''*'', CHR ''?'', CHR ''['', CHR 0x5C} = {}" "length s \<le> n"
  shows "parse_items n s = Some (map Chr s)"
  using assms
proof (induction s arbitrary: n)
  case (Cons c s)
  then show ?case by (cases n) auto
qed simp

lemma match_literal: "match_items (map Chr p) s \<longleftrightarrow> s = p"
proof (induction p arbitrary: s)
  case (Cons c p)
  then show ?case by (cases s) auto
qed simp

lemma path_Match_literal:
  "set p \<inter> {CHR ''*'', CHR ''?'', CHR ''['', CHR 0x5C} = {} \<Longrightarrow> path_Match p name = Some (name = p)"
  by (simp add: path_Match_def parse_pattern_def parse_literal match_literal)

end
