(* ===== verification/Zip.thy ===== *)
theory Zip
  imports Confinement Glob
begin

text \<open>
  Extraction of zip archives (\<^verbatim>\<open>src/zip/zip.go\<close>) on the file system of \<open>OsCalls\<close>. What the package
  \<^verbatim>\<open>archive/zip\<close> reads from an archive is a list of entries: the name and the mode as
  they are in the archive, the error of opening the entry, and the data with the error of reading them.
\<close>

datatype mode_type = ModeDir | ModeSymlink | ModeRegular | ModeOther

record zip_file =
  zf_name :: string
  zf_type :: mode_type
  zf_perm :: nat
  zf_open :: "errno option"
  zf_data :: "string \<times> errno option"

datatype extract_error =
    OsErr errno
  | UnknownFileType
  | SymlinkAbsolute string
  | SymlinkIncomprehensible string
  | SymlinkOutOfScope string

datatype zip_error =
    BadPattern
  | BadSourceRoot string
  | CannotExtract string extract_error

definition perm_of :: "node \<Rightarrow> nat" where
  "perm_of n = (case n of File _ m \<Rightarrow> m AND 511 | Dir m _ \<Rightarrow> m AND 511 | Link _ \<Rightarrow> 511)"

subsection \<open>Find\<close>

definition Find :: "zip_file list \<Rightarrow> string \<Rightarrow> zip_error + string list" where
  "Find files pattern =
     (case path_Match pattern ''check'' of
        None \<Rightarrow> Inl BadPattern
      | Some _ \<Rightarrow>
          Inr (map (\<lambda>f. path_Clean (zf_name f))
                 (filter (\<lambda>f. path_Match pattern (path_Base (path_Clean (zf_name f))) = Some True) files)))"

definition FindAll :: "zip_file list \<Rightarrow> zip_error + string list" where
  "FindAll files = Find files ''*''"

subsection \<open>Extract\<close>

definition isSanePath :: "string \<Rightarrow> bool" where
  "isSanePath p \<longleftrightarrow> \<not> (p = dotdot \<or> strings_HasPrefix p (dotdot @ [slash]))"

record extractor =
  targetRoot :: string
  sourceRoot :: string

text \<open>No value when the entry is not to be extracted.\<close>

definition targetPath :: "extractor \<Rightarrow> zip_file \<Rightarrow> string option" where
  "targetPath x f =
     (let cleanPath = path_Clean (zf_name f) in
      if cleanPath = sourceRoot x then Some (targetRoot x)
      else if sourceRoot x \<noteq> [] then
        (let mustPrefix = sourceRoot x @ [slash] in
         if \<not> strings_HasPrefix cleanPath mustPrefix then None
         else Some (path_Join [targetRoot x, drop (length mustPrefix) cleanPath]))
      else Some (path_Join [targetRoot x, cleanPath]))"

definition os_result :: "errno + unit \<Rightarrow> extract_error + unit" where
  "os_result r = map_sum OsErr id r"

definition copyTo :: "handle \<Rightarrow> zip_file \<Rightarrow> (errno + unit) io" where
  "copyTo w f =
     (case zf_open f of
        Some e \<Rightarrow> State_Monad.return (Inl e)
      | None \<Rightarrow> io_Copy_data w (zf_data f))"

definition removeAll_then :: "string \<Rightarrow> (extract_error + unit) io \<Rightarrow> (extract_error + unit) io" where
  "removeAll_then p k =
     do {
       r \<leftarrow> sys_RemoveAll p;
       (case r of Inl e \<Rightarrow> State_Monad.return (Inl (OsErr e)) | Inr _ \<Rightarrow> k)
     }"

definition writeDir :: "string \<Rightarrow> nat \<Rightarrow> (extract_error + unit) io" where
  "writeDir p modePerm =
     (let mkdir = do { r \<leftarrow> os_MkdirAll_at p modePerm; State_Monad.return (os_result r) } in
      do {
        l \<leftarrow> sys_Lstat p;
        (case l of
           Inr n \<Rightarrow>
             if is_dir (Some n) then
               (if perm_of n \<noteq> modePerm
                then do { r \<leftarrow> sys_Chmod p modePerm; State_Monad.return (os_result r) }
                else State_Monad.return (Inr ()))
             else removeAll_then p mkdir
         | Inl e \<Rightarrow> if e \<noteq> ENOENT then removeAll_then p mkdir else mkdir)
      })"

text \<open>\<^verbatim>\<open>writeFile\<close> and \<^verbatim>\<open>writeSymlink\<close> first remove what is at the target.\<close>

definition clear_target :: "string \<Rightarrow> (extract_error + unit) io \<Rightarrow> (extract_error + unit) io" where
  "clear_target p k =
     do {
       l \<leftarrow> sys_Lstat p;
       (if l \<noteq> Inl ENOENT then removeAll_then p k else k)
     }"

definition writeFile :: "string \<Rightarrow> zip_file \<Rightarrow> nat \<Rightarrow> (extract_error + unit) io" where
  "writeFile p f modePerm =
     clear_target p
       (do {
          w \<leftarrow> sys_CreateExcl p modePerm;
          (case w of
             Inl e \<Rightarrow> State_Monad.return (Inl (OsErr e))
           | Inr h \<Rightarrow> do { r \<leftarrow> copyTo h f; State_Monad.return (os_result r) })
        })"

text \<open>The data are read into a buffer, which cannot fail.\<close>

definition checkSymlink :: "extractor \<Rightarrow> string \<Rightarrow> zip_file \<Rightarrow> extract_error + string" where
  "checkSymlink x p f =
     (case zf_open f of
        Some e \<Rightarrow> Inl (OsErr e)
      | None \<Rightarrow>
          (case zf_data f of
             (_, Some e) \<Rightarrow> Inl (OsErr e)
           | (symlinkTarget, None) \<Rightarrow>
               if IsAbs symlinkTarget then Inl (SymlinkAbsolute symlinkTarget)
               else (case filepath_Rel (targetRoot x) (path_Join [filepath_Dir p, symlinkTarget]) of
                       None \<Rightarrow> Inl (SymlinkIncomprehensible symlinkTarget)
                     | Some relativePath \<Rightarrow>
                         if \<not> isSanePath relativePath then Inl (SymlinkOutOfScope symlinkTarget)
                         else Inr symlinkTarget)))"

definition writeSymlink :: "extractor \<Rightarrow> string \<Rightarrow> zip_file \<Rightarrow> (extract_error + unit) io" where
  "writeSymlink x p f =
     (case checkSymlink x p f of
        Inl e \<Rightarrow> State_Monad.return (Inl e)
      | Inr symlinkTarget \<Rightarrow>
          clear_target p (do { r \<leftarrow> sys_Symlink symlinkTarget p; State_Monad.return (os_result r) }))"

definition extractor_extract :: "extractor \<Rightarrow> zip_file \<Rightarrow> (extract_error + unit) io" where
  "extractor_extract x f =
     (case targetPath x f of
        None \<Rightarrow> State_Monad.return (Inr ())
      | Some p \<Rightarrow>
          do {
            r \<leftarrow> os_MkdirAll_at (filepath_Dir p) 511;
            (case r of
               Inl e \<Rightarrow> State_Monad.return (Inl (OsErr e))
             | Inr _ \<Rightarrow>
                 (case zf_type f of
                    ModeDir \<Rightarrow> writeDir p (zf_perm f)
                  | ModeSymlink \<Rightarrow> writeSymlink x p f
                  | ModeRegular \<Rightarrow> writeFile p f (zf_perm f)
                  | ModeOther \<Rightarrow> State_Monad.return (Inl UnknownFileType)))
          })"

fun extract_loop :: "extractor \<Rightarrow> zip_file list \<Rightarrow> (zip_error option) io" where
  "extract_loop x [] = State_Monad.return None"
| "extract_loop x (f # fs) =
     do {
       r \<leftarrow> extractor_extract x f;
       (case r of
          Inl e \<Rightarrow> State_Monad.return (Some (CannotExtract (path_Clean (zf_name f)) e))
        | Inr _ \<Rightarrow> extract_loop x fs)
     }"

definition Extract :: "zip_file list \<Rightarrow> string \<Rightarrow> string \<Rightarrow> (zip_error option) io" where
  "Extract files root srcRoot =
     (let srcRoot = path_Clean srcRoot; srcRoot = (if srcRoot = dot then [] else srcRoot) in
      if \<not> isSanePath srcRoot then State_Monad.return (Some (BadSourceRoot srcRoot))
      else extract_loop \<lparr>targetRoot = root, sourceRoot = srcRoot\<rparr> files)"

definition ExtractAll :: "zip_file list \<Rightarrow> string \<Rightarrow> (zip_error option) io" where
  "ExtractAll files root = Extract files root []"

subsection \<open>Names\<close>

lemma Join_dotdot_insane: "\<not> isSanePath (strings_Join [slash] (dotdot # cs))"
  by (cases cs) (simp_all add: isSanePath_def strings_HasPrefix_def)

text \<open>The components of a clean path that is sane are names.\<close>

lemma sane_names:
  assumes "isSanePath (path_Clean p)"
  shows "list_all is_name (path_comps (path_Clean p))"
proof -
  let ?cs = "path_comps (path_Clean p)"
  obtain n xs where cs: "?cs = replicate n dotdot @ xs" "list_all is_name xs" "IsAbs p \<longrightarrow> n = 0"
    using path_comps_Clean_clean[of p] by (auto simp: clean_list_def)
  have "n = 0"
  proof (rule ccontr)
    assume "n \<noteq> 0"
    then have "\<not> IsAbs p" "?cs = dotdot # (replicate (n - 1) dotdot @ xs)"
      using cs by (cases n, auto)+
    then have "path_Clean p = strings_Join [slash] (dotdot # (replicate (n - 1) dotdot @ xs))"
      using path_Clean_rel[of p "dotdot # (replicate (n - 1) dotdot @ xs)"] by simp
    then show False using assms Join_dotdot_insane by metis
  qed
  with cs show ?thesis by simp
qed

text \<open>What is left of a clean path after a sane, clean and nonempty root is made of names.\<close>

lemma rest_names:
  assumes "path_Clean p = path_Clean r @ slash # q" "isSanePath (path_Clean r)" "path_Clean r \<noteq> dot"
  shows "list_all is_name (path_comps q)"
proof -
  have comps: "path_comps (path_Clean p) = path_comps (path_Clean r) @ path_comps q"
    by (simp only: assms(1) path_comps_append)
  have r: "list_all is_name (path_comps (path_Clean r))"
    using assms(2) by (rule sane_names)
  have abs: "IsAbs p = IsAbs r"
  proof -
    have "IsAbs (path_Clean r @ slash # q) = IsAbs (path_Clean r)"
      using path_Clean_not_Nil[of r] by (simp only: IsAbs_def hd_append append_is_Nil_conv if_False simp_thms)
    then show ?thesis using assms(1) by (metis IsAbs_Clean)
  qed
  obtain n xs where cs: "path_comps (path_Clean p) = replicate n dotdot @ xs" "list_all is_name xs" "IsAbs p \<longrightarrow> n = 0"
    using path_comps_Clean_clean[of p] by (auto simp: clean_list_def)
  have "n = 0"
  proof (cases "IsAbs r")
    case False
    then have "path_comps (path_Clean r) \<noteq> []"
      using assms(3) path_Clean_rel by force
    then show ?thesis
      using comps cs r by (cases "path_comps (path_Clean r)"; cases n) (auto simp: is_name_def)
  qed (use abs cs in simp)
  with cs comps show ?thesis by (metis append_self_conv2 list_all_append replicate_0)
qed

text \<open>The entries that may be extracted under a source root: with a root every entry, otherwise those with
  a sane name.\<close>

definition entry_ok :: "string \<Rightarrow> zip_file \<Rightarrow> bool" where
  "entry_ok srcRoot f \<longleftrightarrow> path_Clean srcRoot \<noteq> dot \<or> isSanePath (path_Clean (zf_name f))"

definition source_root :: "string \<Rightarrow> string" where
  "source_root srcRoot = (if path_Clean srcRoot = dot then [] else path_Clean srcRoot)"

lemma targetPath_below:
  assumes "root_ok root" "isSanePath (source_root srcRoot)" "entry_ok srcRoot f"
    and "targetPath \<lparr>targetRoot = root, sourceRoot = source_root srcRoot\<rparr> f = Some p"
  shows "p = root \<or> (\<exists>q. list_all is_name (path_comps q) \<and> p = path_Join [root, q])"
proof -
  let ?c = "path_Clean (zf_name f)"
  consider "p = root" | "source_root srcRoot \<noteq> []" "prefix (source_root srcRoot @ [slash]) ?c"
      "p = path_Join [root, drop (Suc (length (source_root srcRoot))) ?c]"
    | "source_root srcRoot = []" "p = path_Join [root, ?c]"
    using assms(4) by (auto simp: targetPath_def Let_def strings_HasPrefix_def split: if_splits)
  then show ?thesis
  proof cases
    case 2
    then obtain q where q: "?c = path_Clean srcRoot @ slash # q" "path_Clean srcRoot \<noteq> dot"
      by (auto simp: prefix_def source_root_def split: if_splits)
    then have "list_all is_name (path_comps q)"
      using assms(2) rest_names by (simp add: source_root_def)
    then show ?thesis using 2 q by (auto simp: source_root_def)
  next
    case 3
    then have "path_Clean srcRoot = dot" by (auto simp: source_root_def split: if_splits)
    then have "list_all is_name (path_comps ?c)"
      using assms(3) sane_names by (simp add: entry_ok_def)
    then show ?thesis using 3 by blast
  qed simp
qed

lemma targetPath_leads_to:
  assumes "root_ok root" "isSanePath (source_root srcRoot)" "entry_ok srcRoot f"
    and "targetPath \<lparr>targetRoot = root, sourceRoot = source_root srcRoot\<rparr> f = Some p"
  obtains ps where "leads_to (path_comps root) p ps" "prefix (path_comps root) ps"
    "leads_to (path_comps root) (filepath_Dir p) (butlast ps)"
proof -
  have root: "IsAbs root" "path_Clean root = root" "list_all is_name (path_comps root)"
    using assms(1) root_names by (auto simp: root_ok_def)
  have clean: "IsAbs p \<and> path_Clean p = p \<and> (\<exists>xs. path_comps p = path_comps root @ xs \<and> list_all is_name xs)"
    using targetPath_below[OF assms]
  proof (elim disjE exE conjE)
    fix q
    assume "list_all is_name (path_comps q)" "p = path_Join [root, q]"
    moreover have "path_Clean (path_Join [root, q]) = path_Join [root, q]"
      using root(1) by (simp add: path_Join_def IsAbs_def split: list.splits)
    ultimately show ?thesis
      using path_Join_abs(1)[OF root(1)] leads_to_below(1)[OF assms(1)] by blast
  qed (use root in auto)
  then obtain xs where xs: "path_comps p = path_comps root @ xs" "list_all is_name xs" by blast
  have here: "leads_to (path_comps root) p (path_comps p)"
    using clean xs root(3) by (auto simp: leads_to_def list_all_iff is_name_def parallel_def)
  have "path_comps (filepath_Dir p) = butlast (path_comps p)" "IsAbs (filepath_Dir p)"
    using filepath_Dir_comps[of p] clean by auto
  then have "leads_to (path_comps root) (filepath_Dir p) (butlast (path_comps p))"
    using here comparable_prefix[OF prefixeq_butlast] by (auto simp: leads_to_def dest: in_set_butlastD)
  with here xs show ?thesis using that by simp
qed

subsection \<open>Extraction stays below the target root\<close>

lemma keeps_removeAll_then:
  assumes "leads_to R p ps" "prefix R ps" "io_keeps (confined R s0) k"
  shows "io_keeps (confined R s0) (removeAll_then p k)"
  unfolding removeAll_then_def by (intro io_rules TrueI keeps_RemoveAll[OF assms(1,2)] assms(3))

lemma keeps_clear_target:
  assumes "leads_to R p ps" "prefix R ps" "io_keeps (confined R s0) k"
  shows "io_keeps (confined R s0) (clear_target p k)"
  unfolding clear_target_def by (intro io_rules conf.keeps_reads keeps_removeAll_then[OF assms] assms(3))

lemma keeps_writeDir:
  assumes "leads_to R p ps" "prefix R ps"
  shows "io_keeps (confined R s0) (writeDir p m)"
  unfolding writeDir_def Let_def
  by (intro io_rules TrueI conf.keeps_reads keeps_removeAll_then[OF assms] keeps_MkdirAll[OF assms(1)]
      keeps_Chmod[OF assms])

lemma keeps_writeFile:
  assumes "leads_to R p ps" "prefix R ps"
  shows "io_keeps (confined R s0) (writeFile p f m)"
  unfolding writeFile_def copyTo_def
  by (intro keeps_clear_target[OF assms] io_ensures_bind[OF keeps_CreateExcl[OF assms]])
    (intro io_rules TrueI keeps_Copy_data; simp)

lemma keeps_extract:
  assumes "root_ok root" "isSanePath (source_root srcRoot)" "entry_ok srcRoot f" "zf_type f \<noteq> ModeSymlink"
  shows "io_keeps (confined (path_comps root) s0)
    (extractor_extract \<lparr>targetRoot = root, sourceRoot = source_root srcRoot\<rparr> f)"
proof (cases "targetPath \<lparr>targetRoot = root, sourceRoot = source_root srcRoot\<rparr> f")
  case (Some p)
  obtain ps where "leads_to (path_comps root) p ps" "prefix (path_comps root) ps"
    "leads_to (path_comps root) (filepath_Dir p) (butlast ps)"
    using targetPath_leads_to[OF assms(1-3) Some] .
  then show ?thesis
    using assms(4) Some
    by (auto simp: extractor_extract_def split: mode_type.split
        intro!: io_rules keeps_MkdirAll keeps_writeDir keeps_writeFile)
qed (simp add: extractor_extract_def io_rules)

lemma keeps_extract_loop:
  assumes "root_ok root" "isSanePath (source_root srcRoot)"
    "\<forall>f \<in> set files. entry_ok srcRoot f \<and> zf_type f \<noteq> ModeSymlink"
  shows "io_keeps (confined (path_comps root) s0)
    (extract_loop \<lparr>targetRoot = root, sourceRoot = source_root srcRoot\<rparr> files)"
  using assms(3) by (induction files) (auto intro!: io_rules keeps_extract assms)

lemma Extract_source_root:
  "Extract files root srcRoot =
     (if \<not> isSanePath (source_root srcRoot) then State_Monad.return (Some (BadSourceRoot (source_root srcRoot)))
      else extract_loop \<lparr>targetRoot = root, sourceRoot = source_root srcRoot\<rparr> files)"
  by (simp add: Extract_def source_root_def)


subsection \<open>Extraction writes the files\<close>

text \<open>An entry changes nothing but its own place; missing directories above it are made.\<close>

lemma extract_own:
  assumes "leads_to ps p ps" "leads_to ps (filepath_Dir p) (butlast ps)" "targetPath x f = Some p"
    "zf_type f \<noteq> ModeSymlink"
  shows "io_keeps (confined ps s0) (extractor_extract x f)"
  using assms
  by (auto simp: extractor_extract_def split: mode_type.split
      intro!: io_rules keeps_MkdirAll keeps_writeDir keeps_writeFile)

lemma clear_target_then:
  assumes "leads_to R p ps" "prefix R ps" "confined R s0 s" "run_state (clear_target p k) s = (Inr u, s')"
  obtains s1 where "confined R s0 s1" "run_state k s1 = (Inr u, s')"
proof -
  have keeps: "io_keeps (confined R s0) (sys_Lstat p)" "io_keeps (confined R s0) (sys_RemoveAll p)"
    using conf.keeps_Lstat keeps_RemoveAll[OF assms(1,2)] by auto
  obtain l s1 where l: "run_state (sys_Lstat p) s = (l, s1)" by fastforce
  have s1: "confined R s0 s1" using io_ensuresD[OF keeps(1) assms(3) l] by simp
  obtain r s2 where r: "run_state (sys_RemoveAll p) s1 = (r, s2)" by fastforce
  have s2: "confined R s0 s2" using io_ensuresD[OF keeps(2) s1 r] by simp
  show ?thesis
    using assms(4) s1 s2 l r that
    by (auto simp: clear_target_def removeAll_then_def split: if_splits sum.splits)
qed

lemma writeFile_content:
  assumes "leads_to ps p ps" "confined ps s0 s" "is_dir (Some (tree s0))" "ps \<noteq> []"
    "run_state (writeFile p f m) s = (Inr u, s')"
  shows "fs_view (tree s') ps = Some (File (fst (zf_data f)) (masked m (umask s0)))"
proof -
  obtain s1 where s1: "confined ps s0 s1"
    and run: "run_state (do { w \<leftarrow> sys_CreateExcl p m;
       (case w of Inl e \<Rightarrow> State_Monad.return (Inl (OsErr e))
        | Inr h \<Rightarrow> do { r \<leftarrow> copyTo h f; State_Monad.return (os_result r) }) }) s1 = (Inr u, s')"
    using clear_target_then[OF assms(1) _ assms(2) assms(5)[unfolded writeFile_def]] by auto
  obtain w s2 where w: "run_state (sys_CreateExcl p m) s1 = (w, s2)" by fastforce
  then obtain h where h: "w = Inr h" using run by (cases w) auto
  have "umask s1 = umask s0" using s1 by (simp add: confined_def)
  moreover have "is_dir (Some (tree s1))" using confined_root[OF s1 assms(4,3)] .
  ultimately have new: "h = ps" "fs_lookup (tree s2) ps = Some (File [] (masked m (umask s0)))"
    using CreateExcl_new_file[OF s1 assms(1) _ w[unfolded h]] by auto
  obtain r s3 where "run_state (copyTo h f) s2 = (r, s3)" by fastforce
  then have "run_state (copyTo h f) s2 = (Inr (), s')"
    using run w h by (cases r) (auto simp: os_result_def)
  then have "tree s' = fs_append ps (fst (zf_data f)) (tree s2)"
    using Copy_data_appends(1) new(1) by (auto simp: copyTo_def split: option.splits)
  then show ?thesis using append_content[OF new(2)] by simp
qed

lemma extract_content:
  assumes "leads_to ps p ps" "leads_to ps (filepath_Dir p) (butlast ps)" "targetPath x f = Some p"
    "zf_type f = ModeRegular" "no_links ps (tree s)" "is_dir (Some (tree s))" "ps \<noteq> []"
    "run_state (extractor_extract x f) s = (Inr u, s')"
  shows "fs_view (tree s') ps = Some (File (fst (zf_data f)) (masked (zf_perm f) (umask s)))"
proof -
  obtain r s1 where r: "run_state (os_MkdirAll_at (filepath_Dir p) 511) s = (r, s1)" by fastforce
  have "confined ps s s1"
    using io_ensuresD[OF keeps_MkdirAll[OF assms(2)] confined_start[OF assms(5)] r] by simp
  moreover have "run_state (writeFile p f (zf_perm f)) s1 = (Inr u, s')"
    using assms(3,4,8) r by (cases r) (auto simp: extractor_extract_def)
  ultimately show ?thesis using writeFile_content[OF assms(1) _ assms(6,7)] by blast
qed

text \<open>Entries whose places do not contain each other do not disturb each other.\<close>

definition disjoint_targets :: "extractor \<Rightarrow> zip_file \<Rightarrow> zip_file \<Rightarrow> bool" where
  "disjoint_targets x f g \<longleftrightarrow>
     (case (targetPath x f, targetPath x g) of
        (Some p, Some p') \<Rightarrow> \<not> prefix (path_comps p) (path_comps p') \<and> \<not> prefix (path_comps p') (path_comps p)
      | _ \<Rightarrow> True)"

lemma targetPath_own:
  assumes "root_ok root" "isSanePath (source_root srcRoot)" "entry_ok srcRoot f"
    and "targetPath \<lparr>targetRoot = root, sourceRoot = source_root srcRoot\<rparr> f = Some p"
  shows "leads_to (path_comps p) p (path_comps p)"
    "leads_to (path_comps p) (filepath_Dir p) (butlast (path_comps p))"
    "prefix (path_comps root) (path_comps p)"
proof -
  obtain ps where ps: "leads_to (path_comps root) p ps" "prefix (path_comps root) ps"
    "leads_to (path_comps root) (filepath_Dir p) (butlast ps)"
    using targetPath_leads_to[OF assms] .
  then have "ps = path_comps p" by (simp add: leads_to_def)
  with ps show "leads_to (path_comps p) p (path_comps p)" "prefix (path_comps root) (path_comps p)"
    "leads_to (path_comps p) (filepath_Dir p) (butlast (path_comps p))"
    by (auto simp: leads_to_def parallel_def prefixeq_butlast)
qed

lemma extract_preserves:
  assumes "root_ok root" "isSanePath (source_root srcRoot)" "entry_ok srcRoot g" "zf_type g \<noteq> ModeSymlink"
    and "disjoint_targets \<lparr>targetRoot = root, sourceRoot = source_root srcRoot\<rparr> f g"
    and "targetPath \<lparr>targetRoot = root, sourceRoot = source_root srcRoot\<rparr> f = Some p"
    and "no_links (path_comps root) (tree s)"
    and "run_state (extractor_extract \<lparr>targetRoot = root, sourceRoot = source_root srcRoot\<rparr> g) s = (r, s')"
  shows "fs_view (tree s') (path_comps p) = fs_view (tree s) (path_comps p)"
proof (cases "targetPath \<lparr>targetRoot = root, sourceRoot = source_root srcRoot\<rparr> g")
  case None
  then show ?thesis using assms(8) by (simp add: extractor_extract_def)
next
  case (Some p')
  note own = targetPath_own[OF assms(1-3) Some]
  have "confined (path_comps p') s s'"
    using io_ensuresD[OF extract_own[OF own(1,2) Some assms(4)] confined_start[OF no_links_below[OF assms(7) own(3)]]
        assms(8)] by simp
  then show ?thesis
    using assms(5,6) Some unfolding confined_def by (fastforce simp: disjoint_targets_def)
qed

text \<open>The states between the entries of a successful extraction.\<close>

lemma extract_loop_split:
  assumes "root_ok root" "isSanePath (source_root srcRoot)"
    and "\<forall>g \<in> set gs. entry_ok srcRoot g \<and> zf_type g \<noteq> ModeSymlink"
    and "run_state (extract_loop \<lparr>targetRoot = root, sourceRoot = source_root srcRoot\<rparr> (gs @ gs')) s = (None, s')"
    and "confined (path_comps root) s0 s"
  shows "\<exists>s1. confined (path_comps root) s0 s1
    \<and> run_state (extract_loop \<lparr>targetRoot = root, sourceRoot = source_root srcRoot\<rparr> gs') s1 = (None, s')"
  using assms(3-5)
proof (induction gs arbitrary: s)
  case (Cons g gs)
  let ?x = "\<lparr>targetRoot = root, sourceRoot = source_root srcRoot\<rparr>"
  obtain r s1 where r: "run_state (extractor_extract ?x g) s = (r, s1)" by fastforce
  then have "confined (path_comps root) s0 s1"
    using io_ensuresD[OF keeps_extract[OF assms(1,2)] Cons.prems(3) r] Cons.prems(1) by auto
  then show ?case using Cons.prems Cons.IH[of s1] r by (cases r) auto
qed auto

lemma extract_loop_preserves:
  assumes "root_ok root" "isSanePath (source_root srcRoot)"
    and "\<forall>g \<in> set gs. entry_ok srcRoot g \<and> zf_type g \<noteq> ModeSymlink
      \<and> disjoint_targets \<lparr>targetRoot = root, sourceRoot = source_root srcRoot\<rparr> f g"
    and "targetPath \<lparr>targetRoot = root, sourceRoot = source_root srcRoot\<rparr> f = Some p"
    and "run_state (extract_loop \<lparr>targetRoot = root, sourceRoot = source_root srcRoot\<rparr> gs) s = (r, s')"
    and "no_links (path_comps root) (tree s)"
  shows "fs_view (tree s') (path_comps p) = fs_view (tree s) (path_comps p)"
  using assms(3,5,6)
proof (induction gs arbitrary: s)
  case (Cons g gs)
  let ?x = "\<lparr>targetRoot = root, sourceRoot = source_root srcRoot\<rparr>"
  obtain r1 s1 where r1: "run_state (extractor_extract ?x g) s = (r1, s1)" by fastforce
  have "confined (path_comps root) s s1"
    using io_ensuresD[OF keeps_extract[OF assms(1,2)] confined_start[OF Cons.prems(3)] r1] Cons.prems(1) by auto
  then have "no_links (path_comps root) (tree s1)" by (simp add: confined_def)
  moreover have "fs_view (tree s1) (path_comps p) = fs_view (tree s) (path_comps p)"
    using extract_preserves[OF assms(1,2) _ _ _ assms(4) Cons.prems(3) r1] Cons.prems(1) by simp
  ultimately show ?case using Cons.prems(1,2) Cons.IH[of s1] r1 by (cases r1) auto
qed simp


text \<open>A file system with the directory \<^verbatim>\<open>/a/b\<close>, and archives for it.\<close>

definition demo_os :: os where
  "demo_os = \<lparr>tree = Dir 493 [(''a'', Dir 493 [(''b'', Dir 493 [])])], cwd = [], umask = 18, faults = []\<rparr>"

definition demo_entry :: "string \<Rightarrow> mode_type \<Rightarrow> string \<Rightarrow> zip_file" where
  "demo_entry name type data = \<lparr>zf_name = name, zf_type = type, zf_perm = 420, zf_open = None, zf_data = (data, None)\<rparr>"

lemma demo_no_links: "no_links R (tree demo_os)"
proof -
  have "\<not> is_link (fs_lookup (tree demo_os) q)" for q
    by (cases q; cases "tl q"; cases "tl (tl q)") (auto simp: demo_os_def)
  then show ?thesis by (simp add: no_links_def)
qed




subsection \<open>Symbolic links\<close>

lemma drop_common_prefix: "drop_common bs ts = ([], ts') \<Longrightarrow> ts = bs @ ts'"
  by (induction bs ts rule: drop_common.induct) (auto split: if_splits)

lemma Split_comps:
  assumes "IsAbs p" "path_Clean p = p"
  shows "filter (\<lambda>x. x \<noteq> []) (strings_Split slash p) = path_comps p"
proof -
  have clean: "clean_list True (path_comps p)"
    using path_comps_Clean_clean[of p] assms by simp
  have "p = slash # strings_Join [slash] (path_comps p)"
    using path_Clean_abs[OF assms(1)] assms(2) by simp
  then have "strings_Split slash p = [] # strings_Split slash (strings_Join [slash] (path_comps p))"
    by (metis Split_slash_Cons)
  moreover have "filter (\<lambda>x. x \<noteq> []) (strings_Split slash (strings_Join [slash] (path_comps p))) = path_comps p"
    using strings_Split_clean[OF clean] clean_list_no_slash[OF clean]
    by (cases "path_comps p = []") (auto intro: filter_True)
  ultimately show ?thesis by simp
qed

text \<open>A sane relative path leads into the base.\<close>

lemma Rel_sane_prefix:
  assumes "root_ok base" "root_ok targ" "filepath_Rel base targ = Some rel" "isSanePath rel"
  shows "prefix (path_comps base) (path_comps targ)"
proof (cases "base = targ")
  case False
  obtain bs ts where d: "drop_common (path_comps base) (path_comps targ) = (bs, ts)" by fastforce
  have abs: "IsAbs base" "IsAbs targ" "path_Clean base = base" "path_Clean targ = targ"
    using assms(1,2) by (auto simp: root_ok_def)
  then have "base \<noteq> dot" by (auto simp: IsAbs_def dot_def slash_def)
  then have rel: "rel = strings_Join [slash] (replicate (length bs) dotdot @ ts)"
    using assms(3) False abs d Split_comps[of base] Split_comps[of targ]
    by (auto simp: filepath_Rel_def Let_def split: if_splits)
  have "bs = []"
  proof (rule ccontr)
    assume "bs \<noteq> []"
    then have "replicate (length bs) dotdot @ ts = dotdot # (replicate (length bs - 1) dotdot @ ts)"
      by (cases bs) auto
    then show False using rel assms(4) Join_dotdot_insane by metis
  qed
  then show ?thesis using drop_common_prefix d by (metis prefixI)
qed simp

text \<open>A symbolic link that is extracted is relative, and the path it stands for when it is read
  from the directory of its entry is the target root or below it.\<close>

theorem checkSymlink_inside:
  assumes "root_ok (targetRoot x)" "IsAbs p" "path_Clean p = p" "checkSymlink x p f = Inr target"
  shows "\<not> IsAbs target
    \<and> prefix (path_comps (targetRoot x)) (path_comps (path_Join [filepath_Dir p, target]))"
proof -
  let ?final = "path_Join [filepath_Dir p, target]"
  have "IsAbs (filepath_Dir p)" using filepath_Dir_comps(1)[OF assms(2)] assms(3) by simp
  then have "root_ok ?final"
    using path_Join_abs(1) by (auto simp: root_ok_def path_Join_def IsAbs_def split: list.splits)
  moreover obtain rel where "filepath_Rel (targetRoot x) ?final = Some rel" "isSanePath rel" "\<not> IsAbs target"
    using assms(4) by (auto simp: checkSymlink_def split: option.splits prod.splits if_splits)
  ultimately show ?thesis using Rel_sane_prefix[OF assms(1)] by blast
qed

theorem checkSymlink_inside_witness:
  "prefix (path_comps ''/a/b'') (path_comps (path_Join [filepath_Dir ''/a/b/d/l'', ''../e'']))"
proof -
  let ?x = "\<lparr>targetRoot = ''/a/b'', sourceRoot = []\<rparr>"
  have "root_ok (targetRoot ?x)" "IsAbs ''/a/b/d/l''" "path_Clean ''/a/b/d/l'' = ''/a/b/d/l''"
    "checkSymlink ?x ''/a/b/d/l'' (demo_entry ''d/l'' ModeSymlink ''../e'') = Inr ''../e''"
    by code_simp+
  from checkSymlink_inside[OF this] show ?thesis by simp
qed

subsection \<open>Finding entries\<close>

text \<open>\<^verbatim>\<open>FindAll\<close> returns the clean name of every entry in order, except of one whose name is the root
  directory: its base is a slash, which the pattern does not match.\<close>

lemma FindAll_entries:
  "FindAll files = Inr (map (\<lambda>f. path_Clean (zf_name f))
     (filter (\<lambda>f. slash \<notin> set (path_Base (path_Clean (zf_name f)))) files))"
  by (simp add: FindAll_def Find_def path_Match_star)

end
