(* ===== verification/Copy.thy ===== *)
theory Copy
  imports OsCalls
begin

unbundle bit_operations_syntax

text \<open>
  Copying of trees of files (\<^verbatim>\<open>src/fs/copy.go\<close>). \<^verbatim>\<open>Copy\<close> and \<^verbatim>\<open>copyDir\<close> call each other;
  the first argument of \<open>Copy\<close> bounds the nesting of these calls, which is the height of the tree when the
  destination is not in the source. The tree has no devices, pipes and sockets, so that the mode is that of
  a file, a directory or a link.
\<close>

datatype copy_result =
    Copied
  | WillNotOverwrite string
  | Failed errno
  | CannotCopy string string errno
  | ReadingFailed string errno
  | NestedTooDeep

definition result_of :: "errno + unit \<Rightarrow> copy_result" where
  "result_of r = (case r of Inl e \<Rightarrow> Failed e | Inr _ \<Rightarrow> Copied)"

definition copySymLink :: "string \<Rightarrow> string \<Rightarrow> copy_result io" where
  "copySymLink src dst =
     do {
       r \<leftarrow> sys_Readlink src;
       (case r of
          Inl e \<Rightarrow> State_Monad.return (Failed e)
        | Inr target \<Rightarrow> do { w \<leftarrow> sys_Symlink target dst; State_Monad.return (result_of w) })
     }"

definition copyFile :: "string \<Rightarrow> string \<Rightarrow> nat \<Rightarrow> copy_result io" where
  "copyFile src dst mode =
     do {
       o1 \<leftarrow> sys_Open src;
       (case o1 of
          Inl e \<Rightarrow> State_Monad.return (Failed e)
        | Inr srcf \<Rightarrow>
            do {
              o2 \<leftarrow> sys_Create dst (Perm mode);
              (case o2 of
                 Inl e \<Rightarrow> State_Monad.return (Failed e)
               | Inr dstf \<Rightarrow>
                   do {
                     c \<leftarrow> sys_Chmod dst (Perm mode);
                     (case c of
                        Inl e \<Rightarrow> State_Monad.return (Failed e)
                      | Inr _ \<Rightarrow>
                          do {
                            w \<leftarrow> io_Copy dstf srcf;
                            State_Monad.return (case w of Inl e \<Rightarrow> CannotCopy src dst e | Inr _ \<Rightarrow> Copied)
                          })
                   })
            })
     }"

text \<open>The inner loop over the names that were read, and the loop that reads them. The recursive call is
  an argument.\<close>

fun copy_names :: "(string \<Rightarrow> string \<Rightarrow> copy_result io) \<Rightarrow> string \<Rightarrow> string \<Rightarrow> string list \<Rightarrow> copy_result io" where
  "copy_names copy src dst [] = State_Monad.return Copied"
| "copy_names copy src dst (name # names) =
     do {
       r \<leftarrow> copy (path_Join [src, name]) (path_Join [dst, name]);
       (if r = Copied then copy_names copy src dst names else State_Monad.return r)
     }"

function copy_entries :: "(string \<Rightarrow> string \<Rightarrow> copy_result io) \<Rightarrow> string \<Rightarrow> string \<Rightarrow> string list \<Rightarrow> copy_result io" where
  "copy_entries copy src dst names =
     do {
       (batch, err) \<leftarrow> sys_Readdirnames names;
       r \<leftarrow> copy_names copy src dst batch;
       (if r \<noteq> Copied then State_Monad.return r
        else (case err of
                EndOfNames \<Rightarrow> State_Monad.return Copied
              | ReadError e \<Rightarrow> State_Monad.return (ReadingFailed src e)
              | MoreNames \<Rightarrow>
                  if names = [] then State_Monad.return Copied else copy_entries copy src dst (drop 100 names)))
     }"
  by pat_completeness auto
termination
  by (relation "measure (\<lambda>(copy, src, dst, names). length names)") auto

definition dir_mode :: "nat \<Rightarrow> nat" where
  "dir_mode mode = (if mode AND 320 = 0 then mode OR 320 else mode)"

definition copyDir :: "(string \<Rightarrow> string \<Rightarrow> copy_result io) \<Rightarrow> string \<Rightarrow> string \<Rightarrow> nat \<Rightarrow> copy_result io" where
  "copyDir copy src dst mode =
     do {
       o1 \<leftarrow> sys_Open src;
       (case o1 of
          Inl e \<Rightarrow> State_Monad.return (Failed e)
        | Inr srcf \<Rightarrow>
            do {
              names \<leftarrow> dir_names srcf;
              m \<leftarrow> sys_Mkdir dst (Perm (dir_mode mode));
              (case m of
                 Inl e \<Rightarrow> State_Monad.return (Failed e)
               | Inr _ \<Rightarrow>
                   do {
                     r \<leftarrow> copy_entries copy src dst names;
                     (if r \<noteq> Copied then State_Monad.return r
                      else do { c \<leftarrow> sys_Chmod dst (Perm (dir_mode mode)); State_Monad.return (result_of c) })
                   })
            })
     }"

fun Copy :: "nat \<Rightarrow> string \<Rightarrow> string \<Rightarrow> copy_result io" where
  "Copy 0 src dst = State_Monad.return NestedTooDeep"
| "Copy (Suc n) src dst =
     do {
       l \<leftarrow> sys_Lstat src;
       (case l of
          Inl e \<Rightarrow> State_Monad.return (Failed e)
        | Inr srcInfo \<Rightarrow>
            do {
              d \<leftarrow> sys_Lstat dst;
              (case d of
                 Inr _ \<Rightarrow> State_Monad.return (WillNotOverwrite dst)
               | Inl e \<Rightarrow>
                   if e \<noteq> ENOENT then State_Monad.return (Failed e)
                   else (case srcInfo of
                           Link _ \<Rightarrow> copySymLink src dst
                         | Dir mode _ \<Rightarrow> copyDir (Copy n) src dst mode
                         | File _ mode \<Rightarrow> copyFile src dst mode))
            })
     }"

declare copy_entries.simps [simp del]

subsection \<open>What a copy is\<close>

text \<open>The copy of a node: permissions only, and those of directories as \<^verbatim>\<open>copyDir\<close> computes them.\<close>

fun copied_node :: "node \<Rightarrow> node" where
  "copied_node (File c m) = File c (Perm m)"
| "copied_node (Link t) = Link t"
| "copied_node (Dir m es) = Dir (Perm (dir_mode m)) []"

definition is_copy :: "path \<Rightarrow> path \<Rightarrow> node \<Rightarrow> node \<Rightarrow> bool" where
  "is_copy S D t t' \<longleftrightarrow>
     (\<forall>q. fs_view t' q =
        (if prefix D q then map_option copied_node (fs_view t (S @ drop (length D) q)) else fs_view t q))"

text \<open>Between the copies of the entries: the destination has the entries that are done.\<close>

definition partial_copy :: "path \<Rightarrow> path \<Rightarrow> nat \<Rightarrow> string set \<Rightarrow> node \<Rightarrow> node \<Rightarrow> bool" where
  "partial_copy S D m dn t0 t \<longleftrightarrow>
     (\<forall>q. fs_view t q =
        (if prefix D q then
           (case drop (length D) q of
              [] \<Rightarrow> Some (Dir m [])
            | y # r \<Rightarrow> if y \<in> dn then map_option copied_node (fs_view t0 (S @ y # r)) else None)
         else fs_view t0 q))
     \<and> (\<forall>q. q \<parallel> D \<longrightarrow> fs_lookup t q = fs_lookup t0 q)"

definition copy_pre :: "os \<Rightarrow> string \<Rightarrow> path \<Rightarrow> string \<Rightarrow> path \<Rightarrow> node \<Rightarrow> bool" where
  "copy_pre s src S dst D n \<longleftrightarrow>
     faults s = [] \<and> names_path src S \<and> names_path dst D \<and> S \<parallel> D
     \<and> dirs_to (tree s) S \<and> fs_lookup (tree s) S = Some n \<and> tree_ok n
     \<and> dirs_to (tree s) D \<and> fs_lookup (tree s) D = None"

definition copy_post :: "os \<Rightarrow> path \<Rightarrow> path \<Rightarrow> os \<Rightarrow> bool" where
  "copy_post s S D s' \<longleftrightarrow>
     (\<exists>t'. s' = s\<lparr>tree := t'\<rparr> \<and> is_copy S D (tree s) t' \<and> (\<forall>q. q \<parallel> D \<longrightarrow> fs_lookup t' q = fs_lookup (tree s) q))"

text \<open>A leaf that is put at the destination.\<close>

lemma leaf_copy:
  assumes "D \<noteq> []" "dirs_to t D" "fs_lookup t S = Some n" "\<not> is_dir (Some n)"
    and "\<And>q. fs_view t' q = (if prefix D q then fs_view (copied_node n) (drop (length D) q) else fs_view t q)"
  shows "is_copy S D t t'"
  unfolding is_copy_def
proof
  fix q
  show "fs_view t' q =
      (if prefix D q then map_option copied_node (fs_view t (S @ drop (length D) q)) else fs_view t q)"
    using assms fs_view_append[OF assms(3), of "drop (length D) q"]
    by (cases n; cases "drop (length D) q") (auto simp: fs_view_def)
qed

lemma copySymLink_copies:
  assumes "copy_pre s src S dst D (Link target)"
  shows "\<exists>s'. run_state (copySymLink src dst) s = (Copied, s') \<and> copy_post s S D s'"
proof -
  note pre = assms[unfolded copy_pre_def]
  have D: "D \<noteq> []" using pre by auto
  let ?t = "fs_put D (Link target) (tree s)"
  have "run_state (copySymLink src dst) s = (Copied, s\<lparr>tree := ?t\<rparr>)"
    using pre run_Readlink[of s src S target] run_Symlink[of s dst D target]
    by (simp add: copySymLink_def result_of_def)
  moreover have "is_copy S D (tree s) ?t"
    by (rule leaf_copy[where n = "Link target"]) (use pre D view_put_new in auto)
  ultimately show ?thesis
    by (auto simp: copy_post_def lookup_put_parallel)
qed

lemma copyFile_copies:
  assumes "copy_pre s src S dst D (File c mode)"
  shows "\<exists>s'. run_state (copyFile src dst mode) s = (Copied, s') \<and> copy_post s S D s'"
proof -
  note pre = assms[unfolded copy_pre_def]
  have D: "D \<noteq> []" using pre by auto
  let ?m = "Perm mode"
  define t1 where "t1 = fs_put D (File [] (masked ?m (umask s))) (tree s)"
  define t2 where "t2 = fs_put D (File [] ?m) t1"
  define t3 where "t3 = fs_append D c t2"
  have dirs: "dirs_to (fs_put D x t) D" if "dirs_to t D" for x t
    using that is_dir_put_above[of _ D t x] by (auto simp: dirs_to_def)
  have d: "dirs_to (tree s) D" "dirs_to t1 D" "dirs_to t2 D" using pre dirs by (auto simp: t1_def t2_def)
  have at: "fs_lookup (fs_put D x t) D = Some x" if "dirs_to t D" for x t
    using fs_lookup_put_below[OF D dirs_to_parent[OF that D], of x "[]"] by simp
  have l1: "fs_lookup t1 D = Some (File [] (masked ?m (umask s)))" using at[OF d(1)] by (simp add: t1_def)
  have l2: "fs_lookup t2 D = Some (File [] ?m)" using at[OF d(2)] by (simp add: t2_def)
  have t3: "t3 = fs_put D (File c ?m) t2" using l2 by (simp add: t3_def fs_append_def)
  have src: "fs_lookup t2 S = Some (File c mode)"
    using pre lookup_put_parallel[of S D] by (simp add: t1_def t2_def)
  have "run_state (copyFile src dst mode) s = (Copied, s\<lparr>tree := t3\<rparr>)"
    using pre l1 d src run_Open[of s src S "File c mode"] run_Create[of s dst D ?m]
      run_Chmod[of "s\<lparr>tree := t1\<rparr>" dst D "File [] (masked ?m (umask s))" ?m]
      run_io_Copy[of "s\<lparr>tree := t2\<rparr>" S c mode D]
    by (simp add: copyFile_def t1_def[symmetric] t2_def[symmetric] t3_def[symmetric])
  moreover have "is_copy S D (tree s) t3"
  proof (rule leaf_copy[where n = "File c mode"])
    show "fs_view t3 q = (if prefix D q then fs_view (copied_node (File c mode)) (drop (length D) q) else fs_view (tree s) q)" for q
      using view_put_new[OF D d(3), of "File c ?m" q] view_put_new[OF D d(2), of "File [] ?m" q]
        view_put_new[OF D d(1), of "File [] (masked ?m (umask s))" q] by (simp add: t3) (simp add: t2_def t1_def)
  qed (use pre D in auto)
  moreover have "\<forall>q. q \<parallel> D \<longrightarrow> fs_lookup t3 q = fs_lookup (tree s) q"
    by (simp add: t3 lookup_put_parallel) (simp add: t2_def t1_def lookup_put_parallel)
  ultimately show ?thesis by (auto simp: copy_post_def)
qed

subsection \<open>Directories\<close>

lemma parallel_extend: "p \<parallel> q \<Longrightarrow> (p @ r) \<parallel> q"
  using parallel_append[of p q r "[]"] by simp

text \<open>The source and the destination of a directory while its entries are copied.\<close>

definition dir_pre :: "node \<Rightarrow> string \<Rightarrow> path \<Rightarrow> string \<Rightarrow> path \<Rightarrow> nat \<Rightarrow> (string \<times> node) list \<Rightarrow> bool" where
  "dir_pre t0 src S dst D mode es \<longleftrightarrow>
     names_path src S \<and> names_path dst D \<and> S \<parallel> D \<and> dirs_to t0 S \<and> dirs_to t0 D
     \<and> fs_lookup t0 S = Some (Dir mode es) \<and> tree_ok (Dir mode es)"

lemma partial_copy_dirs:
  assumes "partial_copy S D m dn t0 t" "dirs_to t0 p" "\<not> prefix D p"
  shows "dirs_to t p"
  unfolding dirs_to_def
proof (intro allI impI)
  fix q
  assume q: "strict_prefix q p"
  then have "\<not> prefix D q" using assms(3) by (metis prefix_order.trans strict_prefix_def)
  then have "fs_view t q = fs_view t0 q" using assms(1) by (simp add: partial_copy_def)
  then have "is_dir (fs_view t q) = is_dir (fs_view t0 q)" by simp
  then show "is_dir (fs_lookup t q)" using assms(2) q by (auto simp: dirs_to_def)
qed

lemma partial_copy_dst_dirs:
  assumes "partial_copy S D m dn t0 t" "dirs_to t0 D"
  shows "dirs_to t (D @ [x])"
proof -
  have "is_dir (fs_view t q) = is_dir (fs_view t0 q)" if "strict_prefix q D" for q
    using assms(1) that prefix_length_le[of D q] prefix_length_less[of q D] by (auto simp: partial_copy_def)
  then have "dirs_to t D" using assms(2) by (auto simp: dirs_to_def)
  moreover have "fs_view t D = Some (Dir m [])" using assms(1) by (simp add: partial_copy_def)
  then have "is_dir (fs_view t D)" by simp
  ultimately show ?thesis by (simp add: dirs_to_snoc)
qed

lemma entry_pre:
  assumes "dir_pre t0 src S dst D mode es" "partial_copy S D m dn t0 (tree s)" "faults s = []"
    and "(x, c) \<in> set es" "x \<notin> dn"
  shows "copy_pre s (path_Join [src, x]) (S @ [x]) (path_Join [dst, x]) (D @ [x]) c"
proof -
  note pre = assms(1)[unfolded dir_pre_def]
  have c: "is_name x" "tree_ok c" "map_of es x = Some c"
    using pre assms(4) by (auto simp: list_all_iff)
  have par: "(S @ [x]) \<parallel> D" "(S @ [x]) \<parallel> (D @ [x])"
    using pre parallel_extend parallel_append by blast+
  have "fs_lookup t0 (S @ [x]) = Some c" using pre c by (simp add: fs_lookup_append)
  then have src: "fs_lookup (tree s) (S @ [x]) = Some c"
    using assms(2) par by (simp add: partial_copy_def)
  have "\<not> prefix D S" using pre by (simp add: parallel_def)
  then have "dirs_to (tree s) S" using partial_copy_dirs[OF assms(2)] pre by blast
  then have dirs: "dirs_to (tree s) (S @ [x])"
    using src fs_lookup_parent[of "tree s" S x] by (simp add: dirs_to_snoc)
  have "fs_view (tree s) (D @ [x]) = None" using assms(2,5) by (simp add: partial_copy_def)
  then show ?thesis
    using pre c par src dirs assms(3) partial_copy_dst_dirs[OF assms(2)] names_path_Join
    by (simp add: copy_pre_def)
qed

lemma entry_post:
  assumes "S \<parallel> D" "partial_copy S D m dn t0 (tree s)" "copy_post s (S @ [x]) (D @ [x]) s'"
  shows "\<exists>t'. s' = s\<lparr>tree := t'\<rparr> \<and> partial_copy S D m (insert x dn) t0 t'"
proof -
  obtain t' where t': "s' = s\<lparr>tree := t'\<rparr>" and copy: "is_copy (S @ [x]) (D @ [x]) (tree s) t'"
    and frame: "\<forall>q. q \<parallel> (D @ [x]) \<longrightarrow> fs_lookup t' q = fs_lookup (tree s) q"
    using assms(3) by (auto simp: copy_post_def)
  have "fs_view t' q =
      (if prefix D q then
         (case drop (length D) q of
            [] \<Rightarrow> Some (Dir m [])
          | y # r \<Rightarrow> if y \<in> insert x dn then map_option copied_node (fs_view t0 (S @ y # r)) else None)
       else fs_view t0 q)" for q
  proof (cases "prefix (D @ [x]) q")
    case True
    then obtain r where q: "q = D @ x # r" by (auto simp: prefix_def)
    have "(S @ x # r) \<parallel> D" using assms(1) by (rule parallel_extend)
    then have "fs_view (tree s) (S @ x # r) = fs_view t0 (S @ x # r)"
      using assms(2) by (simp add: partial_copy_def fs_view_def)
    then show ?thesis using copy q by (simp add: is_copy_def)
  next
    case False
    then have "drop (length D) q \<noteq> x # r" if "prefix D q" for r
      using that by (auto simp: prefix_def)
    then show ?thesis
      using copy False assms(2) by (auto simp: is_copy_def partial_copy_def split: list.split)
  qed
  moreover have "fs_lookup t' q = fs_lookup t0 q" if "q \<parallel> D" for q
  proof -
    have "q \<parallel> (D @ [x])" using that using parallel_append[of q D "[]" "[x]"] by simp
    then show ?thesis using frame assms(2) that by (simp add: partial_copy_def)
  qed
  ultimately show ?thesis using t' by (auto simp: partial_copy_def)
qed

text \<open>A directory whose entries are all done and whose mode is set is copied.\<close>

lemma copied_dir:
  assumes "fs_lookup t0 S = Some (Dir mode es)" "D \<noteq> []" "dirs_to t D" "fs_lookup t D = Some (Dir m' es')"
    and "partial_copy S D m (fst ` set es) t0 t"
  shows "is_copy S D t0 (fs_put D (Dir (Perm (dir_mode mode)) es') t)"
  unfolding is_copy_def
proof
  fix q
  show "fs_view (fs_put D (Dir (Perm (dir_mode mode)) es') t) q =
      (if prefix D q then map_option copied_node (fs_view t0 (S @ drop (length D) q)) else fs_view t0 q)"
  proof (cases "prefix D q")
    case True
    then obtain r where q: "q = D @ r" by (auto simp: prefix_def)
    have put: "fs_view (fs_put D (Dir (Perm (dir_mode mode)) es') t) q = fs_view (Dir (Perm (dir_mode mode)) es') r"
      using view_put_new[OF assms(2,3)] q by simp
    show ?thesis
    proof (cases r)
      case Nil
      then show ?thesis using put q assms(1) by (simp add: fs_view_def)
    next
      case (Cons y r')
      have "fs_view (Dir (Perm (dir_mode mode)) es') r = fs_view t q"
        using fs_view_append[OF assms(4), of r] q Cons by simp
      moreover have "fs_view t0 (S @ y # r') = None" if "y \<notin> fst ` set es"
        using fs_view_append[OF assms(1), of "y # r'"] that map_of_eq_None_iff[of es y] by simp
      ultimately show ?thesis
        using put assms(5) q Cons by (auto simp: partial_copy_def)
    qed
  next
    case False
    then show ?thesis using view_put_new[OF assms(2,3)] assms(5) by (simp add: partial_copy_def)
  qed
qed

text \<open>What the loops over the entries rely on: the recursive call copies trees of a smaller height.\<close>

locale copier =
  fixes copy :: "string \<Rightarrow> string \<Rightarrow> copy_result io" and n :: nat
  assumes copies: "copy_pre s src S dst D c \<Longrightarrow> height c < n \<Longrightarrow>
    \<exists>s'. run_state (copy src dst) s = (Copied, s') \<and> copy_post s S D s'"
begin

lemma copy_names_copies:
  assumes "dir_pre t0 src S dst D mode es" "height (Dir mode es) \<le> n"
    and "partial_copy S D m dn t0 (tree s)" "faults s = []"
    and "distinct xs" "set xs \<subseteq> fst ` set es" "dn \<inter> set xs = {}"
  shows "\<exists>t'. run_state (copy_names copy src dst xs) s = (Copied, s\<lparr>tree := t'\<rparr>)
    \<and> partial_copy S D m (dn \<union> set xs) t0 t'"
  using assms(3-)
proof (induction xs arbitrary: s dn)
  case Nil
  then show ?case by (intro exI[of _ "tree s"]) simp
next
  case (Cons x xs)
  then obtain c where c: "(x, c) \<in> set es" by force
  have S: "S \<parallel> D" using assms(1) by (simp add: dir_pre_def)
  have "height c < n" using height_child[OF c] assms(2) by (rule less_le_trans)
  then obtain s1 where s1: "run_state (copy (path_Join [src, x]) (path_Join [dst, x])) s = (Copied, s1)"
    "copy_post s (S @ [x]) (D @ [x]) s1"
    using copies[OF entry_pre[OF assms(1) Cons.prems(1,2) c]] Cons.prems by auto
  obtain t1 where t1: "s1 = s\<lparr>tree := t1\<rparr>" "partial_copy S D m (insert x dn) t0 t1"
    using entry_post[OF S Cons.prems(1) s1(2)] by blast
  obtain t' where "run_state (copy_names copy src dst xs) s1 = (Copied, s1\<lparr>tree := t'\<rparr>)"
    "partial_copy S D m (insert x dn \<union> set xs) t0 t'"
    using Cons.IH[of "insert x dn" s1] Cons.prems t1 by auto
  then show ?case using s1(1) t1(1) by auto
qed

lemma copy_entries_copies:
  assumes "dir_pre t0 src S dst D mode es" "height (Dir mode es) \<le> n"
    and "partial_copy S D m dn t0 (tree s)" "faults s = []"
    and "distinct xs" "set xs \<subseteq> fst ` set es" "dn \<inter> set xs = {}"
  shows "\<exists>t'. run_state (copy_entries copy src dst xs) s = (Copied, s\<lparr>tree := t'\<rparr>)
    \<and> partial_copy S D m (dn \<union> set xs) t0 t'"
  using assms(3-)
proof (induction xs arbitrary: s dn rule: measure_induct_rule[of length])
  case (less xs)
  have split: "set xs = set (take 100 xs) \<union> set (drop 100 xs)" "set (take 100 xs) \<inter> set (drop 100 xs) = {}"
    "distinct (take 100 xs)" "distinct (drop 100 xs)"
    using less.prems(3) by (metis append_take_drop_id set_append, metis append_take_drop_id distinct_append)
      (use less.prems(3) in simp_all)
  obtain t1 where t1: "run_state (copy_names copy src dst (take 100 xs)) s = (Copied, s\<lparr>tree := t1\<rparr>)"
    "partial_copy S D m (dn \<union> set (take 100 xs)) t0 t1"
    using copy_names_copies[OF assms(1,2) less.prems(1,2) split(3)] less.prems(4,5) split(1) by blast
  show ?case
  proof (cases "xs = []")
    case True
    then show ?thesis
      using t1 less.prems(2) by (subst copy_entries.simps) (auto simp: run_Readdirnames)
  next
    case False
    then obtain t' where "run_state (copy_entries copy src dst (drop 100 xs)) (s\<lparr>tree := t1\<rparr>) = (Copied, s\<lparr>tree := t'\<rparr>)"
      "partial_copy S D m (dn \<union> set (take 100 xs) \<union> set (drop 100 xs)) t0 t'"
      using less.IH[of "drop 100 xs" "dn \<union> set (take 100 xs)" "s\<lparr>tree := t1\<rparr>"] less.prems t1(2) split by auto
    then show ?thesis
      using t1(1) less.prems(2) False split(1)
      by (subst copy_entries.simps) (auto simp: run_Readdirnames Un_assoc)
  qed
qed

lemma copyDir_copies:
  assumes "copy_pre s src S dst D (Dir mode es)" "height (Dir mode es) \<le> n"
  shows "\<exists>s'. run_state (copyDir copy src dst mode) s = (Copied, s') \<and> copy_post s S D s'"
proof -
  note pre = assms(1)[unfolded copy_pre_def]
  have D: "D \<noteq> []" using pre by auto
  let ?m = "Perm (dir_mode mode)"
  define m1 where "m1 = masked ?m (umask s)"
  define t1 where "t1 = fs_put D (Dir m1 []) (tree s)"
  have "dir_pre (tree s) src S dst D mode es" using pre by (simp add: dir_pre_def)
  moreover have "partial_copy S D m1 {} (tree s) t1"
    using view_put_new[OF D, of "tree s" "Dir m1 []"] pre
    by (auto simp: partial_copy_def t1_def lookup_put_parallel split: list.split)
  ultimately obtain t2 where
    t2: "run_state (copy_entries copy src dst (map fst es)) (s\<lparr>tree := t1\<rparr>) = (Copied, s\<lparr>tree := t2\<rparr>)"
    and part: "partial_copy S D m1 (fst ` set es) (tree s) t2"
    using copy_entries_copies[of "tree s" src S dst D mode es m1 "{}" "s\<lparr>tree := t1\<rparr>" "map fst es"] assms(2) pre
    by auto
  have dirs: "dirs_to t2 D" "is_dir (fs_lookup t2 D)"
    using partial_copy_dst_dirs[OF part] pre by (auto simp: dirs_to_snoc)
  then obtain m' es' where dst: "fs_lookup t2 D = Some (Dir m' es')"
    by (cases "fs_lookup t2 D" rule: is_dir.cases) auto
  define t3 where "t3 = fs_put D (Dir ?m es') t2"
  have "run_state (copyDir copy src dst mode) s = (Copied, s\<lparr>tree := t3\<rparr>)"
    using pre t2 dirs dst run_Open[of s src S "Dir mode es"] run_dir_names[of s S mode es]
      run_Mkdir[of s dst D ?m] run_Chmod[of "s\<lparr>tree := t2\<rparr>" dst D "Dir m' es'" ?m]
    by (simp add: copyDir_def result_of_def m1_def[symmetric] t1_def[symmetric] t3_def[symmetric])
  moreover have "is_copy S D (tree s) t3"
    using copied_dir[OF _ D dirs(1) dst part] pre by (simp add: t3_def)
  moreover have "\<forall>q. q \<parallel> D \<longrightarrow> fs_lookup t3 q = fs_lookup (tree s) q"
    using part by (auto simp: t3_def lookup_put_parallel partial_copy_def)
  ultimately show ?thesis by (auto simp: copy_post_def)
qed

end

lemma Copy_copies:
  "copy_pre s src S dst D c \<Longrightarrow> height c < n \<Longrightarrow>
   \<exists>s'. run_state (Copy n src dst) s = (Copied, s') \<and> copy_post s S D s'"
proof (induction n arbitrary: s src S dst D c)
  case (Suc n)
  have copier: "copier (Copy n) n" by unfold_locales (rule Suc.IH)
  note pre = Suc.prems(1)[unfolded copy_pre_def]
  have D: "fs_errno (tree s) D = ENOENT"
  proof (cases D rule: rev_cases)
    case (snoc D' x)
    then have "is_dir (fs_lookup (tree s) D')" using pre by (simp add: dirs_to_snoc)
    then show ?thesis using pre snoc by (simp add: fs_errno_below_dir)
  qed (use pre in simp)
  have "run_state (Copy (Suc n) src dst) s =
    run_state (case c of Link _ \<Rightarrow> copySymLink src dst | Dir mode _ \<Rightarrow> copyDir (Copy n) src dst mode
      | File _ mode \<Rightarrow> copyFile src dst mode) s"
    using pre D run_Lstat[of s src S] run_Lstat[of s dst D] by (simp add: os_Lstat_def)
  moreover have "\<exists>s'. run_state (case c of Link _ \<Rightarrow> copySymLink src dst | Dir mode _ \<Rightarrow> copyDir (Copy n) src dst mode
      | File _ mode \<Rightarrow> copyFile src dst mode) s = (Copied, s') \<and> copy_post s S D s'"
    using Suc.prems copySymLink_copies copyFile_copies copier.copyDir_copies[OF copier] by (cases c) simp_all
  ultimately show ?case by simp
qed simp

interpretation tree_copier: copier "Copy n" n for n
  by unfold_locales (rule Copy_copies)


text \<open>A tree with a file, a link and a directory that nobody may read.\<close>

definition demo_source :: node where
  "demo_source = Dir 493 [(''f'', File ''data'' 420), (''l'', Link ''f''), (''d'', Dir 0 [])]"

definition copy_os :: os where
  "copy_os = \<lparr>tree = Dir 493 [(''src'', demo_source)], cwd = [], umask = 18, faults = []\<rparr>"

lemma copy_os_ok: "dirs_to (tree copy_os) [x]"
  by (auto simp: dirs_to_def copy_os_def strict_prefix_def prefix_Cons)


text \<open>The copy of a directory that its owner may neither read nor enter: the permissions that were added so
  that it can be filled stay.\<close>

lemma copied_mode_differs: "copied_node (Dir 0 es) = Dir 320 []" "copied_node (Dir 128 es) = Dir 448 []"
  by (simp_all add: dir_mode_def Perm_def)

end
