(* ===== verification/FileUtils.thy ===== *)
theory FileUtils
  imports Confinement UUID
begin

text \<open>
  Files and home directories (\<^verbatim>\<open>src/file.go\<close>, \<^verbatim>\<open>src/file_unix.go\<close>, \<^verbatim>\<open>src/home_unix.go\<close>) and the
  replacement of symbolic links (\<^verbatim>\<open>src/symlink\<close>), on the file system of \<open>OsCalls\<close>. The random
  part of the names of temporary files is an argument: the list of the names that are tried.
\<close>

subsection \<open>Home directories\<close>

definition Home :: "env \<Rightarrow> string" where
  "Home env = os_Getenv env ''HOME''"

definition SetHome :: "string \<Rightarrow> env \<Rightarrow> errno option \<times> env" where
  "SetHome s env = (if setenv_ok ''HOME'' s then None else Some EINVAL, os_Setenv ''HOME'' s env)"

text \<open>The users of the system are an argument; no value is an unknown user.\<close>

definition homeDir :: "(string \<Rightarrow> string option) \<Rightarrow> string \<Rightarrow> string option" where
  "homeDir users userName = users userName"

definition UserHomeDir :: "env \<Rightarrow> (string \<Rightarrow> string option) \<Rightarrow> string \<Rightarrow> string option" where
  "UserHomeDir env users userName = (if userName = [] then Some (Home env) else homeDir users userName)"

text \<open>A match of \<^verbatim>\<open>userHomePathRegexp\<close>: the user up to a slash, the path up to the end of the line, and
  what follows the match.\<close>

record home_match =
  m_user :: string
  m_path :: string
  m_rest :: string

definition userHomePathRegexp :: "string \<Rightarrow> home_match option" where
  "userHomePathRegexp dir =
     (case dir of
        [] \<Rightarrow> None
      | c # s \<Rightarrow>
          if c \<noteq> CHR ''~'' then None
          else let r = dropWhile (\<lambda>c. c \<noteq> slash) s in
            Some \<lparr>m_user = takeWhile (\<lambda>c. c \<noteq> slash) s,
                  m_path = takeWhile (\<lambda>c. c \<noteq> CHR 0x0A) r, m_rest = dropWhile (\<lambda>c. c \<noteq> CHR 0x0A) r\<rparr>)"

text \<open>The templates of \<^verbatim>\<open>ReplaceAllString\<close>: \<^verbatim>\<open>$name\<close>, \<^verbatim>\<open>${name}\<close> and \<^verbatim>\<open>$$\<close>.\<close>

definition word_char :: "char \<Rightarrow> bool" where
  "word_char c \<longleftrightarrow>
     (let n = of_char c :: nat in 48 \<le> n \<and> n \<le> 57 \<or> 65 \<le> n \<and> n \<le> 90 \<or> n = 95 \<or> 97 \<le> n \<and> n \<le> 122)"

definition extract_name :: "string \<Rightarrow> (string \<times> string) option" where
  "extract_name s =
     (let brace = (s \<noteq> [] \<and> hd s = CHR 0x7B); s1 = (if brace then tl s else s);
          name = takeWhile word_char s1; rest = dropWhile word_char s1 in
      if name = [] then None
      else if brace then (if rest \<noteq> [] \<and> hd rest = CHR 0x7D then Some (name, tl rest) else None)
      else Some (name, rest))"

definition home_group :: "home_match \<Rightarrow> string \<Rightarrow> string" where
  "home_group m name =
     (if name = ''0'' then CHR ''~'' # m_user m @ m_path m
      else if name = ''1'' then CHR ''~'' # m_user m
      else if name = ''2'' \<or> name = ''user'' then m_user m
      else if name = ''3'' \<or> name = ''path'' then m_path m
      else [])"

lemma extract_name_shorter: "extract_name s = Some (name, rest) \<Longrightarrow> length rest < length s"
proof -
  assume e: "extract_name s = Some (name, rest)"
  have short: "takeWhile word_char u \<noteq> [] \<Longrightarrow> length (dropWhile word_char u) < length u" for u
    by (cases u) (auto simp: less_Suc_eq_le length_dropWhile_le split: if_splits)
  show ?thesis
    using e short[of s] short[of "tl s"]
    by (cases s) (auto simp: extract_name_def Let_def split: if_splits)
qed

function expand_home :: "home_match \<Rightarrow> string \<Rightarrow> string" where
  "expand_home m [] = []"
| "expand_home m (c # s) =
     (if c \<noteq> CHR ''$'' then c # expand_home m s
      else if s \<noteq> [] \<and> hd s = CHR ''$'' then CHR ''$'' # expand_home m (tl s)
      else (case extract_name s of
              None \<Rightarrow> CHR ''$'' # expand_home m s
            | Some (name, rest) \<Rightarrow> home_group m name @ expand_home m rest))"
  by pat_completeness auto
termination
  by (relation "measure (\<lambda>(m, s). length s)") (auto dest: extract_name_shorter simp: less_Suc_eq)

definition ReplaceAllString :: "string \<Rightarrow> string \<Rightarrow> string" where
  "ReplaceAllString dir template =
     (case userHomePathRegexp dir of None \<Rightarrow> dir | Some m \<Rightarrow> expand_home m template @ m_rest m)"

definition NormalizePath :: "env \<Rightarrow> (string \<Rightarrow> string option) \<Rightarrow> string \<Rightarrow> string option" where
  "NormalizePath env users dir =
     (if userHomePathRegexp dir \<noteq> None then
        (case UserHomeDir env users (ReplaceAllString dir ''$user'') of
           None \<Rightarrow> None
         | Some userHomeDir \<Rightarrow> Some (path_Clean (ReplaceAllString dir (userHomeDir @ ''$path''))))
      else Some (path_Clean dir))"

definition JoinServerPath :: "string list \<Rightarrow> string" where
  "JoinServerPath elem = path_Join elem"

definition MakeFileURL :: "string \<Rightarrow> string" where
  "MakeFileURL input = (if strings_HasPrefix input ''/'' then ''file://'' @ input else input)"

subsection \<open>UniqueDirectory\<close>

text \<open>The loop has no bound; the number of turns it may take is the first argument, and no result is that
  it has taken them all.\<close>

fun unique_loop :: "nat \<Rightarrow> string \<Rightarrow> string \<Rightarrow> nat \<Rightarrow> (errno + string) option io" where
  "unique_loop 0 p name i = State_Monad.return None"
| "unique_loop (Suc n) p name i =
     do {
       let dir = path_Join [p, name @ ''.'' @ decimal i];
       r \<leftarrow> sys_Stat dir;
       (case r of
          Inl e \<Rightarrow> State_Monad.return (Some (if e = ENOENT then Inr dir else Inl e))
        | Inr _ \<Rightarrow> unique_loop n p name (Suc i))
     }"

definition UniqueDirectory :: "nat \<Rightarrow> string \<Rightarrow> string \<Rightarrow> (errno + string) option io" where
  "UniqueDirectory n p name =
     do {
       let dir = path_Join [p, name];
       r \<leftarrow> sys_Stat dir;
       (if r = Inl ENOENT then State_Monad.return (Some (Inr dir)) else unique_loop n p name 1)
     }"

subsection \<open>Writing files\<close>

definition CopyFile :: "string \<Rightarrow> string \<Rightarrow> (errno + unit) io" where
  "CopyFile dest source =
     do {
       d \<leftarrow> sys_Create dest 438;
       (case d of
          Inl e \<Rightarrow> State_Monad.return (Inl e)
        | Inr df \<Rightarrow>
            do {
              s \<leftarrow> sys_Open source;
              (case s of
                 Inl e \<Rightarrow> State_Monad.return (Inl e)
               | Inr f \<Rightarrow> io_Copy df f)
            })
     }"

definition ReplaceFile :: "string \<Rightarrow> string \<Rightarrow> (errno + unit) io" where
  "ReplaceFile source destination = sys_Rename source destination"

text \<open>\<^verbatim>\<open>ioutil.TempFile\<close>: the first of the names that is not taken, in the directory for temporary files when
  no directory is given.\<close>

fun temp_file :: "string \<Rightarrow> string \<Rightarrow> string list \<Rightarrow> (errno + string \<times> handle) io" where
  "temp_file dir pre [] = State_Monad.return (Inl EEXIST)"
| "temp_file dir pre (r # rs) =
     do {
       let name = path_Join [dir, pre @ r];
       f \<leftarrow> sys_CreateExcl name 384;
       (case f of
          Inr h \<Rightarrow> State_Monad.return (Inr (name, h))
        | Inl e \<Rightarrow> if e = EEXIST then temp_file dir pre rs else State_Monad.return (Inl e))
     }"

definition TempFile :: "string \<Rightarrow> string list \<Rightarrow> string \<Rightarrow> string \<Rightarrow> (errno + string \<times> handle) io" where
  "TempFile tempDir rs dir pre = temp_file (if dir = [] then tempDir else dir) pre rs"

datatype write_error =
    CannotCreateTemp errno
  | CannotWrite string errno
  | ChangeFailed errno
  | CannotReplace string string errno

text \<open>What is done between the creation of the temporary file and the deferred functions.\<close>

definition write_and_replace ::
  "string \<Rightarrow> handle \<Rightarrow> string \<Rightarrow> string \<Rightarrow> (string \<Rightarrow> handle \<Rightarrow> (errno + unit) io) \<Rightarrow> (write_error option) io" where
  "write_and_replace name h filename contents change =
     do {
       w \<leftarrow> sys_Write h contents;
       (case w of
          Inl e \<Rightarrow> State_Monad.return (Some (CannotWrite filename e))
        | Inr _ \<Rightarrow>
            do {
              c \<leftarrow> change name h;
              (case c of
                 Inl e \<Rightarrow> State_Monad.return (Some (ChangeFailed e))
               | Inr _ \<Rightarrow>
                   do {
                     r \<leftarrow> ReplaceFile name filename;
                     State_Monad.return
                       (case r of Inl e \<Rightarrow> Some (CannotReplace name filename e) | Inr _ \<Rightarrow> None)
                   })
            })
     }"

definition AtomicWriteFileAndChange ::
  "string \<Rightarrow> string list \<Rightarrow> string \<Rightarrow> string \<Rightarrow> (string \<Rightarrow> handle \<Rightarrow> (errno + unit) io) \<Rightarrow> (write_error option) io" where
  "AtomicWriteFileAndChange tempDir rs filename contents change =
     do {
       let (dir, base) = filepath_Split filename;
       f \<leftarrow> TempFile tempDir rs dir base;
       (case f of
          Inl e \<Rightarrow> State_Monad.return (Some (CannotCreateTemp e))
        | Inr (name, h) \<Rightarrow>
            do {
              err \<leftarrow> write_and_replace name h filename contents change;
              (case err of
                 None \<Rightarrow> State_Monad.return None
               | Some e \<Rightarrow> do { _ \<leftarrow> sys_Remove name; State_Monad.return (Some e) })
            })
     }"

definition AtomicWriteFile :: "string \<Rightarrow> string list \<Rightarrow> string \<Rightarrow> string \<Rightarrow> nat \<Rightarrow> (write_error option) io" where
  "AtomicWriteFile tempDir rs filename contents perms =
     AtomicWriteFileAndChange tempDir rs filename contents (\<lambda>name h. sys_Chmod name perms)"

subsection \<open>Symbolic links\<close>

definition symlink_New :: "string \<Rightarrow> string \<Rightarrow> (errno + unit) io" where
  "symlink_New oldname newname = sys_Symlink oldname newname"

definition symlink_Read :: "string \<Rightarrow> (errno + string) io" where
  "symlink_Read link = sys_Readlink link"

datatype link_error = NoUUID uuid_error | CannotCreateSymlink errno | CannotRemove errno | CannotUpdate errno

text \<open>The new link is made under a name with a fresh UUID, whose random bytes are an argument.\<close>

definition replace_link :: "string \<Rightarrow> string \<Rightarrow> string \<Rightarrow> (link_error option) io" where
  "replace_link uuid link newpath =
     do {
       let tmpFile = path_Join [filepath_Dir link, ''tmpfile'' @ uuid];
       n \<leftarrow> symlink_New newpath tmpFile;
       (case n of
          Inl e \<Rightarrow> State_Monad.return (Some (CannotCreateSymlink e))
        | Inr _ \<Rightarrow>
            do {
              st \<leftarrow> sys_Stat link;
              rm \<leftarrow> (case st of Inr _ \<Rightarrow> sys_RemoveAll link | Inl _ \<Rightarrow> State_Monad.return (Inr ()));
              (case rm of
                 Inl e \<Rightarrow> State_Monad.return (Some (CannotRemove e))
               | Inr _ \<Rightarrow>
                   do {
                     r \<leftarrow> sys_Rename tmpFile link;
                     State_Monad.return (case r of Inl e \<Rightarrow> Some (CannotUpdate e) | Inr _ \<Rightarrow> None)
                   })
            })
     }"

definition symlink_Replace :: "uuid_error + 8 word list \<Rightarrow> string \<Rightarrow> string \<Rightarrow> (link_error option) io" where
  "symlink_Replace rand link newpath =
     (case NewUUID rand of
        Inl e \<Rightarrow> State_Monad.return (Some (NoUUID e))
      | Inr uuid \<Rightarrow> replace_link (UUID_String uuid) link newpath)"

subsection \<open>Home directories are expanded\<close>

lemma expand_no_dollar: "CHR ''$'' \<notin> set h \<Longrightarrow> expand_home m (h @ t) = h @ expand_home m t"
  by (induction h) auto

lemma expand_groups: "expand_home m ''$user'' = m_user m" "expand_home m ''$path'' = m_path m"
  by (simp_all add: extract_name_def word_char_def home_group_def Let_def)

declare expand_home.simps [simp del]

text \<open>A path that starts with a tilde is expanded to the home directory of the user that is named, or
  of the current one, followed by the rest of the path, and cleaned; other paths are only
  cleaned. The home directory is to have no dollar sign and the path no newline.\<close>

theorem NormalizePath_expands:
  assumes "slash \<notin> set user" "p = [] \<or> hd p = slash" "CHR 0x0A \<notin> set p"
    and "\<forall>home. UserHomeDir env users user = Some home \<longrightarrow> CHR ''$'' \<notin> set home"
  shows "NormalizePath env users (CHR ''~'' # user @ p)
      = map_option (\<lambda>home. path_Clean (home @ p)) (UserHomeDir env users user)"
proof -
  have "takeWhile (\<lambda>c. c \<noteq> slash) (user @ p) = user" "dropWhile (\<lambda>c. c \<noteq> slash) (user @ p) = p"
    using assms(1,2) by (auto simp: takeWhile_append dropWhile_append) (cases p; auto)+
  moreover have "takeWhile (\<lambda>c. c \<noteq> CHR 0x0A) p = p" "dropWhile (\<lambda>c. c \<noteq> CHR 0x0A) p = []"
    using assms(3) by (auto simp: takeWhile_eq_all_conv dropWhile_eq_Nil_conv)
  ultimately have "userHomePathRegexp (CHR ''~'' # user @ p) = Some \<lparr>m_user = user, m_path = p, m_rest = []\<rparr>"
    by (simp add: userHomePathRegexp_def Let_def)
  then show ?thesis
    using assms(4) expand_no_dollar
    by (auto simp: NormalizePath_def ReplaceAllString_def expand_groups split: option.split)
qed

theorem NormalizePath_expands_witness:
  "NormalizePath [''HOME'' \<mapsto> ''/home/me''] Map.empty ''~/a/../b'' = Some ''/home/me/b''"
proof -
  have "UserHomeDir [''HOME'' \<mapsto> ''/home/me''] Map.empty [] = Some ''/home/me''"
    by (simp add: UserHomeDir_def Home_def os_Getenv_def)
  moreover have "path_Clean (''/home/me'' @ ''/a/../b'') = ''/home/me/b''" by code_simp
  moreover have "hd ''/a/../b'' = slash" "slash \<notin> set []" "CHR 0x0A \<notin> set ''/a/../b''"
    "CHR ''$'' \<notin> set ''/home/me''" by (simp_all add: slash_def)
  ultimately show ?thesis
    using NormalizePath_expands[of "[]" "''/a/../b''" "[''HOME'' \<mapsto> ''/home/me'']" Map.empty] by simp
qed

text \<open>A dollar sign in a home directory is read as part of the template.\<close>

lemma NormalizePath_dollar: "NormalizePath [''HOME'' \<mapsto> ''/home/$me''] Map.empty ''~/a'' = Some ''/home/a''"
  by code_simp

subsection \<open>UniqueDirectory finds a name\<close>

lemma numbered_name:
  assumes "is_name name"
  shows "is_name (name @ ''.'' @ decimal i)"
proof -
  have "slash \<notin> set (decimal i)" using decimal_digits[of i] by (auto simp: slash_def)
  moreover have "length (name @ ''.'' @ decimal i) > 2"
    using assms decimal_not_Nil[of i] by (cases name; cases "decimal i") (auto simp: is_name_def)
  then have "name @ ''.'' @ decimal i \<noteq> dot" "name @ ''.'' @ decimal i \<noteq> dotdot"
    by (auto simp: dot_def dotdot_def simp del: append.simps dest!: arg_cong[of _ _ length])
  ultimately show ?thesis
    using assms by (auto simp: is_name_def slash_def)
qed

text \<open>What \<^verbatim>\<open>Stat\<close> says about the entries of a directory without links.\<close>

definition plain_dir :: "os \<Rightarrow> string \<Rightarrow> path \<Rightarrow> (string \<times> node) list \<Rightarrow> bool" where
  "plain_dir s p ps es \<longleftrightarrow>
     faults s = [] \<and> names_path p ps \<and> dirs_to (tree s) ps \<and> (\<exists>m. fs_lookup (tree s) ps = Some (Dir m es))
     \<and> (\<forall>(x, c) \<in> set es. \<not> is_link (Some c))"

lemma run_Stat_entry:
  assumes "plain_dir s p ps es" "is_name x"
  shows "\<exists>r. run_state (sys_Stat (path_Join [p, x])) s = (r, s) \<and> (r = Inl ENOENT \<longleftrightarrow> x \<notin> fst ` set es)
     \<and> (x \<in> fst ` set es \<longrightarrow> (\<exists>n. r = Inr n))"
proof -
  obtain m where *: "fs_lookup (tree s) ps = Some (Dir m es)" "names_path p ps" "dirs_to (tree s) ps" "faults s = []"
    using assms(1) by (auto simp: plain_dir_def)
  have look: "fs_lookup (tree s) (ps @ [x]) = map_of es x" using *(1) by (simp add: fs_lookup_append split: option.split)
  then have "\<not> is_link (fs_lookup (tree s) (ps @ [x]))"
    using assms(1) by (cases "map_of es x") (auto simp: plain_dir_def dest!: map_of_SomeD)
  then have "namei True (path_Join [p, x]) s = Inr (ps @ [x])"
    using *(1-3) names_path_Join[OF *(2) assms(2)] by (intro namei_dirs_to) (simp_all add: dirs_to_snoc)
  then have "run_state (sys_Stat (path_Join [p, x])) s = (os_Lstat (ps @ [x]) (tree s), s)"
    by (cases "os_Lstat (ps @ [x]) (tree s)") (simp_all add: sys_Stat_def read_call_def run_os_call[OF *(4)])
  moreover have "fs_errno (tree s) (ps @ [x]) = ENOENT" if "map_of es x = None"
    using fs_errno_below_dir[of "tree s" ps x] look that *(1) by simp
  ultimately show ?thesis
    using look by (cases "map_of es x") (auto simp: os_Lstat_def map_of_eq_None_iff dest!: map_of_SomeD intro: rev_image_eqI)
qed

lemma unique_loop_finds:
  assumes "plain_dir s p ps es" "is_name name" "j < n" "name @ ''.'' @ decimal (i + j) \<notin> fst ` set es"
  shows "\<exists>x. run_state (unique_loop n p name i) s = (Some (Inr (path_Join [p, x])), s) \<and> is_name x \<and> x \<notin> fst ` set es"
  using assms(3,4)
proof (induction n arbitrary: i j)
  case (Suc n)
  let ?x = "name @ ''.'' @ decimal i"
  obtain r where r: "run_state (sys_Stat (path_Join [p, ?x])) s = (r, s)" "r = Inl ENOENT \<longleftrightarrow> ?x \<notin> fst ` set es"
    "?x \<in> fst ` set es \<longrightarrow> (\<exists>n. r = Inr n)"
    using run_Stat_entry[OF assms(1) numbered_name[OF assms(2)]] by blast
  show ?case
  proof (cases "?x \<in> fst ` set es")
    case True
    then obtain k where "j = Suc k" using Suc.prems(2) by (cases j) auto
    then show ?thesis using r True Suc.IH[of k "Suc i"] Suc.prems by (auto simp: Let_def)
  next
    case False
    then show ?thesis using r numbered_name[OF assms(2), of i] by (intro exI[of _ ?x]) (simp add: Let_def)
  qed
qed simp


subsection \<open>Atomic writing\<close>

text \<open>A tree that differs from another at and below one path.\<close>

definition differs_at :: "path \<Rightarrow> node \<Rightarrow> node \<Rightarrow> node \<Rightarrow> bool" where
  "differs_at T n t0 t \<longleftrightarrow>
     (\<forall>q. fs_view t q = (if prefix T q then fs_view n (drop (length T) q) else fs_view t0 q))"

lemma fs_view_File: "fs_view t q = Some (File c m) \<longleftrightarrow> fs_lookup t q = Some (File c m)"
proof -
  have "node_head n = File c m \<longleftrightarrow> n = File c m" for n by (cases n) auto
  then show ?thesis by (cases "fs_lookup t q") (simp_all add: fs_view_def)
qed

lemma differs_lookup: "differs_at T (File c m) t0 t \<Longrightarrow> fs_lookup t T = Some (File c m)"
  by (simp add: differs_at_def flip: fs_view_File)

lemma differs_dirs:
  assumes "differs_at T n t0 t" "dirs_to t0 p" "length p \<le> length T"
  shows "dirs_to t p"
  unfolding dirs_to_def
proof (intro allI impI)
  fix q
  assume q: "strict_prefix q p"
  then have "\<not> prefix T q" using assms(3) prefix_length_less[of q p] prefix_length_le[of T q] by auto
  then have "fs_view t q = fs_view t0 q" using assms(1) by (simp add: differs_at_def)
  then have "is_dir (fs_view t q) = is_dir (fs_view t0 q)" by simp
  then show "is_dir (fs_lookup t q)" using assms(2) q by (auto simp: dirs_to_def)
qed

lemma differs_put:
  assumes "T \<noteq> []" "dirs_to t T" "\<And>q. \<not> prefix T q \<Longrightarrow> fs_view t q = fs_view t0 q"
  shows "differs_at T n t0 (fs_put T n t)"
  using assms fs_view_put[OF assms(1) dirs_to_parent[OF assms(2,1)], of n] by (simp add: differs_at_def)

lemma differs_put_again:
  "T \<noteq> [] \<Longrightarrow> dirs_to t0 T \<Longrightarrow> differs_at T n t0 t \<Longrightarrow> differs_at T n' t0 (fs_put T n' t)"
  by (rule differs_put) (auto intro: differs_dirs simp: differs_at_def)

text \<open>The file that is made for the new contents.\<close>

definition is_temp :: "path \<Rightarrow> string \<Rightarrow> string list \<Rightarrow> path \<Rightarrow> bool" where
  "is_temp B base rs T \<longleftrightarrow> (\<exists>x \<in> set rs. T = B @ [base @ x])"

lemma temp_file_makes:
  assumes "names_path dir B" "is_dir (fs_lookup (tree s) B)" "dirs_to (tree s) B"
    and "\<forall>x \<in> set rs. is_name (base @ x)" "run_state (temp_file dir base rs) s = (r, s')"
  shows "case r of
      Inl e \<Rightarrow> tree s' = tree s
    | Inr (name, h) \<Rightarrow> is_temp B base rs h \<and> names_path name h \<and> fs_lookup (tree s) h = None
        \<and> (\<exists>m. differs_at h (File [] m) (tree s) (tree s'))"
  using assms
proof (induction rs arbitrary: s)
  case (Cons x rs)
  let ?p = "path_Join [dir, base @ x]" and ?T = "B @ [base @ x]"
  have T: "names_path ?p ?T" "dirs_to (tree s) ?T"
    using names_path_Join Cons.prems by (auto simp: dirs_to_snoc)
  obtain f s1 where f: "run_state (sys_CreateExcl ?p 384) s = (f, s1)" by fastforce
  show ?case
  proof (cases f)
    case (Inl e)
    then have "tree s1 = tree s" using os_call_Inl[OF f[unfolded Inl sys_CreateExcl_def]] by simp
    then show ?thesis
      using Cons.prems f Inl Cons.IH[of s1]
      by (cases "e = EEXIST") (auto simp: Let_def is_temp_def split: sum.splits)
  next
    case (Inr h)
    then have "\<exists>t. sum_bind (namei False ?p s) (\<lambda>q. if fs_lookup (tree s) q \<noteq> None then Inl EEXIST
        else Inr (q, fs_put q (File [] (masked 384 (umask s))) (tree s))) = Inr (h, t) \<and> tree s1 = t"
      using os_call_Inr[OF f[unfolded Inr sys_CreateExcl_def]] by blast
    then have h: "h = ?T" "fs_lookup (tree s) ?T = None" "tree s1 = fs_put ?T (File [] (masked 384 (umask s))) (tree s)"
      using namei_dirs_to[OF T, of False] by (auto split: if_splits)
    then have "differs_at ?T (File [] (masked 384 (umask s))) (tree s) (tree s1)"
      using T(2) by (auto intro!: differs_put)
    then show ?thesis
      using Cons.prems(5) f Inr h T by (auto simp: Let_def is_temp_def)
  qed
qed auto

text \<open>The calls that follow.\<close>

lemma Write_temp:
  assumes "T \<noteq> []" "dirs_to t0 T" "differs_at T (File c m) t0 (tree s)" "run_state (sys_Write T d) s = (r, s')"
  shows "\<exists>d'. differs_at T (File (c @ d') m) t0 (tree s') \<and> (\<forall>u. r = Inr u \<longrightarrow> d' = d)"
proof -
  obtain d' where "tree s' = fs_append T d' (tree s)" "\<forall>u. r = Inr u \<longrightarrow> d' = d"
    using assms(4) by (auto simp: sys_Write_def split: list.splits option.splits)
  then show ?thesis
    using differs_put_again[OF assms(1-3)] differs_lookup[OF assms(3)] by (auto simp: fs_append_def)
qed

lemma Chmod_temp:
  assumes "T \<noteq> []" "dirs_to t0 T" "names_path p T" "differs_at T (File c m) t0 (tree s)"
    and "run_state (sys_Chmod p mode) s = (r, s')"
  shows "\<exists>m'. differs_at T (File c m') t0 (tree s') \<and> (\<forall>u. r = Inr u \<longrightarrow> m' = mode)"
proof (cases r)
  case (Inl e)
  then have "tree s' = tree s" using os_call_Inl[OF assms(5)[unfolded Inl sys_Chmod_def write_call_def]] by simp
  then show ?thesis using assms(4) Inl by auto
next
  case (Inr u)
  have "namei True p s = Inr T"
    using assms(3) differs_dirs[OF assms(4,2)] differs_lookup[OF assms(4)] by (intro namei_dirs_to) auto
  then have "tree s' = fs_put T (File c mode) (tree s)"
    using os_call_Inr[OF assms(5)[unfolded Inr sys_Chmod_def write_call_def]] differs_lookup[OF assms(4)]
    by (auto simp: os_Lstat_def)
  then show ?thesis using differs_put_again[OF assms(1,2,4)] by auto
qed

lemma parallel_snoc: "x \<noteq> y \<Longrightarrow> (B @ [x]) \<parallel> (B @ [y])"
  by (simp add: parallel_def)

lemma Rename_temp:
  assumes "T \<noteq> []" "F \<noteq> []" "T \<parallel> F" "dirs_to t0 T" "dirs_to t0 F" "length F \<le> length T"
    and "names_path p T" "names_path p' F" "differs_at T (File c m) t0 (tree s)" "fs_lookup t0 T = None"
    and "run_state (sys_Rename p p') s = (r, s')"
  shows "case r of Inl e \<Rightarrow> tree s' = tree s | Inr _ \<Rightarrow> differs_at F (File c m) t0 (tree s')"
proof (cases r)
  case (Inl e)
  then show ?thesis using os_call_Inl[OF assms(11)[unfolded Inl sys_Rename_def write_call_def]] by simp
next
  case (Inr u)
  have dirs: "dirs_to (tree s) T" "dirs_to (tree s) F" using differs_dirs[OF assms(9)] assms(4-6) by auto
  have "namei False p s = Inr T" "namei False p' s = Inr F"
    using namei_dirs_to[OF assms(7) dirs(1), of False] namei_dirs_to[OF assms(8) dirs(2), of False] by auto
  then have "os_Rename T F (tree s) = Inr (tree s')"
    using os_call_Inr[OF assms(11)[unfolded Inr sys_Rename_def write_call_def]] by (auto simp: map_sum_eq_Inr)
  moreover have "T \<noteq> F" using assms(3) by auto
  ultimately have t: "tree s' = fs_put F (File c m) (fs_del T (tree s))"
    using differs_lookup[OF assms(9)] by (auto simp: os_Rename_def split: if_splits option.splits node.splits list.splits)
  have gone: "fs_view (fs_del T (tree s)) q = fs_view t0 q" for q
  proof (cases "prefix T q")
    case True
    then obtain x where "q = T @ x" by (auto simp: prefix_def)
    then have "fs_view t0 q = None" using fs_view_below_None[of t0 T x] assms(10) by simp
    then show ?thesis using True fs_view_del[OF assms(1)] by simp
  next
    case False
    then show ?thesis using fs_view_del[OF assms(1)] assms(9) by (simp add: differs_at_def)
  qed
  have "is_dir (fs_view (fs_del T (tree s)) q) = is_dir (fs_view t0 q)" for q by (simp only: gone)
  then have "dirs_to (fs_del T (tree s)) F" using assms(5) by (simp add: dirs_to_def)
  then show ?thesis using differs_put[OF assms(2) _ gone] Inr t by simp
qed

lemma Remove_temp:
  assumes "T \<noteq> []" "dirs_to t0 T" "names_path p T" "differs_at T (File c m) t0 (tree s)"
    and "run_state (sys_Remove p) s = (r, s')" "\<not> prefix T q"
  shows "fs_view (tree s') q = fs_view t0 q"
proof -
  have "tree s' = tree s \<or> tree s' = fs_del T (tree s)"
  proof (cases r)
    case (Inl e)
    then show ?thesis using os_call_Inl[OF assms(5)[unfolded Inl sys_Remove_def write_call_def]] by simp
  next
    case (Inr u)
    have "namei False p s = Inr T" using differs_dirs[OF assms(4,2)] assms(3) by (intro namei_dirs_to) auto
    then show ?thesis
      using os_call_Inr[OF assms(5)[unfolded Inr sys_Remove_def write_call_def]] differs_lookup[OF assms(4)] assms(1)
      by (auto simp: os_Lstat_def)
  qed
  then show ?thesis using assms(4,6) fs_view_del[OF assms(1)] by (auto simp: differs_at_def)
qed

text \<open>What is known after the temporary file has been made and the program has gone on to its end.\<close>

lemma atomic_steps:
  assumes "T \<noteq> []" "F \<noteq> []" "T \<parallel> F" "dirs_to t0 T" "dirs_to t0 F" "length F \<le> length T"
    and "names_path name T" "names_path filename F" "fs_lookup t0 T = None" "differs_at T (File [] m) t0 (tree s)"
    and "run_state (write_and_replace name T filename contents (\<lambda>name h. sys_Chmod name perms)) s = (r, s')"
  shows "case r of None \<Rightarrow> differs_at F (File contents perms) t0 (tree s')
    | Some e \<Rightarrow> \<exists>c m'. differs_at T (File c m') t0 (tree s')"
proof -
  obtain w s1 where w: "run_state (sys_Write T contents) s = (w, s1)" by fastforce
  obtain d where d: "differs_at T (File ([] @ d) m) t0 (tree s1)" "\<forall>u. w = Inr u \<longrightarrow> d = contents"
    using Write_temp[OF assms(1,4,10) w] by blast
  obtain c s2 where c: "run_state (sys_Chmod name perms) s1 = (c, s2)" by fastforce
  obtain m' where m': "differs_at T (File ([] @ d) m') t0 (tree s2)" "\<forall>u. c = Inr u \<longrightarrow> m' = perms"
    using Chmod_temp[OF assms(1,4,7) d(1) c] by blast
  obtain f s3 where f: "run_state (sys_Rename name filename) s2 = (f, s3)" by fastforce
  note ren = Rename_temp[OF assms(1-8) m'(1) assms(9) f]
  show ?thesis
  proof (cases w)
    case (Inl e)
    then show ?thesis using assms(11) w d(1) by (fastforce simp: write_and_replace_def)
  next
    case (Inr u)
    show ?thesis
    proof (cases c)
      case (Inl e)
      then show ?thesis using assms(11) w c m'(1) \<open>w = Inr u\<close> by (fastforce simp: write_and_replace_def)
    next
      case (Inr u')
      then show ?thesis
        using assms(11) w c f ren m' d(2) \<open>w = Inr u\<close> by (cases f) (fastforce simp: ReplaceFile_def write_and_replace_def)+
    qed
  qed
qed

text \<open>The directory of the file, and the names that may be tried in it.\<close>

lemma atomic_place:
  assumes "names_path filename F" "path_Clean filename = filename" "F \<noteq> []" "dirs_to t F"
    and "\<forall>x \<in> set rs. x \<noteq> [] \<and> slash \<notin> set x"
  shows "F = butlast F @ [last F]" "names_path (fst (filepath_Split filename)) (butlast F)"
    "snd (filepath_Split filename) = last F" "is_dir (fs_lookup t (butlast F))" "dirs_to t (butlast F)"
    "\<forall>x \<in> set rs. is_name (last F @ x)" "fst (filepath_Split filename) \<noteq> []"
proof -
  let ?B = "butlast F" and ?base = "last F" and ?dir = "fst (filepath_Split filename)"
  have F: "F = ?B @ [?base]" "is_name ?base" "list_all is_name ?B"
    using assms(1,3) by (auto simp: names_path_def list_all_iff dest: in_set_butlastD)
  have split: "names_path ?dir ?B" "snd (filepath_Split filename) = ?base"
    using filepath_Split_comps[of filename F] assms(1-3) F(3) by (auto simp: names_path_def)
  have B: "is_dir (fs_lookup t ?B)" "dirs_to t ?B"
    using assms(4) F(1) by (metis dirs_to_snoc)+
  have names: "\<forall>x \<in> set rs. is_name (?base @ x)"
    using assms(5) F(2) by (auto simp: is_name_def dot_def dotdot_def append_eq_Cons_conv)
  have "?dir \<noteq> []" using split(1) by (auto simp: names_path_def IsAbs_def)
  then show "F = butlast F @ [last F]" "names_path (fst (filepath_Split filename)) (butlast F)"
    "snd (filepath_Split filename) = last F" "is_dir (fs_lookup t (butlast F))" "dirs_to t (butlast F)"
    "\<forall>x \<in> set rs. is_name (last F @ x)" "fst (filepath_Split filename) \<noteq> []"
    using F split B names by blast+
qed


definition file_os :: "(errno \<times> nat) option list \<Rightarrow> os" where
  "file_os fs = \<lparr>tree = Dir 493 [(''f'', File ''old'' 420), (''l'', Link ''/f'')], cwd = [], umask = 18, faults = fs\<rparr>"

lemma file_os_dirs: "dirs_to (tree (file_os fs)) [x]"
  by (auto simp: dirs_to_def file_os_def strict_prefix_def prefix_Cons)



subsection \<open>Replacing a link\<close>

text \<open>\<^verbatim>\<open>Replace\<close> makes the new link, and when the old one cannot be removed or the new one not be
  created the old one stays; but it removes the old link before it moves the new one, so that it is lost when
  the last call fails.\<close>

lemma symlink_Replace_examples:
  "fs_view (tree (snd (run_state (replace_link ''1'' ''/l'' ''/g'') (file_os [])))) [''l''] = Some (Link ''/g'')"
  "fs_view (tree (snd (run_state (replace_link ''1'' ''/l'' ''/g'') (file_os [Some (EIO, 0)])))) [''l''] = Some (Link ''/f'')"
  "fs_view (tree (snd (run_state (replace_link ''1'' ''/l'' ''/g'') (file_os [None, None, None, Some (EIO, 0)])))) [''l''] = None"
  by code_simp+

subsection \<open>CopyFile\<close>

text \<open>A copy has the contents of the source; when the source cannot be opened the destination has been
  emptied, and a file that is copied to itself is lost without an error.\<close>

lemma CopyFile_examples:
  "run_state (CopyFile ''/g'' ''/f'') (file_os []) =
     (Inr (), file_os []\<lparr>tree := Dir 493 [(''g'', File ''old'' 420), (''f'', File ''old'' 420), (''l'', Link ''/f'')]\<rparr>)"
  "run_state (CopyFile ''/f'' ''/missing'') (file_os []) =
     (Inl ENOENT, file_os []\<lparr>tree := Dir 493 [(''f'', File [] 420), (''l'', Link ''/f'')]\<rparr>)"
  "run_state (CopyFile ''/f'' ''/f'') (file_os []) =
     (Inr (), file_os []\<lparr>tree := Dir 493 [(''f'', File [] 420), (''l'', Link ''/f'')]\<rparr>)"
  by code_simp+

end
