(* ===== verification/Base64.thy ===== *)
theory Base64
  imports Prelude
begin

text \<open>
  The standard encoding of \<^verbatim>\<open>encoding/base64\<close>, which passwords, checksums and headers are printed with, and
  the decoder as its reference. Data are bytes, as characters of a string.
\<close>

definition b64_char :: "nat \<Rightarrow> char" where
  "b64_char d =
     (if d < 26 then char_of (65 + d) else if d < 52 then char_of (71 + d)
      else if d < 62 then char_of (d - 4) else if d = 62 then CHR ''+'' else CHR ''/'')"

definition b64_value :: "char \<Rightarrow> nat option" where
  "b64_value c =
     (let n = of_char c :: nat in
      if 65 \<le> n \<and> n \<le> 90 then Some (n - 65) else if 97 \<le> n \<and> n \<le> 122 then Some (n - 71)
      else if 48 \<le> n \<and> n \<le> 57 then Some (n + 4) else if c = CHR ''+'' then Some 62
      else if c = CHR ''/'' then Some 63 else None)"

fun b64_bytes :: "nat list \<Rightarrow> string" where
  "b64_bytes [] = []"
| "b64_bytes [a] = [b64_char (a div 4), b64_char (a mod 4 * 16), CHR ''='', CHR ''='']"
| "b64_bytes [a, b] =
     [b64_char (a div 4), b64_char (a mod 4 * 16 + b div 16), b64_char (b mod 16 * 4), CHR ''='']"
| "b64_bytes (a # b # c # bs) =
     [b64_char (a div 4), b64_char (a mod 4 * 16 + b div 16), b64_char (b mod 16 * 4 + c div 64), b64_char (c mod 64)]
     @ b64_bytes bs"

definition EncodeToString :: "string \<Rightarrow> string" where
  "EncodeToString s = b64_bytes (map of_char s)"

definition EncodedLen :: "nat \<Rightarrow> nat" where
  "EncodedLen n = (n + 2) div 3 * 4"

fun b64_decode :: "string \<Rightarrow> nat list option" where
  "b64_decode [] = Some []"
| "b64_decode (p # q # r # s # rest) =
     (case (b64_value p, b64_value q) of
        (Some w, Some x) \<Rightarrow>
          if r = CHR ''='' \<and> s = CHR ''='' \<and> rest = [] then Some [w * 4 + x div 16]
          else (case b64_value r of
                  None \<Rightarrow> None
                | Some y \<Rightarrow>
                    if s = CHR ''='' \<and> rest = [] then Some [w * 4 + x div 16, x mod 16 * 16 + y div 4]
                    else (case (b64_value s, b64_decode rest) of
                            (Some z, Some bs) \<Rightarrow>
                              Some ([w * 4 + x div 16, x mod 16 * 16 + y div 4, y mod 4 * 64 + z] @ bs)
                          | _ \<Rightarrow> None))
      | _ \<Rightarrow> None)"
| "b64_decode _ = None"

definition DecodeString :: "string \<Rightarrow> string option" where
  "DecodeString s = map_option (map char_of) (b64_decode s)"

subsection \<open>Properties\<close>

lemma b64_value_char [simp]: "d < 64 \<Longrightarrow> b64_value (b64_char d) = Some d"
  by (auto simp: b64_char_def b64_value_def Let_def)

lemma b64_char_not_pad [simp]: "d < 64 \<Longrightarrow> b64_char d \<noteq> CHR ''=''"
  using b64_value_char[of d] by (auto simp: b64_value_def)

lemma b64_decode_bytes: "\<forall>b \<in> set bs. b < 256 \<Longrightarrow> b64_decode (b64_bytes bs) = Some bs"
proof (induction bs rule: b64_bytes.induct)
  case (2 a)
  then have "a div 4 < 64" "a mod 4 * 16 < 64" by auto
  then show ?case by simp
next
  case (3 a b)
  then have "a div 4 < 64" "a mod 4 * 16 + b div 16 < 64" "b mod 16 * 4 < 64" by auto
  moreover have "b div 16 < 16" using 3 by auto
  ultimately show ?case by simp
next
  case (4 a b c bs)
  then have "a div 4 < 64" "a mod 4 * 16 + b div 16 < 64" "b mod 16 * 4 + c div 64 < 64" "c mod 64 < 64" by auto
  moreover have "b div 16 < 16" "c div 64 < 4" using 4 by auto
  ultimately show ?case using 4 by simp
qed simp

lemma DecodeString_Encode [simp]: "DecodeString (EncodeToString s) = Some s"
  by (simp add: DecodeString_def EncodeToString_def b64_decode_bytes comp_def)

lemma EncodeToString_inject: "EncodeToString s = EncodeToString t \<longleftrightarrow> s = t"
  by (metis DecodeString_Encode option.inject)

lemma b64_bytes_length: "length (b64_bytes bs) = EncodedLen (length bs)"
proof (induction bs rule: b64_bytes.induct)
  case (4 a b c bs)
  have "(length bs + 2 + 3) div 3 = (length bs + 2) div 3 + 1" by (rule div_add_self2) simp
  moreover have "length (a # b # c # bs) + 2 = length bs + 2 + 3" by simp
  ultimately have "EncodedLen (length (a # b # c # bs)) = 4 + EncodedLen (length bs)"
    unfolding EncodedLen_def by (simp only: add_mult_distrib)
  then show ?case using 4 by simp
qed (simp_all add: EncodedLen_def)

lemma EncodeToString_length: "length (EncodeToString s) = EncodedLen (length s)"
  by (simp add: EncodeToString_def b64_bytes_length)

text \<open>There is no padding when the length is a multiple of three.\<close>

lemma b64_bytes_no_pad:
  "\<forall>b \<in> set bs. b < 256 \<Longrightarrow> length bs mod 3 = 0 \<Longrightarrow> CHR ''='' \<notin> set (b64_bytes bs)"
proof (induction bs rule: b64_bytes.induct)
  case (4 a b c bs)
  have pad: "d < 64 \<Longrightarrow> CHR ''='' \<noteq> b64_char d" for d by (metis b64_char_not_pad)
  have "a div 4 < 64" "a mod 4 * 16 + b div 16 < 64" "b mod 16 * 4 + c div 64 < 64" "c mod 64 < 64" using 4 by auto
  note pad[OF this(1)] pad[OF this(2)] pad[OF this(3)] pad[OF this(4)]
  moreover have "length bs mod 3 = 0" using 4(3) by (simp add: mod_Suc split: if_splits)
  then have "CHR ''='' \<notin> set (b64_bytes bs)" using 4 by simp
  ultimately show ?case by simp
qed simp_all

lemma EncodeToString_no_pad: "length s mod 3 = 0 \<Longrightarrow> CHR ''='' \<notin> set (EncodeToString s)"
  by (simp add: EncodeToString_def b64_bytes_no_pad)

end
