(* ===== verification/Tar.thy ===== *)
theory Tar
  imports FileUtils Base64
begin

text \<open>
  Tar archives (\<^verbatim>\<open>src/tar/tar.go\<close>). An archive is what \<^verbatim>\<open>archive/tar\<close> makes of it: a list of entries, each a
  header and its data. A reader gives the entries one by one and ends with \<^verbatim>\<open>EOF\<close> or with an error; a
  writer takes headers and data, and any of its calls may fail. The bytes of an archive and the hash are
  arguments. Modes are permission bits, as the calls of the operating system use them.
\<close>

text \<open>The type flags that are told apart; every other flag is handled as that of a regular file.\<close>

datatype tar_type = TypeReg | TypeDir | TypeSymlink

record tar_header =
  th_name :: string
  th_mode :: nat
  th_type :: tar_type
  th_link :: string

type_synonym tar_entry = "tar_header \<times> string"

subsection \<open>Reading\<close>

text \<open>The entries that are read, with the error that ends the data of an entry, and the error that ends
  the archive.\<close>

type_synonym tar_stream = "(tar_header \<times> string \<times> errno option) list \<times> errno option"

datatype find_error = NotFound string | TarReadError errno

fun FindFile :: "tar_stream \<Rightarrow> string \<Rightarrow> find_error + tar_header \<times> string \<times> errno option" where
  "FindFile ([], None) filename = Inl (NotFound filename)"
| "FindFile ([], Some err) filename = Inl (TarReadError err)"
| "FindFile ((header, reader) # es, err) filename =
     (if th_name header = filename then Inr (header, reader) else FindFile (es, err) filename)"

subsection \<open>Extraction\<close>

datatype untar_error =
    CannotBeWritten errno
  | FailedReading errno
  | CannotSetMode string errno
  | HeaderError errno
  | CannotExtractDir string errno
  | CannotExtractSymlink string string errno
  | CannotExtractFile string untar_error

definition createAndFill :: "string \<Rightarrow> nat \<Rightarrow> string \<times> errno option \<Rightarrow> (untar_error option) io" where
  "createAndFill filePath mode content =
     do {
       f \<leftarrow> sys_Create filePath 438;
       (case f of
          Inl e \<Rightarrow> State_Monad.return (Some (CannotBeWritten e))
        | Inr fh \<Rightarrow>
            do {
              c \<leftarrow> io_Copy_data fh content;
              (case c of
                 Inl e \<Rightarrow> State_Monad.return (Some (FailedReading e))
               | Inr _ \<Rightarrow>
                   do {
                     m \<leftarrow> sys_Chmod filePath (Perm mode);
                     State_Monad.return (case m of Inl e \<Rightarrow> Some (CannotSetMode filePath e) | Inr _ \<Rightarrow> None)
                   })
            })
     }"

text \<open>One turn of the loop, and the loop.\<close>

definition untar_entry :: "string \<Rightarrow> tar_header \<times> string \<times> errno option \<Rightarrow> (untar_error option) io" where
  "untar_entry outputFolder e =
     (let hdr = fst e; fullPath = path_Join [outputFolder, th_name hdr] in
      case th_type hdr of
        TypeDir \<Rightarrow>
          do {
            r \<leftarrow> os_MkdirAll_at fullPath (Perm (th_mode hdr));
            State_Monad.return (case r of Inl e \<Rightarrow> Some (CannotExtractDir fullPath e) | Inr _ \<Rightarrow> None)
          }
      | TypeSymlink \<Rightarrow>
          do {
            r \<leftarrow> symlink_New (th_link hdr) fullPath;
            State_Monad.return
              (case r of Inl e \<Rightarrow> Some (CannotExtractSymlink (th_link hdr) fullPath e) | Inr _ \<Rightarrow> None)
          }
      | TypeReg \<Rightarrow>
          do {
            r \<leftarrow> createAndFill fullPath (th_mode hdr) (snd e);
            State_Monad.return (map_option (CannotExtractFile fullPath) r)
          })"

fun UntarFiles :: "tar_stream \<Rightarrow> string \<Rightarrow> (untar_error option) io" where
  "UntarFiles ([], None) outputFolder = State_Monad.return None"
| "UntarFiles ([], Some err) outputFolder = State_Monad.return (Some (HeaderError err))"
| "UntarFiles (e # es, err) outputFolder =
     do {
       r \<leftarrow> untar_entry outputFolder e;
       (case r of
          Some err \<Rightarrow> State_Monad.return (Some err)
        | None \<Rightarrow> UntarFiles (es, err) outputFolder)
     }"

subsection \<open>Writing\<close>

record tar_writer =
  tw_entries :: "tar_entry list"
  tw_faults :: "string option list"

definition tar_NewWriter :: "string option list \<Rightarrow> tar_writer" where
  "tar_NewWriter fs = \<lparr>tw_entries = [], tw_faults = fs\<rparr>"

definition tar_call :: "(tar_entry list \<Rightarrow> tar_entry list) \<Rightarrow> tar_writer \<Rightarrow> string option \<times> tar_writer" where
  "tar_call f w =
     (case tw_faults w of
        Some err # fs \<Rightarrow> (Some err, w\<lparr>tw_faults := fs\<rparr>)
      | _ \<Rightarrow> (None, w\<lparr>tw_entries := f (tw_entries w), tw_faults := tl (tw_faults w)\<rparr>))"

definition tar_WriteHeader :: "tar_header \<Rightarrow> tar_writer \<Rightarrow> string option \<times> tar_writer" where
  "tar_WriteHeader h = tar_call (\<lambda>es. es @ [(h, [])])"

definition tar_Write :: "string \<Rightarrow> tar_writer \<Rightarrow> string option \<times> tar_writer" where
  "tar_Write d = tar_call (\<lambda>es. if es = [] then [] else butlast es @ [(fst (last es), snd (last es) @ d)])"

definition tar_Close :: "tar_writer \<Rightarrow> string option \<times> tar_writer" where
  "tar_Close = tar_call id"

text \<open>\<^verbatim>\<open>filepath.EvalSymlinks\<close>: the first element of the path is looked up after the part that is done; a link
  is put in its place. There are at most 255 turns.\<close>

datatype eval_error = EvalFailed errno | TooManyLinks string

fun walkSymlinks :: "nat \<Rightarrow> string \<Rightarrow> string \<Rightarrow> string \<Rightarrow> (eval_error + string) io" where
  "walkSymlinks n orig b [] = State_Monad.return (Inr (path_Clean b))"
| "walkSymlinks 0 orig b path = State_Monad.return (Inl (TooManyLinks orig))"
| "walkSymlinks (Suc n) orig b path =
     (let p = takeWhile (\<lambda>c. c \<noteq> slash) path; rest = tl (dropWhile (\<lambda>c. c \<noteq> slash) path) in
      if p = [] then walkSymlinks n orig (if b = [] then [slash] else b) rest
      else do {
        l \<leftarrow> sys_Lstat (b @ p);
        (case l of
           Inl e \<Rightarrow> State_Monad.return (Inl (EvalFailed e))
         | Inr fi \<Rightarrow>
             if \<not> is_link (Some fi) then walkSymlinks n orig (if rest = [] then b @ p else b @ p @ [slash]) rest
             else do {
               d \<leftarrow> sys_Readlink (b @ p);
               (case d of
                  Inl e \<Rightarrow> State_Monad.return (Inl (EvalFailed e))
                | Inr dest \<Rightarrow> walkSymlinks n orig (if IsAbs dest then [] else b) (dest @ slash # rest))
             })
      })"

definition EvalSymlinks :: "string \<Rightarrow> (eval_error + string) io" where
  "EvalSymlinks path = walkSymlinks 256 path [] path"

datatype tar_error =
    TarOs errno
  | CannotDereference eval_error
  | CannotWriteHeader string string
  | FailedToWrite string "string + errno"
  | ErrorReadingDir string errno
  | TarTooDeep
  | WriteFailed tar_error
  | ErrorClosing string

text \<open>The header of a file, with its permissions, its type and the path a link leads to.\<close>

fun FileInfoHeader :: "node \<Rightarrow> string \<Rightarrow> tar_header" where
  "FileInfoHeader (File _ m) link = \<lparr>th_name = [], th_mode = Perm m, th_type = TypeReg, th_link = []\<rparr>"
| "FileInfoHeader (Dir m _) link = \<lparr>th_name = [], th_mode = Perm m, th_type = TypeDir, th_link = []\<rparr>"
| "FileInfoHeader (Link _) link = \<lparr>th_name = [], th_mode = 511, th_type = TypeSymlink, th_link = link\<rparr>"

text \<open>The loops over the names of a directory; the recursive call is an argument.\<close>

type_synonym tar_action = "tar_writer \<Rightarrow> (tar_error option \<times> tar_writer) io"

fun write_names :: "(string \<Rightarrow> tar_action) \<Rightarrow> string \<Rightarrow> string list \<Rightarrow> tar_action" where
  "write_names wr fileName [] w = State_Monad.return (None, w)"
| "write_names wr fileName (name # names) w =
     do {
       (r, w) \<leftarrow> wr (path_Join [fileName, name]) w;
       (if r \<noteq> None then State_Monad.return (r, w) else write_names wr fileName names w)
     }"

function write_entries :: "(string \<Rightarrow> tar_action) \<Rightarrow> string \<Rightarrow> string list \<Rightarrow> tar_action" where
  "write_entries wr fileName names w =
     do {
       (batch, err) \<leftarrow> sys_Readdirnames names;
       (case err of
          EndOfNames \<Rightarrow> State_Monad.return (None, w)
        | ReadError e \<Rightarrow> State_Monad.return (Some (ErrorReadingDir fileName e), w)
        | MoreNames \<Rightarrow>
            do {
              (r, w) \<leftarrow> write_names wr fileName batch w;
              (if r \<noteq> None \<or> names = [] then State_Monad.return (r, w)
               else write_entries wr fileName (drop 100 names) w)
            })
     }"
  by pat_completeness auto
termination
  by (relation "measure (\<lambda>(wr, fileName, names, w). length names)") auto

declare write_entries.simps [simp del]

text \<open>What is written for a file that is open, after its status.\<close>

definition write_node :: "(string \<Rightarrow> tar_action) \<Rightarrow> string \<Rightarrow> handle \<Rightarrow> node \<Rightarrow> tar_header \<Rightarrow> tar_action" where
  "write_node wr fileName f fInfo h w =
     (case tar_WriteHeader h w of
        (Some err, w) \<Rightarrow> State_Monad.return (Some (CannotWriteHeader fileName err), w)
      | (None, w) \<Rightarrow>
          (case fInfo of
             Link _ \<Rightarrow> State_Monad.return (None, w)
           | File _ _ \<Rightarrow>
               do {
                 r \<leftarrow> sys_ReadAll f;
                 State_Monad.return
                   (case tar_Write (fst r) w of
                      (Some err, w) \<Rightarrow> (Some (FailedToWrite fileName (Inl err)), w)
                    | (None, w) \<Rightarrow> (map_option (\<lambda>e. FailedToWrite fileName (Inr e)) (snd r), w))
               }
           | Dir _ _ \<Rightarrow> do { names \<leftarrow> dir_names f; write_entries wr fileName names w }))"

text \<open>The first argument bounds the nesting of directories.\<close>

fun writeContents :: "nat \<Rightarrow> string \<Rightarrow> string \<Rightarrow> tar_action" where
  "writeContents 0 strip fileName w = State_Monad.return (Some TarTooDeep, w)"
| "writeContents (Suc n) strip fileName w =
     do {
       o1 \<leftarrow> sys_Open fileName;
       (case o1 of
          Inl e \<Rightarrow> State_Monad.return (Some (TarOs e), w)
        | Inr f \<Rightarrow>
            do {
              l \<leftarrow> sys_Lstat fileName;
              (case l of
                 Inl e \<Rightarrow> State_Monad.return (Some (TarOs e), w)
               | Inr fInfo \<Rightarrow>
                   do {
                     link \<leftarrow> (if is_link (Some fInfo) then EvalSymlinks fileName else State_Monad.return (Inr []));
                     (case link of
                        Inl e \<Rightarrow> State_Monad.return (Some (CannotDereference e), w)
                      | Inr link \<Rightarrow>
                          write_node (writeContents n strip) fileName f fInfo
                            ((FileInfoHeader fInfo link)\<lparr>th_name := strings_TrimPrefix fileName strip\<rparr>) w)
                   })
            })
     }"

fun write_files :: "nat \<Rightarrow> string \<Rightarrow> string list \<Rightarrow> tar_action" where
  "write_files n strip [] w = State_Monad.return (None, w)"
| "write_files n strip (ent # fileList) w =
     do {
       (r, w) \<leftarrow> writeContents n strip ent w;
       (case r of
          Some err \<Rightarrow> State_Monad.return (Some (WriteFailed err), w)
        | None \<Rightarrow> write_files n strip fileList w)
     }"

text \<open>The writer is closed in any case, and its error counts when there is no other.\<close>

definition tarAndHashFiles :: "nat \<Rightarrow> string list \<Rightarrow> string \<Rightarrow> tar_action" where
  "tarAndHashFiles n fileList strip tarw =
     do {
       (err, tarw) \<leftarrow> write_files n strip fileList tarw;
       State_Monad.return
         (case tar_Close tarw of
            (Some closeErr, tarw) \<Rightarrow> (if err = None then Some (ErrorClosing closeErr) else err, tarw)
          | (None, tarw) \<Rightarrow> (err, tarw))
     }"

text \<open>The digest of the bytes that went to the target as well as to the hash.\<close>

definition TarFiles ::
  "(string \<Rightarrow> string) \<Rightarrow> (tar_entry list \<Rightarrow> string) \<Rightarrow> nat \<Rightarrow> string list \<Rightarrow> tar_writer \<Rightarrow> string
   \<Rightarrow> ((tar_error + string) \<times> tar_writer) io" where
  "TarFiles sha1 tar_bytes n fileList target strip =
     do {
       (err, w) \<leftarrow> tarAndHashFiles n fileList strip target;
       State_Monad.return
         (case err of
            Some e \<Rightarrow> (Inl e, w)
          | None \<Rightarrow> (Inr (EncodeToString (sha1 (tar_bytes (tw_entries w)))), w))
     }"

subsection \<open>Extraction stays below the output folder\<close>

definition plain_entry :: "tar_header \<Rightarrow> bool" where
  "plain_entry h \<longleftrightarrow> list_all is_name (path_comps (th_name h)) \<and> th_type h \<noteq> TypeSymlink"

lemma keeps_createAndFill:
  assumes "leads_to R p ps" "prefix R ps"
  shows "io_keeps (confined R s0) (createAndFill p m d)"
  unfolding createAndFill_def
  by (intro io_ensures_bind[OF keeps_Create[OF assms]])
    (intro io_rules TrueI keeps_Copy_data keeps_Chmod[OF assms]; simp)

lemma keeps_untar_entry:
  assumes "root_ok root" "plain_entry (fst e)"
  shows "io_keeps (confined (path_comps root) s0) (untar_entry root e)"
proof -
  have "list_all is_name (path_comps (th_name (fst e)))" using assms(2) by (simp add: plain_entry_def)
  note place = leads_to_below(2)[OF assms(1) this]
  then show ?thesis
    using assms(2) unfolding untar_entry_def Let_def
    by (cases "th_type (fst e)")
      (auto simp: plain_entry_def intro!: io_rules keeps_MkdirAll keeps_createAndFill)
qed

lemma keeps_UntarFiles:
  assumes "root_ok root" "list_all (\<lambda>e. plain_entry (fst e)) (fst stream)"
  shows "io_keeps (confined (path_comps root) s0) (UntarFiles stream root)"
  using assms
  by (induction stream root rule: UntarFiles.induct) (auto intro!: io_rules keeps_untar_entry)

text \<open>Extraction of an archive without symbolic links and without \<^verbatim>\<open>..\<close> in its names changes nothing outside
  of the output folder, but that missing directories above it are made; also when calls fail half
  way or the archive is damaged.\<close>

theorem UntarFiles_confined:
  assumes "root_ok root" "no_links (path_comps root) (tree s)"
    and "list_all (\<lambda>e. plain_entry (fst e)) (fst stream)"
    and "run_state (UntarFiles stream root) s = (r, s')"
    and "\<not> prefix (path_comps root) q"
  shows "fs_view (tree s') q = fs_view (tree s) q
    \<or> prefix q (path_comps root) \<and> fs_view (tree s) q = None \<and> is_dir (fs_view (tree s') q)"
proof -
  have "confined (path_comps root) s s'"
    using io_ensuresD[OF keeps_UntarFiles[OF assms(1,3)] confined_start[OF assms(2)] assms(4)] by simp
  then show ?thesis using assms(5) by (auto simp: confined_def)
qed

subsection \<open>What is written\<close>

text \<open>The entries for a tree at the path \<open>P @ M\<close>, where the path \<open>P\<close> is stripped.\<close>

definition entry_name :: "path \<Rightarrow> path \<Rightarrow> string" where
  "entry_name P M = strings_TrimPrefix (abs_path (P @ M)) (abs_path P)"

fun tar_tree :: "path \<Rightarrow> path \<Rightarrow> node \<Rightarrow> tar_entry list" where
  "tar_tree P M (Dir m es) =
     ((FileInfoHeader (Dir m es) [])\<lparr>th_name := entry_name P M\<rparr>, [])
     # concat (map (\<lambda>(x, c). tar_tree P (M @ [x]) c) es)"
| "tar_tree P M (File c m) = [((FileInfoHeader (File c m) [])\<lparr>th_name := entry_name P M\<rparr>, c)]"
| "tar_tree P M (Link l) = [((FileInfoHeader (Link l) l)\<lparr>th_name := entry_name P M\<rparr>, [])]"

lemma entry_name_comps: "list_all is_name (P @ M) \<Longrightarrow> path_comps (entry_name P M) = M"
proof -
  assume M: "list_all is_name (P @ M)"
  have "entry_name P M = (if M = [] then [] else if P = [] then strings_Join [slash] M else slash # strings_Join [slash] M)"
    by (simp add: entry_name_def strings_TrimPrefix_def strings_HasPrefix_def abs_path_append) (simp add: abs_path_def)
  then show ?thesis
    using M path_comps_Join_clean[OF clean_list_names[of M False]] by (simp add: path_simps)
qed

text \<open>The loops over the names of a directory when the recursive call appends entries and changes nothing
  else.\<close>

definition appends :: "os \<Rightarrow> tar_action \<Rightarrow> tar_entry list \<Rightarrow> bool" where
  "appends s act es \<longleftrightarrow>
     (\<forall>w. tw_faults w = [] \<longrightarrow> run_state (act w) s = ((None, w\<lparr>tw_entries := tw_entries w @ es\<rparr>), s))"

lemma write_names_appends:
  assumes "\<And>x. x \<in> set xs \<Longrightarrow> appends s (wr (path_Join [f, x])) (g x)"
  shows "appends s (write_names wr f xs) (concat (map g xs))"
  using assms
proof (induction xs)
  case (Cons x xs)
  then have "appends s (wr (path_Join [f, x])) (g x)" "appends s (write_names wr f xs) (concat (map g xs))" by simp_all
  then show ?case by (simp add: appends_def)
qed (simp add: appends_def)

lemma write_entries_appends:
  assumes "\<And>x. x \<in> set xs \<Longrightarrow> appends s (wr (path_Join [f, x])) (g x)" "faults s = []"
  shows "appends s (write_entries wr f xs) (concat (map g xs))"
  using assms(1)
proof (induction xs rule: measure_induct_rule[of length])
  case (less xs)
  have names: "appends s (write_names wr f (take 100 xs)) (concat (map g (take 100 xs)))"
    by (rule write_names_appends) (meson in_set_takeD less.prems)
  have more: "appends s (write_entries wr f (drop 100 xs)) (concat (map g (drop 100 xs)))" if "xs \<noteq> []"
    using that by (intro less.IH) (auto dest: in_set_dropD intro: less.prems)
  have split: "concat (map g xs) = concat (map g (take 100 xs)) @ concat (map g (drop 100 xs))"
    by (metis append_take_drop_id concat_append map_append)
  show ?case
    unfolding appends_def
    using names more assms(2) split
    by (subst write_entries.simps) (auto simp: run_Readdirnames appends_def)
qed

lemma linkless_child: "linkless (Dir m es) \<Longrightarrow> map_of es x = Some c \<Longrightarrow> linkless c"
  unfolding linkless_def using fs_lookup.simps(2)[of m es x] by (metis option.simps(5))

lemma linkless_Link [simp]: "\<not> linkless (Link l)"
  unfolding linkless_def by (auto intro: exI[of _ "[]"])

lemma writeContents_appends:
  assumes "faults s = []" "list_all is_name (P @ M)" "dirs_to (tree s) (P @ M)" "fs_lookup (tree s) (P @ M) = Some n"
    and "tree_ok n" "linkless n" "height n < k"
  shows "appends s (writeContents k (abs_path P) (abs_path (P @ M))) (tar_tree P M n)"
  using assms(2-)
proof (induction k arbitrary: M n)
  case (Suc k)
  let ?f = "abs_path (P @ M)" and ?h = "(FileInfoHeader n [])\<lparr>th_name := entry_name P M\<rparr>"
  have place: "names_path ?f (P @ M)" using Suc.prems(1) by (simp add: names_path_def)
  have n: "\<not> is_link (Some n)" using Suc.prems(5) by (cases n) simp_all
  have run: "run_state (writeContents (Suc k) (abs_path P) ?f w) s =
    run_state (write_node (writeContents k (abs_path P)) ?f (P @ M) n ?h w) s" for w
    using run_Open[OF assms(1) place Suc.prems(2,3) n] run_Lstat[OF assms(1) place Suc.prems(2)] n Suc.prems(3)
    by (simp add: os_Lstat_def entry_name_def)
  show ?case
  proof (cases n)
    case (File c m)
    have "s\<lparr>faults := []\<rparr> = s" using assms(1) by simp
    then show ?thesis
      unfolding appends_def run using File Suc.prems(3) assms(1)
      by (simp add: write_node_def tar_WriteHeader_def tar_Write_def tar_call_def sys_ReadAll_def)
  next
    case (Link l)
    then show ?thesis using Suc.prems(5) by simp
  next
    case (Dir m es)
    have child: "appends s (writeContents k (abs_path P) (path_Join [?f, x])) (tar_tree P (M @ [x]) (the (map_of es x)))"
      if x: "x \<in> set (map fst es)" for x
    proof -
      obtain c where c: "(x, c) \<in> set es" "map_of es x = Some c"
        using x Dir Suc.prems(4) by (fastforce simp: map_of_eq_Some_iff)
      then have "is_name x" "tree_ok c" using Dir Suc.prems(4) by (auto simp: list_all_iff)
      then have "path_Join [?f, x] = abs_path (P @ M @ [x])" "list_all is_name (P @ M @ [x])"
        using path_Join_abs_path[of "P @ M" x] Suc.prems(1) by (simp_all add: path_comps_name)
      moreover have "fs_lookup (tree s) (P @ M @ [x]) = Some c"
        using Suc.prems(3) Dir c fs_lookup_append[of "tree s" "P @ M" "[x]"] by simp
      moreover have "dirs_to (tree s) (P @ M @ [x])"
        using dirs_to_snoc[of "tree s" "P @ M" x] Suc.prems(2,3) Dir by simp
      moreover have "height c < k" using height_child[OF c(1), of m] Dir Suc.prems(6) by simp
      ultimately show ?thesis
        using Suc.IH[of "M @ [x]" c] \<open>tree_ok c\<close> linkless_child[of m es x c] Suc.prems(5) Dir c by simp
    qed
    have "concat (map (\<lambda>x. tar_tree P (M @ [x]) (the (map_of es x))) (map fst es))
        = concat (map (\<lambda>(x, c). tar_tree P (M @ [x]) c) es)"
      using Dir Suc.prems(4) by (auto intro!: arg_cong[of _ _ concat] simp: map_of_eq_Some_iff)
    then have "appends s (write_entries (writeContents k (abs_path P)) ?f (map fst es))
        (concat (map (\<lambda>(x, c). tar_tree P (M @ [x]) c) es))"
      using write_entries_appends[of "map fst es" s "writeContents k (abs_path P)" ?f
          "\<lambda>x. tar_tree P (M @ [x]) (the (map_of es x))", OF child assms(1)] by simp
    then show ?thesis
      using Dir Suc.prems(3) run_dir_names[of s "P @ M" m es] unfolding appends_def run
      by (simp add: write_node_def tar_WriteHeader_def tar_call_def)
  qed
qed simp

subsection \<open>What is extracted\<close>

text \<open>Directories get the permissions that the mask of the process leaves, files those of the archive.\<close>

fun untarred :: "nat \<Rightarrow> node \<Rightarrow> node" where
  "untarred um (Dir m es) = Dir (masked (Perm m) um) (map (\<lambda>(x, c). (x, untarred um c)) es)"
| "untarred um (File c m) = File c (Perm m)"
| "untarred um (Link l) = Link l"

text \<open>The view of a tree that gets a new node.\<close>

definition view_put :: "path \<Rightarrow> node \<Rightarrow> (path \<Rightarrow> node option) \<Rightarrow> path \<Rightarrow> node option" where
  "view_put F c v q = (if prefix F q then fs_view c (drop (length F) q) else v q)"

lemma view_put_again [simp]: "view_put F c (view_put F d v) = view_put F c v"
  by (auto simp: view_put_def fun_eq_iff)

lemma view_put_entry:
  assumes "x \<notin> fst ` set es"
  shows "view_put (F @ [x]) c (view_put F (Dir m es) v) = view_put F (Dir m (es @ [(x, c)])) v"
proof
  fix q
  have x: "map_of es x = None" using assms by (simp add: map_of_eq_None_iff)
  show "view_put (F @ [x]) c (view_put F (Dir m es) v) q = view_put F (Dir m (es @ [(x, c)])) v q"
  proof (cases "prefix F q")
    case True
    then obtain r where r: "q = F @ r" by (auto simp: prefix_def)
    then show ?thesis using x by (cases r) (auto simp: view_put_def map_add_def split: option.split)
  next
    case False
    then have "\<not> prefix (F @ [x]) q" using append_prefixD by blast
    with False show ?thesis by (simp add: view_put_def)
  qed
qed

lemma view_put_tree: "F \<noteq> [] \<Longrightarrow> dirs_to t F \<Longrightarrow> fs_view (fs_put F c t) = view_put F c (fs_view t)"
  by (simp add: fun_eq_iff view_put_def view_put_new)

definition vacant :: "os \<Rightarrow> path \<Rightarrow> bool" where
  "vacant s F \<longleftrightarrow> faults s = [] \<and> list_all is_name F \<and> dirs_to (tree s) F \<and> fs_lookup (tree s) F = None"

lemma vacant_path: "vacant s F \<Longrightarrow> names_path (abs_path F) F \<and> F \<noteq> []"
  by (auto simp: vacant_def names_path_def)

lemma dirs_to_view:
  assumes "dirs_to t0 F" "fs_view t = view_put F (Dir m es) (fs_view t0)"
  shows "dirs_to t F" "is_dir (fs_lookup t F)"
proof -
  have "fs_view t q = fs_view t0 q" if "strict_prefix q F" for q
    using assms(2) that by (auto simp: view_put_def strict_prefix_def dest: prefix_order.antisym)
  then show "dirs_to t F" using assms(1) by (auto simp: dirs_to_def simp flip: is_dir_view)
  have "is_dir (fs_view t F)" using assms(2) by (simp add: view_put_def)
  then show "is_dir (fs_lookup t F)" by simp
qed

text \<open>The place of the next entry of a directory.\<close>

lemma vacant_entry:
  assumes "vacant s F" "fs_view t = view_put F (Dir m es) (fs_view (tree s))" "x \<notin> fst ` set es" "is_name x"
  shows "vacant (s\<lparr>tree := t\<rparr>) (F @ [x])"
proof -
  have "dirs_to (tree s) F" using assms(1) by (simp add: vacant_def)
  then have "dirs_to t (F @ [x])" using dirs_to_view[OF _ assms(2)] by (simp add: dirs_to_snoc)
  moreover have "fs_view t (F @ [x]) = None"
    using assms(2,3) by (simp add: view_put_def map_of_eq_None_iff split: option.split)
  ultimately show ?thesis using assms(1,4) by (simp add: vacant_def)
qed

lemma run_createAndFill:
  assumes "vacant s F"
  shows "\<exists>t'. run_state (createAndFill (abs_path F) m (c, None)) s = (None, s\<lparr>tree := t'\<rparr>)
    \<and> fs_view t' = view_put F (File c (Perm m)) (fs_view (tree s))"
proof -
  have F: "names_path (abs_path F) F" "F \<noteq> []" "faults s = []" "dirs_to (tree s) F" "fs_lookup (tree s) F = None"
    using assms vacant_path[OF assms] by (auto simp: vacant_def)
  define m0 where "m0 = masked 438 (umask s)"
  define t1 where "t1 = fs_put F (File [] m0) (tree s)"
  define t2 where "t2 = fs_put F (File c m0) t1"
  define t3 where "t3 = fs_put F (File c (Perm m)) t2"
  have dirs: "dirs_to (fs_put F x t) F" if "dirs_to t F" for x t
    using that is_dir_put_above[of _ F t x] by (auto simp: dirs_to_def)
  have d: "dirs_to t1 F" "dirs_to t2 F" using F(4) dirs by (simp_all add: t1_def t2_def)
  have at: "fs_lookup (fs_put F x t) F = Some x" if "dirs_to t F" for x t
    using fs_lookup_put_below[OF F(2) dirs_to_parent[OF that F(2)], of x "[]"] by simp
  have l2: "fs_lookup t2 F = Some (File c m0)" using at[OF d(1)] by (simp add: t2_def)
  have "fs_append F c t1 = t2" using at[OF F(4)] by (simp add: fs_append_def t1_def t2_def)
  moreover have "s\<lparr>tree := t, faults := []\<rparr> = s\<lparr>tree := t\<rparr>" for t using F(3) by simp
  ultimately have copy: "run_state (io_Copy_data F (c, None)) (s\<lparr>tree := t1\<rparr>) = (Inr (), s\<lparr>tree := t2\<rparr>)"
    using F(3) by (simp add: io_Copy_data_def sys_Write_def)
  have "run_state (createAndFill (abs_path F) m (c, None)) s = (None, s\<lparr>tree := t3\<rparr>)"
    using run_Create[OF F(3,1,4,5), of 438] copy run_Chmod[of "s\<lparr>tree := t2\<rparr>" "abs_path F" F "File c m0" "Perm m"]
      F(1,3) d l2
    by (simp add: createAndFill_def m0_def[symmetric] t1_def[symmetric] t2_def[symmetric] t3_def[symmetric])
  moreover have "fs_view t3 = view_put F (File c (Perm m)) (fs_view (tree s))"
    using F(2,4) d by (simp add: t3_def t2_def t1_def view_put_tree)
  ultimately show ?thesis by blast
qed

lemma mkdirall_parent_name: "x \<noteq> [] \<Longrightarrow> slash \<notin> set x \<Longrightarrow> mkdirall_parent (a @ slash # x) = (if a = [] then None else Some a)"
proof -
  assume x: "x \<noteq> []" "slash \<notin> set x"
  then have "dropWhile (\<lambda>c. c = slash) (rev x @ slash # rev a) = rev x @ slash # rev a"
    by (cases "rev x") (auto dest: arg_cong[of _ _ set])
  moreover have "dropWhile (\<lambda>c. c \<noteq> slash) (rev x @ slash # rev a) = slash # rev a"
    using x(2) by (simp add: dropWhile_append3) (metis (mono_tags) dropWhile_append2 dropWhile.simps(2) set_rev)
  ultimately show ?thesis by (simp add: mkdirall_parent_def)
qed

lemma run_MkdirAll_new:
  assumes "vacant s F"
  shows "run_state (os_MkdirAll_at (abs_path F) m) s = (Inr (), s\<lparr>tree := fs_put F (Dir (masked m (umask s)) []) (tree s)\<rparr>)"
proof -
  have F: "names_path (abs_path F) F" "F \<noteq> []" "faults s = []" "dirs_to (tree s) F" "fs_lookup (tree s) F = None"
    using assms vacant_path[OF assms] by (auto simp: vacant_def)
  obtain F' x where Fx: "F = F' @ [x]" using F(2) by (cases F rule: rev_cases) auto
  have x: "x \<noteq> []" "slash \<notin> set x" "list_all is_name F'" using assms Fx by (auto simp: vacant_def is_name_def)
  have stat: "run_state (sys_Stat (abs_path F)) s = (Inl (fs_errno (tree s) F), s)"
    using namei_dirs_to[OF F(1,4), of True] F(5)
    by (simp add: sys_Stat_def read_call_def run_os_call[OF F(3)] os_Lstat_def)
  have mk: "run_state (sys_Mkdir (abs_path F) m) s = (Inr (), s\<lparr>tree := fs_put F (Dir (masked m (umask s)) []) (tree s)\<rparr>)"
    using run_Mkdir[OF F(3,1,4,5)] .
  have parent: "run_state (os_MkdirAll_at (abs_path F') m) s = (Inr (), s)" if "F' \<noteq> []"
  proof -
    have dir: "dirs_to (tree s) F'" "is_dir (fs_lookup (tree s) F')" using F(4) Fx by (auto simp: dirs_to_snoc)
    then obtain n where n: "fs_lookup (tree s) F' = Some n" "is_dir (Some n)" by (cases "fs_lookup (tree s) F'") auto
    have "names_path (abs_path F') F'" using x(3) by (simp add: names_path_def)
    then have "run_state (sys_Stat (abs_path F')) s = (Inr n, s)"
      using namei_dirs_to[of "abs_path F'" F' s True] dir n
      by (cases n) (simp_all add: sys_Stat_def read_call_def run_os_call[OF F(3)] os_Lstat_def)
    then show ?thesis using n by (subst os_MkdirAll_at.simps) simp
  qed
  have "mkdirall_parent (abs_path F) = (if F' = [] then None else Some (abs_path F'))"
    using mkdirall_parent_name[OF x(1,2), of "if F' = [] then [] else abs_path F'"] Fx
    by (auto simp: abs_path_append) (simp_all add: abs_path_def)
  then show ?thesis
    using stat mk parent by (subst os_MkdirAll_at.simps) (cases "F' = []"; simp)
qed

text \<open>Extraction of the entries of a tree makes the tree and goes on with the rest of the archive.\<close>

definition read_back :: "tar_entry \<Rightarrow> tar_header \<times> string \<times> errno option" where
  "read_back e = (fst e, snd e, None)"

definition untars :: "path \<Rightarrow> path \<Rightarrow> tar_entry list \<Rightarrow> node \<Rightarrow> bool" where
  "untars R F es n \<longleftrightarrow>
     (\<forall>s rest err. vacant s F \<longrightarrow>
        (\<exists>t'. run_state (UntarFiles (map read_back es @ rest, err) (abs_path R)) s
              = run_state (UntarFiles (rest, err) (abs_path R)) (s\<lparr>tree := t'\<rparr>)
            \<and> fs_view t' = view_put F (untarred (umask s) n) (fs_view (tree s))))"

lemma untarsD:
  assumes "untars R F es n" "vacant s F"
  obtains t' where "run_state (UntarFiles (map read_back es @ rest, err) (abs_path R)) s
      = run_state (UntarFiles (rest, err) (abs_path R)) (s\<lparr>tree := t'\<rparr>)"
    "fs_view t' = view_put F (untarred (umask s) n) (fs_view (tree s))"
  using assms unfolding untars_def by blast

text \<open>The entries of a directory, one after the other.\<close>

lemma untars_dir:
  assumes "\<And>x c. (x, c) \<in> set es \<Longrightarrow> untars R (F @ [x]) (g x c) c \<and> is_name x"
    and "distinct (map fst (es0 @ es))" "vacant s F"
    and "fs_view t = view_put F (Dir m (map (\<lambda>(x, c). (x, untarred (umask s) c)) es0)) (fs_view (tree s))"
  shows "\<exists>t'. run_state (UntarFiles (map read_back (concat (map (\<lambda>(x, c). g x c) es)) @ rest, err) (abs_path R)) (s\<lparr>tree := t\<rparr>)
              = run_state (UntarFiles (rest, err) (abs_path R)) (s\<lparr>tree := t'\<rparr>)
            \<and> fs_view t' = view_put F (Dir m (map (\<lambda>(x, c). (x, untarred (umask s) c)) (es0 @ es))) (fs_view (tree s))"
  using assms(1,2,4)
proof (induction es arbitrary: es0 t)
  case (Cons e es)
  obtain x c where e: "e = (x, c)" by fastforce
  let ?u = "\<lambda>(x, c). (x, untarred (umask s) c)"
  have x: "x \<notin> fst ` set (map ?u es0)" using Cons.prems(2) e by force
  have this_entry: "untars R (F @ [x]) (g x c) c" "is_name x" using Cons.prems(1) e by auto
  obtain t1 where t1: "run_state (UntarFiles (map read_back (g x c) @ map read_back (concat (map (\<lambda>(x, c). g x c) es)) @ rest, err)
        (abs_path R)) (s\<lparr>tree := t\<rparr>)
      = run_state (UntarFiles (map read_back (concat (map (\<lambda>(x, c). g x c) es)) @ rest, err) (abs_path R)) (s\<lparr>tree := t1\<rparr>)"
    "fs_view t1 = view_put (F @ [x]) (untarred (umask s) c) (fs_view t)"
    using untarsD[OF this_entry(1) vacant_entry[OF assms(3) Cons.prems(3) x this_entry(2)]] by auto
  have others: "untars R (F @ [y]) (g y d) d \<and> is_name y" if "(y, d) \<in> set es" for y d
    by (rule Cons.prems(1)) (use that in simp)
  have names: "distinct (map fst ((es0 @ [e]) @ es))" using Cons.prems(2) by simp
  have view: "fs_view t1 = view_put F (Dir m (map ?u (es0 @ [e]))) (fs_view (tree s))"
    using t1(2) view_put_entry[OF x, of F _ m] Cons.prems(3) e by simp
  show ?case
    using Cons.IH[OF others names view] t1(1) e by simp
qed (auto simp: map_append)

lemma Perm_idem [simp]: "Perm (Perm m) = Perm m"
  by (simp add: Perm_def ac_simps)

lemma untars_tree:
  assumes "list_all is_name (P @ M)" "list_all is_name R" "tree_ok n" "linkless n"
  shows "untars R (R @ M) (tar_tree P M n) n"
  using assms
proof (induction P M n rule: tar_tree.induct)
  case (1 P M m es)
  have names: "list_all is_name (R @ M)" using 1(2,3) by simp
  have sub: "untars R ((R @ M) @ [x]) (tar_tree P (M @ [x]) c) c \<and> is_name x" if "(x, c) \<in> set es" for x c
  proof -
    have "map_of es x = Some c" using that 1(4) by (simp add: map_of_eq_Some_iff)
    then have "is_name x" "tree_ok c" "linkless c"
      using that 1(4,5) linkless_child by (auto simp: list_all_iff)
    then show ?thesis using 1(1)[OF that refl] 1(2,3) by simp
  qed
  have name: "path_Join [abs_path R, entry_name P M] = abs_path (R @ M)"
    using path_Join_abs_path[OF 1(3), of "entry_name P M"] entry_name_comps[OF 1(2)] 1(2) by simp
  show ?case
    unfolding untars_def
  proof (intro allI impI)
    fix s rest err
    assume s: "vacant s (R @ M)"
    define m' where "m' = masked (Perm m) (umask s)"
    define t1 where "t1 = fs_put (R @ M) (Dir m' []) (tree s)"
    have v: "fs_view t1 = view_put (R @ M) (Dir m' []) (fs_view (tree s))"
      using s vacant_path[OF s] by (auto simp: t1_def vacant_def intro: view_put_tree)
    have "run_state (untar_entry (abs_path R) (read_back ((FileInfoHeader (Dir m es) [])\<lparr>th_name := entry_name P M\<rparr>, []))) s
        = (None, s\<lparr>tree := t1\<rparr>)"
      using run_MkdirAll_new[OF s, of "Perm m"] name by (simp add: untar_entry_def read_back_def Let_def t1_def m'_def)
    then show "\<exists>t'. run_state (UntarFiles (map read_back (tar_tree P M (Dir m es)) @ rest, err) (abs_path R)) s
              = run_state (UntarFiles (rest, err) (abs_path R)) (s\<lparr>tree := t'\<rparr>)
            \<and> fs_view t' = view_put (R @ M) (untarred (umask s) (Dir m es)) (fs_view (tree s))"
      using untars_dir[of es R "R @ M" "\<lambda>x c. tar_tree P (M @ [x]) c" "[]" s t1 m' rest err, OF sub _ s] 1(4) v
      by (simp add: m'_def)
  qed
next
  case (2 P M c m)
  have "path_Join [abs_path R, entry_name P M] = abs_path (R @ M)"
    using path_Join_abs_path[OF 2(2), of "entry_name P M"] entry_name_comps[OF 2(1)] 2(1) by simp
  then show ?case
    using run_createAndFill[of _ "R @ M" "Perm m" c]
    by (fastforce simp: untars_def untar_entry_def read_back_def Let_def)
qed simp

text \<open>(C6) Archiving a tree without links and extracting the archive restores it: \<^verbatim>\<open>TarFiles\<close> succeeds without
  changing any file and returns the checksum of what it wrote, and \<^verbatim>\<open>UntarFiles\<close> of the archive makes, below the output folder and at the path that is left
  after stripping, the same directories and files with the same contents and permissions (those of
  directories as the mask allows), and changes nothing else.\<close>

theorem Untar_after_Tar:
  assumes "faults s = []" "list_all is_name (P @ M)" "dirs_to (tree s) (P @ M)" "fs_lookup (tree s) (P @ M) = Some n"
    and "tree_ok n" "linkless n" "height n < fuel"
    and "list_all is_name R" "dirs_to (tree s) (R @ M)" "fs_lookup (tree s) (R @ M) = None"
  shows "\<exists>es t'. run_state (TarFiles sha1 tar_bytes fuel [abs_path (P @ M)] (tar_NewWriter []) (abs_path P)) s
        = ((Inr (EncodeToString (sha1 (tar_bytes es))), \<lparr>tw_entries = es, tw_faults = []\<rparr>), s)
    \<and> run_state (UntarFiles (map read_back es, None) (abs_path R)) s = (None, s\<lparr>tree := t'\<rparr>)
    \<and> (\<forall>q. fs_view t' q = (if prefix (R @ M) q then fs_view (untarred (umask s) n) (drop (length (R @ M)) q)
                            else fs_view (tree s) q))"
proof -
  have wrote: "appends s (writeContents fuel (abs_path P) (abs_path (P @ M))) (tar_tree P M n)"
    by (rule writeContents_appends) (use assms in auto)
  have "vacant s (R @ M)" using assms by (simp add: vacant_def)
  with untarsD[OF untars_tree[OF assms(2,8,5,6)] this, of "[]" None]
  obtain t' where "run_state (UntarFiles (map read_back (tar_tree P M n), None) (abs_path R)) s = (None, s\<lparr>tree := t'\<rparr>)"
    "fs_view t' = view_put (R @ M) (untarred (umask s) n) (fs_view (tree s))"
    by auto
  with wrote show ?thesis
    by (intro exI[of _ "tar_tree P M n"] exI[of _ t'])
      (simp add: appends_def TarFiles_def tarAndHashFiles_def tar_NewWriter_def tar_Close_def tar_call_def view_put_def)
qed

subsection \<open>Examples\<close>

definition tar_os :: os where
  "tar_os = \<lparr>tree = Dir 493 [(''src'', Dir 493 [(''d'', Dir 448 [(''f'', File ''data'' 384)]), (''l'', Link ''d/f'')]), (''out'', Dir 493 [])],
     cwd = [], umask = 18, faults = []\<rparr>"

definition tar_dir :: node where
  "tar_dir = Dir 448 [(''f'', File ''data'' 384)]"

lemma tar_os_ok:
  "dirs_to (tree tar_os) [''src'', ''d'']" "dirs_to (tree tar_os) [''out'', ''d'']" "linkless tar_dir"
proof -
  have "\<not> is_link (fs_lookup tar_dir q)" for q
    by (cases q; cases "tl q") (auto simp: tar_dir_def)
  then show "linkless tar_dir" by (simp add: linkless_def)
qed (auto simp: dirs_to_def strict_prefix_def prefix_Cons tar_os_def)

theorem Untar_after_Tar_witness:
  "\<exists>es t'. run_state (TarFiles id (\<lambda>es. ''tar'') 5 [abs_path [''src'', ''d'']] (tar_NewWriter []) (abs_path [''src''])) tar_os
      = ((Inr (EncodeToString ''tar''), \<lparr>tw_entries = es, tw_faults = []\<rparr>), tar_os)
    \<and> run_state (UntarFiles (map read_back es, None) (abs_path [''out''])) tar_os = (None, tar_os\<lparr>tree := t'\<rparr>)
    \<and> fs_view t' [''out'', ''d'', ''f''] = Some (File ''data'' 384)"
proof -
  have "faults tar_os = []" "list_all is_name ([''src''] @ [''d''])" "fs_lookup (tree tar_os) ([''src''] @ [''d'']) = Some tar_dir"
    "tree_ok tar_dir" "height tar_dir < 5" "list_all is_name [''out'']" "fs_lookup (tree tar_os) ([''out''] @ [''d'']) = None"
    "fs_view (untarred (umask tar_os) tar_dir) [''f''] = Some (File ''data'' 384)"
    by code_simp+
  with Untar_after_Tar[of tar_os "[''src'']" "[''d'']" tar_dir 5 "[''out'']" id "\<lambda>es. ''tar''"] tar_os_ok
  show ?thesis by fastforce
qed

definition tar_file :: "string \<Rightarrow> tar_header \<times> string \<times> errno option" where
  "tar_file name = (\<lparr>th_name = name, th_mode = 420, th_type = TypeReg, th_link = []\<rparr>, ''x'', None)"

theorem UntarFiles_confined_witness:
  "fs_view (tree (snd (run_state (UntarFiles ([tar_file ''f''], Some EIO) ''/out'') tar_os))) [''src'', ''d'', ''f'']
     = Some (File ''data'' 384)"
proof -
  have links: "no_links (path_comps ''/out'') (tree tar_os)"
  proof -
    have "path_comps ''/out'' = [''out'']" by code_simp
    moreover have "\<not> is_link (fs_lookup (tree tar_os) q)" if "\<not> q \<parallel> [''out'']" for q
      using that by (cases q; cases "tl q") (auto simp: tar_os_def parallel_def)
    ultimately show ?thesis by (simp add: no_links_def)
  qed
  have "root_ok ''/out''" "list_all (\<lambda>e. plain_entry (fst e)) (fst ([tar_file ''f''], Some EIO))"
    "\<not> prefix (path_comps ''/out'') [''src'', ''d'', ''f'']" "\<not> prefix [''src'', ''d'', ''f''] (path_comps ''/out'')"
    "fs_view (tree tar_os) [''src'', ''d'', ''f''] = Some (File ''data'' 384)"
    by code_simp+
  from UntarFiles_confined[OF this(1) links this(2) prod.collapse[symmetric] this(3)] this(4,5)
  show ?thesis by simp
qed

text \<open>Names are not checked, links are extracted with any target, and what follows is written through them:
  there are archives that write a file outside of the output folder.\<close>

lemma UntarFiles_escapes:
  "fs_view (tree (snd (run_state (UntarFiles ([tar_file ''../evil''], None) ''/out'') tar_os))) [''evil'']
     = Some (File ''x'' 420)"
  "fs_view (tree (snd (run_state (UntarFiles
        ([(\<lparr>th_name = ''l'', th_mode = 511, th_type = TypeSymlink, th_link = ''/src''\<rparr>, [], None), tar_file ''l/evil''], None)
        ''/out'') tar_os))) [''src'', ''evil'']
     = Some (File ''x'' 420)"
  by code_simp+

text \<open>A link is archived with the path it leads to, not with its own text.\<close>

lemma TarFiles_link:
  "map (th_link \<circ> fst) (tw_entries (snd (fst (run_state (TarFiles id (\<lambda>es. []) 5 [''/src/l''] (tar_NewWriter []) ''/src'') tar_os))))
     = [''/src/d/f'']"
  by code_simp

end
