(* ===== verification/Password.thy ===== *)
theory Password
  imports Base64 UUID
begin

text \<open>
  Passwords, salts and checksums (\<^verbatim>\<open>src/password.go\<close>, \<^verbatim>\<open>src/hash/writer.go\<close>, the digests of
  \<^verbatim>\<open>src/trivial.go\<close>). Arguments are what the source of random bytes returns and the hash functions:
  \<^verbatim>\<open>pbkdf2.Key\<close>, which returns as many bytes as it is asked for, and the hash of all data that
  were written to a hasher.
\<close>

subsection \<open>Random data\<close>

definition randomPasswordBytes :: nat where "randomPasswordBytes = 18"

definition MinAgentPasswordLength :: nat where
  "MinAgentPasswordLength = EncodedLen randomPasswordBytes"

text \<open>The bytes that \<^verbatim>\<open>io.ReadFull\<close> gets from the source are exactly as many as are asked for, or it
  fails.\<close>

type_synonym rand_reader = "nat \<Rightarrow> string + string"

definition full_reads :: "rand_reader \<Rightarrow> bool" where
  "full_reads rand \<longleftrightarrow> (\<forall>n b. rand n = Inr b \<longrightarrow> length b = n)"

definition RandomBytes :: "rand_reader \<Rightarrow> nat \<Rightarrow> string + string" where
  "RandomBytes rand n =
     (case rand n of Inl err \<Rightarrow> Inl (''cannot read random bytes: '' @ err) | Inr buf \<Rightarrow> Inr buf)"

definition RandomPassword :: "rand_reader \<Rightarrow> string + string" where
  "RandomPassword rand = map_sum id EncodeToString (RandomBytes rand randomPasswordBytes)"

definition RandomSalt :: "rand_reader \<Rightarrow> string + string" where
  "RandomSalt rand = map_sum id EncodeToString (RandomBytes rand 12)"

subsection \<open>Password hashes\<close>

type_synonym kdf = "string \<Rightarrow> string \<Rightarrow> nat \<Rightarrow> nat \<Rightarrow> string"

definition UserPasswordHash :: "kdf \<Rightarrow> bool \<Rightarrow> string \<Rightarrow> string \<Rightarrow> panic + string" where
  "UserPasswordHash pbkdf2_Key FastInsecureHash password salt =
     (if salt = [] then Inl (Panic ''salt is not allowed to be empty'')
      else let iter = (if FastInsecureHash then 1 else 8192) in
        Inr (EncodeToString (pbkdf2_Key password salt iter 18)))"

text \<open>Slicing more bytes than there are is a panic.\<close>

definition AgentPasswordHash :: "(string \<Rightarrow> string) \<Rightarrow> string \<Rightarrow> panic + string" where
  "AgentPasswordHash sha512 password =
     (let h = sha512 password in
      if length h < 18 then Inl (Panic ''slice bounds out of range'') else Inr (EncodeToString (take 18 h)))"



subsection \<open>HashingWriter\<close>

text \<open>A hasher is what has been written to it; the wrapped writer has a state of its own.\<close>

record 'w HashingWriter =
  wrapped :: 'w
  hasher :: string

definition NewHashingWriter :: "'w \<Rightarrow> string \<Rightarrow> 'w HashingWriter" where
  "NewHashingWriter writer hash = \<lparr>wrapped = writer, hasher = hash\<rparr>"

definition HashingWriter_Write ::
  "('w \<Rightarrow> string \<Rightarrow> (nat \<times> string option) \<times> 'w) \<Rightarrow> 'w HashingWriter \<Rightarrow> string \<Rightarrow> (nat \<times> string option) \<times> 'w HashingWriter" where
  "HashingWriter_Write Write h data =
     (let h = h\<lparr>hasher := hasher h @ data\<rparr>; (r, w) = Write (wrapped h) data in (r, h\<lparr>wrapped := w\<rparr>))"

definition HashingWriter_Sum :: "(string \<Rightarrow> string) \<Rightarrow> 'w HashingWriter \<Rightarrow> string" where
  "HashingWriter_Sum H h = H (hasher h)"

definition HashingWriter_Base64Sum :: "(string \<Rightarrow> string) \<Rightarrow> 'w HashingWriter \<Rightarrow> string" where
  "HashingWriter_Base64Sum H h = EncodeToString (HashingWriter_Sum H h)"

definition hex_string :: "string \<Rightarrow> string" where
  "hex_string s = concat (map (\<lambda>c. [hex_digit (of_char c div 16), hex_digit (of_char c mod 16)]) s)"

text \<open>The digits are read back to the bytes.\<close>

fun hex_bytes :: "string \<Rightarrow> string option" where
  "hex_bytes [] = Some []"
| "hex_bytes (x # y # s) =
     (case (fromHexChar x, fromHexChar y, hex_bytes s) of
        (Some a, Some b, Some r) \<Rightarrow> Some (char_of (a * 16 + b) # r) | _ \<Rightarrow> None)"
| "hex_bytes _ = None"

lemma hex_bytes_string [simp]: "hex_bytes (hex_string s) = Some s"
proof (induction s)
  case (Cons c s)
  have "of_char c div 16 < (16::nat)" "of_char c mod 16 < (16::nat)"
    using nat_of_char_less_256[of c] by (linarith, simp)
  then show ?case using Cons by (simp add: hex_string_def hex_digit_props mult.commute)
qed (simp add: hex_string_def)

definition HashingWriter_HexSum :: "(string \<Rightarrow> string) \<Rightarrow> 'w HashingWriter \<Rightarrow> string" where
  "HashingWriter_HexSum H h = hex_string (HashingWriter_Sum H h)"

text \<open>The digest of a source that is read to its end or to an error.\<close>

definition ReadSHA256 :: "(string \<Rightarrow> string) \<Rightarrow> string \<times> 'e option \<Rightarrow> 'e + string \<times> nat" where
  "ReadSHA256 sha256 source =
     (case snd source of
        Some err \<Rightarrow> Inl err
      | None \<Rightarrow> Inr (hex_string (sha256 (fst source)), length (fst source)))"

text \<open>A run of writes, with the results that are given back.\<close>

fun write_all ::
  "('w \<Rightarrow> string \<Rightarrow> (nat \<times> string option) \<times> 'w) \<Rightarrow> 'w \<Rightarrow> string list \<Rightarrow> (nat \<times> string option) list \<times> 'w" where
  "write_all Write w [] = ([], w)"
| "write_all Write w (d # ds) = (let (r, w) = Write w d; (rs, w) = write_all Write w ds in (r # rs, w))"

lemma write_all_HashingWriter:
  "write_all (HashingWriter_Write Write) h ds =
     (let (rs, w) = write_all Write (wrapped h) ds in (rs, \<lparr>wrapped = w, hasher = hasher h @ concat ds\<rparr>))"
proof (induction ds arbitrary: h)
  case (Cons d ds)
  obtain r w where "Write (wrapped h) d = (r, w)" by fastforce
  then have "HashingWriter_Write Write h d = (r, \<lparr>wrapped = w, hasher = hasher h @ d\<rparr>)"
    by (simp add: HashingWriter_Write_def)
  with \<open>Write (wrapped h) d = (r, w)\<close> show ?case
    by (simp add: Cons.IH split: prod.split)
qed simp

text \<open>(C28) A HashingWriter can be used in place of the writer it wraps: every sequence of writes has the same
  results and the same effect on the writer, failing writes included, and the checksum is the hash of
  all data that were given to it, in order; its printed forms determine the checksum.\<close>

theorem HashingWriter_transparent:
  assumes "write_all (HashingWriter_Write Write) (NewHashingWriter w []) ds = (rs, h)"
  shows "write_all Write w ds = (rs, wrapped h)
    \<and> HashingWriter_Sum H h = H (concat ds)
    \<and> DecodeString (HashingWriter_Base64Sum H h) = Some (H (concat ds))
    \<and> hex_bytes (HashingWriter_HexSum H h) = Some (H (concat ds))"
  using assms unfolding write_all_HashingWriter
  by (auto simp: NewHashingWriter_def HashingWriter_Sum_def HashingWriter_Base64Sum_def HashingWriter_HexSum_def
      Let_def split: prod.splits)

theorem HashingWriter_transparent_witness:
  "write_all (\<lambda>n d. if n < length d then ((n, Some ''disk full''), 0) else ((length d, None), n - length d)) 5 [''abc'', ''def'']
     = ([(3, None), (2, Some ''disk full'')], 0::nat)"
  using HashingWriter_transparent[of "\<lambda>n d. if n < length d then ((n, Some ''disk full''), 0) else ((length d, None), n - length d)"
      5 "[''abc'', ''def'']" "[(3, None), (2, Some ''disk full'')]" "\<lparr>wrapped = 0, hasher = ''abcdef''\<rparr>" id]
  by (simp add: HashingWriter_Write_def NewHashingWriter_def)

end
