(* ===== verification/Trivial.thy ===== *)
theory Trivial
  imports FileUtils Password
begin

text \<open>
  The helpers of \<^verbatim>\<open>src/trivial.go\<close> that work on files and on compressed data. The YAML encoder (\<^verbatim>\<open>goyaml\<close>) and the
  algorithms of \<^verbatim>\<open>compress/gzip\<close> are arguments.
\<close>

subsection \<open>Files\<close>

text \<open>\<^verbatim>\<open>O_WRONLY|O_CREATE\<close> without truncation, and a write at the beginning of the file.\<close>

definition sys_OpenWrite :: "string \<Rightarrow> nat \<Rightarrow> (errno + handle) io" where
  "sys_OpenWrite p mode = os_call (\<lambda>s. sum_bind (namei True p s) (\<lambda>q.
     case fs_lookup (tree s) q of
       Some (File _ _) \<Rightarrow> Inr (q, tree s)
     | _ \<Rightarrow> map_sum id (\<lambda>t. (q, t)) (os_WriteFile q [] (masked mode (umask s)) (tree s))))"

definition fs_overwrite :: "path \<Rightarrow> string \<Rightarrow> node \<Rightarrow> node" where
  "fs_overwrite q d t =
     (case fs_lookup t q of Some (File c m) \<Rightarrow> fs_put q (File (d @ drop (length d) c) m) t | _ \<Rightarrow> t)"

definition sys_WriteStart :: "handle \<Rightarrow> string \<Rightarrow> (errno + unit) io" where
  "sys_WriteStart h d = State (\<lambda>s.
     case faults s of
       Some (e, k) # fs \<Rightarrow> (Inl e, s\<lparr>tree := fs_overwrite h (take k d) (tree s), faults := fs\<rparr>)
     | _ \<Rightarrow> (Inr (), s\<lparr>tree := fs_overwrite h d (tree s), faults := tl (faults s)\<rparr>))"

datatype 'e yaml_error = YamlOs errno | YamlError 'e

definition WriteYaml :: "('v \<Rightarrow> 'e + string) \<Rightarrow> string \<Rightarrow> 'v \<Rightarrow> ('e yaml_error option) io" where
  "WriteYaml Marshal path obj =
     (case Marshal obj of
        Inl err \<Rightarrow> State_Monad.return (Some (YamlError err))
      | Inr data \<Rightarrow>
          do {
            let prep = path @ ''.preparing'';
            f \<leftarrow> sys_OpenWrite prep 420;
            (case f of
               Inl e \<Rightarrow> State_Monad.return (Some (YamlOs e))
             | Inr f \<Rightarrow>
                 do {
                   w \<leftarrow> sys_WriteStart f data;
                   (case w of
                      Inl e \<Rightarrow> State_Monad.return (Some (YamlOs e))
                    | Inr _ \<Rightarrow>
                        do {
                          r \<leftarrow> ReplaceFile prep path;
                          State_Monad.return (case r of Inl e \<Rightarrow> Some (YamlOs e) | Inr _ \<Rightarrow> None)
                        })
                 })
          })"

text \<open>A whole file is read through a handle.\<close>

definition ioutil_ReadFile :: "string \<Rightarrow> (errno + string) io" where
  "ioutil_ReadFile p =
     do {
       f \<leftarrow> sys_Open p;
       (case f of
          Inl e \<Rightarrow> State_Monad.return (Inl e)
        | Inr f \<Rightarrow> do { r \<leftarrow> sys_ReadAll f; State_Monad.return (case snd r of Some e \<Rightarrow> Inl e | None \<Rightarrow> Inr (fst r)) })
     }"

definition ReadYaml :: "(string \<Rightarrow> 'e + 'v) \<Rightarrow> string \<Rightarrow> ('e yaml_error + 'v) io" where
  "ReadYaml Unmarshal path =
     do {
       r \<leftarrow> ioutil_ReadFile path;
       State_Monad.return (case r of Inl e \<Rightarrow> Inl (YamlOs e) | Inr data \<Rightarrow> map_sum YamlError id (Unmarshal data))
     }"

definition ReadFileSHA256 :: "(string \<Rightarrow> string) \<Rightarrow> string \<Rightarrow> (errno + string \<times> nat) io" where
  "ReadFileSHA256 sha256 filename =
     do {
       f \<leftarrow> sys_Open filename;
       (case f of
          Inl e \<Rightarrow> State_Monad.return (Inl e)
        | Inr f \<Rightarrow> do { r \<leftarrow> sys_ReadAll f; State_Monad.return (ReadSHA256 sha256 r) })
     }"

subsection \<open>Compression\<close>

text \<open>Writing to a buffer does not fail, so that \<^verbatim>\<open>Gzip\<close> does not panic.\<close>

definition Gzip :: "(string \<Rightarrow> 'e + string) \<Rightarrow> string \<Rightarrow> 'e + string" where
  "Gzip deflate data = deflate data"

definition Gunzip :: "(string \<Rightarrow> 'e + string) \<Rightarrow> (string \<Rightarrow> string \<times> 'e option) \<Rightarrow> string \<Rightarrow> 'e + string" where
  "Gunzip NewReader inflate data =
     (case NewReader data of
        Inl err \<Rightarrow> Inl err
      | Inr r \<Rightarrow> (case inflate r of (d, Some err) \<Rightarrow> Inl err | (d, None) \<Rightarrow> Inr d))"

subsection \<open>Properties\<close>

text \<open>At the name that is used for preparation there is nothing, or a file of at most the given length.\<close>

definition prep_ok :: "os \<Rightarrow> path \<Rightarrow> nat \<Rightarrow> bool" where
  "prep_ok s q k \<longleftrightarrow>
     (case fs_lookup (tree s) q of None \<Rightarrow> True | Some (File c _) \<Rightarrow> length c \<le> k | _ \<Rightarrow> False)"

lemma dirs_to_put: "dirs_to t p \<Longrightarrow> \<not> strict_prefix q p \<Longrightarrow> dirs_to (fs_put q c t) p"
  unfolding dirs_to_def
proof (intro allI impI)
  fix r
  assume t: "\<forall>r. strict_prefix r p \<longrightarrow> is_dir (fs_lookup t r)" "\<not> strict_prefix q p" and r: "strict_prefix r p"
  then have "\<not> prefix q r" by (metis prefix_order.le_less_trans)
  then show "is_dir (fs_lookup (fs_put q c t) r)"
    using t r is_dir_put_above[of r q t c] fs_lookup_put_other[of q r c t] by (cases "prefix r q") (auto simp: strict_prefix_def)
qed

lemma lookup_put_at: "p \<noteq> [] \<Longrightarrow> dirs_to t p \<Longrightarrow> fs_lookup (fs_put p c t) p = Some c"
  using fs_lookup_put_below[of p t c "[]"] dirs_to_parent[of t p] by simp

lemma dirs_to_del_sibling: "dirs_to t (B @ [y]) \<Longrightarrow> dirs_to (fs_del (B @ [z]) t) (B @ [y])"
  unfolding dirs_to_def
proof (intro allI impI)
  fix q
  assume t: "\<forall>q. strict_prefix q (B @ [y]) \<longrightarrow> is_dir (fs_lookup t q)" and q: "strict_prefix q (B @ [y])"
  then have "prefix q B" by (auto simp: strict_prefix_def prefix_snoc)
  then have "strict_prefix q (B @ [z])" by (auto simp: strict_prefix_def prefix_snoc dest: prefix_length_le)
  then show "is_dir (fs_lookup (fs_del (B @ [z]) t) q)" using t q is_dir_del_above by blast
qed

text \<open>The preparation: a file with the new contents, next to the old one.\<close>

lemma run_prepare:
  assumes "faults s = []" "names_path p T" "dirs_to (tree s) T" "T \<noteq> []" "prep_ok s T (length d)"
  shows "\<exists>t m. (t = tree s \<or> (\<exists>n. t = fs_put T n (tree s)))
    \<and> run_state (sys_OpenWrite p 420) s = (Inr T, s\<lparr>tree := t\<rparr>)
    \<and> run_state (sys_WriteStart T d) (s\<lparr>tree := t\<rparr>) = (Inr (), s\<lparr>tree := fs_put T (File d m) t\<rparr>)"
proof -
  have T: "namei True p s = Inr T"
    using assms(5) by (intro namei_dirs_to[OF assms(2,3)]) (auto simp: prep_ok_def split: option.splits node.splits)
  obtain t c m where o: "run_state (sys_OpenWrite p 420) s = (Inr T, s\<lparr>tree := t\<rparr>)" "fs_lookup t T = Some (File c m)"
    "length c \<le> length d" "t = tree s \<or> (\<exists>n. t = fs_put T n (tree s))"
  proof (cases "fs_lookup (tree s) T")
    case None
    let ?t = "fs_put T (File [] (masked 420 (umask s))) (tree s)"
    have "run_state (sys_OpenWrite p 420) s = (Inr T, s\<lparr>tree := ?t\<rparr>)"
      using T None dirs_to_parent[OF assms(3,4)] by (simp add: sys_OpenWrite_def run_os_call[OF assms(1)] os_WriteFile_def)
    then show thesis using that[of ?t "[]"] lookup_put_at[OF assms(4,3)] by auto
  next
    case (Some n)
    then obtain c m where n: "n = File c m" "length c \<le> length d" using assms(5) by (auto simp: prep_ok_def split: node.splits)
    then have "run_state (sys_OpenWrite p 420) s = (Inr T, s\<lparr>tree := tree s\<rparr>)"
      using T Some by (simp add: sys_OpenWrite_def run_os_call[OF assms(1)])
    then show thesis using that[of "tree s"] Some n by auto
  qed
  have "s\<lparr>tree := u, faults := []\<rparr> = s\<lparr>tree := u\<rparr>" for u using assms(1) by simp
  then have "run_state (sys_WriteStart T d) (s\<lparr>tree := t\<rparr>) = (Inr (), s\<lparr>tree := fs_put T (File d m) t\<rparr>)"
    using o(2,3) assms(1) by (simp add: sys_WriteStart_def fs_overwrite_def)
  with o show ?thesis by (intro exI[of _ t] exI[of _ m]) simp
qed

text \<open>An object that was written as YAML is read back, when no call fails, the encoder reads what it has written, and
  no longer file was left under the name that is used for preparation. That name is then free again.\<close>

theorem ReadYaml_after_WriteYaml:
  assumes "faults s = []" "list_all is_name (B @ [x])" "dirs_to (tree s) (B @ [x])"
    and "fs_lookup (tree s) (B @ [x]) = None \<or> (\<exists>c m. fs_lookup (tree s) (B @ [x]) = Some (File c m))"
    and "Marshal obj = Inr data" "Unmarshal data = Inr obj" "prep_ok s (B @ [x @ ''.preparing'']) (length data)"
  shows "\<exists>s'. run_state (WriteYaml Marshal (abs_path (B @ [x])) obj) s = (None, s')
    \<and> run_state (ReadYaml Unmarshal (abs_path (B @ [x]))) s' = (Inr obj, s')
    \<and> fs_lookup (tree s') (B @ [x @ ''.preparing'']) = None"
proof -
  let ?F = "B @ [x]" and ?T = "B @ [x @ ''.preparing'']"
  let ?prep = "abs_path ?F @ ''.preparing''"
  have prep: "?prep = abs_path ?T"
    using assms(2) by (cases "B = []") (simp_all add: abs_path_def strings_Join_snoc)
  have names: "names_path (abs_path ?F) ?F" "names_path ?prep ?T"
    using assms(2) by (auto simp: names_path_def prep is_name_def dotdot_def dot_def slash_def)
  have dirs: "dirs_to (tree s) ?T" "is_dir (fs_lookup (tree s) B)" using assms(3) by (simp_all add: dirs_to_snoc)
  have par: "?F \<parallel> ?T" "?T \<noteq> []" "?F \<noteq> []" by (auto simp: parallel_def)
  obtain t m where t: "t = tree s \<or> (\<exists>n. t = fs_put ?T n (tree s))"
    and run1: "run_state (sys_OpenWrite ?prep 420) s = (Inr ?T, s\<lparr>tree := t\<rparr>)"
    and run2: "run_state (sys_WriteStart ?T data) (s\<lparr>tree := t\<rparr>) = (Inr (), s\<lparr>tree := fs_put ?T (File data m) t\<rparr>)"
    using run_prepare[OF assms(1) names(2) dirs(1) par(2) assms(7)] by blast
  define t2 where "t2 = fs_put ?T (File data m) t"
  have ns: "\<not> strict_prefix ?T ?F" "\<not> strict_prefix ?T ?T" by (auto simp: strict_prefix_def)
  have d2: "dirs_to t2 ?F" "dirs_to t2 ?T" "dirs_to t ?T"
    using t assms(3) dirs(1) dirs_to_put[OF _ ns(1)] dirs_to_put[OF _ ns(2)] by (auto simp: t2_def)
  have F2: "fs_lookup t2 ?F = fs_lookup (tree s) ?F" using t par(1) by (auto simp: t2_def lookup_put_parallel)
  have T2: "fs_lookup t2 ?T = Some (File data m)" using lookup_put_at[OF par(2) d2(3)] by (simp add: t2_def)
  define t3 where "t3 = fs_put ?F (File data m) (fs_del ?T t2)"
  have "is_dir (fs_lookup t2 (butlast ?F))" "\<not> prefix ?T ?F" using d2(1) par by (auto simp: dirs_to_snoc parallel_def)
  then have "os_Rename ?T ?F t2 = Inr t3"
    using T2 F2 assms(4) by (auto simp: os_Rename_def t3_def)
  moreover have "namei False ?prep (s\<lparr>tree := t2\<rparr>) = Inr ?T" "namei False (abs_path ?F) (s\<lparr>tree := t2\<rparr>) = Inr ?F"
    using namei_dirs_to[OF names(2), of "s\<lparr>tree := t2\<rparr>" False] namei_dirs_to[OF names(1), of "s\<lparr>tree := t2\<rparr>" False] d2 by auto
  ultimately have run3: "run_state (ReplaceFile ?prep (abs_path ?F)) (s\<lparr>tree := t2\<rparr>) = (Inr (), s\<lparr>tree := t3\<rparr>)"
    using assms(1) by (simp add: ReplaceFile_def sys_Rename_def write_call_def run_os_call)
  have dir3: "dirs_to (fs_del ?T t2) ?F"
    using d2(1) by (rule dirs_to_del_sibling)
  then have F3: "fs_lookup t3 ?F = Some (File data m)" "dirs_to t3 ?F"
    using lookup_put_at[OF par(3)] dirs_to_put[of _ ?F ?F] by (auto simp: t3_def)
  have "fs_lookup t3 ?T = None"
    using par(1) fs_lookup_del_below[OF par(2), of t2 "[]"] by (simp add: t3_def lookup_put_parallel parallel_commute)
  moreover have "run_state (WriteYaml Marshal (abs_path ?F) obj) s = (None, s\<lparr>tree := t3\<rparr>)"
    using run1 run2 run3 assms(5) by (simp add: WriteYaml_def Let_def t2_def)
  moreover have "run_state (ReadYaml Unmarshal (abs_path ?F)) (s\<lparr>tree := t3\<rparr>) = (Inr obj, s\<lparr>tree := t3\<rparr>)"
    using run_Open[of "s\<lparr>tree := t3\<rparr>" "abs_path ?F" ?F "File data m"] names(1) F3 assms(1,6)
    by (simp add: ReadYaml_def ioutil_ReadFile_def sys_ReadAll_def Let_def)
  ultimately show ?thesis by (intro exI[of _ "s\<lparr>tree := t3\<rparr>"]) simp
qed

definition yaml_os :: "string \<Rightarrow> os" where
  "yaml_os left = \<lparr>tree = Dir 493 [(''y'', File ''old'' 420), (''y.preparing'', File left 420)], cwd = [], umask = 18, faults = []\<rparr>"

text \<open>A longer file that was left under the name used for preparation, by a process that was
  interrupted, is not truncated: its end becomes the end of the new file.\<close>

lemma WriteYaml_leftover:
  "fs_view (tree (snd (run_state (WriteYaml (\<lambda>v::string. Inr v :: unit + string) ''/y'' ''a: 1'') (yaml_os ''b'')))) [''y''] = Some (File ''a: 1'' 420)"
  "fs_view (tree (snd (run_state (WriteYaml (\<lambda>v::string. Inr v :: unit + string) ''/y'' ''a: 1'') (yaml_os ''bb: 22'')))) [''y''] = Some (File ''a: 122'' 420)"
  by code_simp+

theorem ReadYaml_after_WriteYaml_witness:
  "\<exists>s'. run_state (WriteYaml (\<lambda>v::string. Inr v :: unit + string) (abs_path ([] @ [''y''])) ''a: 1'') (yaml_os ''b'') = (None, s')
    \<and> run_state (ReadYaml (\<lambda>v. Inr v :: unit + string) (abs_path ([] @ [''y'']))) s' = (Inr ''a: 1'', s')"
proof -
  have "dirs_to (tree (yaml_os ''b'')) [''y'']" by (auto simp: dirs_to_def strict_prefix_def prefix_Cons yaml_os_def)
  then show ?thesis
    using ReadYaml_after_WriteYaml[of "yaml_os ''b''" "[]" "''y''" "\<lambda>v::string. Inr v :: unit + string" "''a: 1''" "''a: 1''" "\<lambda>v. Inr v"]
    by (auto simp: yaml_os_def is_name_def dot_def dotdot_def slash_def prep_ok_def)
qed

end
