(* ===== verification/Exec.thy ===== *)
theory Exec
  imports Prelude
begin

text \<open>
  Execution of commands by a shell (\<^verbatim>\<open>src/exec/exec.go\<close>, \<^verbatim>\<open>src/command.go\<close>, \<^verbatim>\<open>src/isubuntu.go\<close>). What a process does belongs to the
  operating system and is an argument: starting a command fails, or gives a process with all it will
  write and the way it ends.
\<close>

subsection \<open>os/exec\<close>

record Cmd =
  cmd_path :: string
  cmd_args :: "string list"
  cmd_env :: "string list option"
  cmd_dir :: string
  cmd_stdin :: string

definition exec_Command :: "string \<Rightarrow> string list \<Rightarrow> Cmd" where
  "exec_Command name arg = \<lparr>cmd_path = name, cmd_args = arg, cmd_env = None, cmd_dir = [], cmd_stdin = []\<rparr>"

text \<open>The wait status of a process that has ended, and the errors of \<^verbatim>\<open>Wait\<close>.\<close>

datatype wait_status = Exited int | Signaled nat

datatype exec_error =
    StartError string
  | ExitError wait_status
  | WaitError string
  | NoProcessStarted
  | NotStarted
  | WaitCalled

record process =
  out_data :: string
  err_data :: string
  wait_result :: "exec_error option"

type_synonym starter = "Cmd \<Rightarrow> string + process"

text \<open>\<^verbatim>\<open>CombinedOutput\<close> starts a command and waits for it. The two outputs of a process are one here.\<close>

definition CombinedOutput :: "starter \<Rightarrow> Cmd \<Rightarrow> string \<times> exec_error option" where
  "CombinedOutput start cmd =
     (case start cmd of Inl err \<Rightarrow> ([], Some (StartError err)) | Inr p \<Rightarrow> (out_data p, wait_result p))"

definition RunCommand :: "starter \<Rightarrow> string \<Rightarrow> string list \<Rightarrow> string \<times> exec_error option" where
  "RunCommand start command args = (let (out, err) = CombinedOutput start (exec_Command command args) in (out, err))"

definition IsUbuntu :: "starter \<Rightarrow> bool" where
  "IsUbuntu start =
     (let (out, err) = RunCommand start ''lsb_release'' [''-i'', ''-s''] in
      if err \<noteq> None then False else strings_TrimSpace out = ''Ubuntu'')"

subsection \<open>Environments\<close>

text \<open>The loops that fill the map; an entry without an equals sign has no second part to index.\<close>

fun add_environ :: "string list \<Rightarrow> (string, string) mapping \<Rightarrow> panic + (string, string) mapping" where
  "add_environ [] m = Inr m"
| "add_environ (val # vals) m =
     (case strings_SplitN2 CHR ''='' val of
        [k, v] \<Rightarrow> add_environ vals (Mapping.update k v m)
      | _ \<Rightarrow> Inl (Panic ''index out of range''))"

text \<open>\<open>ks\<close> is the order in which the map is visited.\<close>

definition mergeEnvironment ::
  "string list \<Rightarrow> ((string, string) mapping \<Rightarrow> string list) \<Rightarrow> string list option \<Rightarrow> panic + string list option" where
  "mergeEnvironment environ ks env =
     (case env of
        None \<Rightarrow> Inr None
      | Some env \<Rightarrow>
          sum_bind (add_environ environ Mapping.empty) (\<lambda>m.
          sum_bind (add_environ env m) (\<lambda>m.
            let tmpEnv = map (\<lambda>key. key @ ''='' @ (case Mapping.lookup m key of Some v \<Rightarrow> v | None \<Rightarrow> [])) (ks m)
            in Inr (if tmpEnv = [] then None else Some tmpEnv))))"

subsection \<open>Running\<close>

datatype GOOS = Windows | Unix

definition shellAndArgs :: "GOOS \<Rightarrow> string \<times> string list" where
  "shellAndArgs goos =
     (let com = (case goos of
          Windows \<Rightarrow> [''powershell.exe'', ''-noprofile'', ''-noninteractive'', ''-command'',
            ''try{$input|iex; exit $LastExitCode}catch{Write-Error -Message $Error[0]; exit 1}'']
        | Unix \<Rightarrow> [''/bin/bash'', ''-s'']) in
      (hd com, tl com))"

record ExecResponse =
  Code :: int
  Stdout :: string
  Stderr :: string

text \<open>The process of a command that was started, and whether it was waited for; nothing when starting
  it failed.\<close>

record RunParams =
  Commands :: string
  WorkingDir :: string
  Environment :: "string list option"
  r_stdout :: string
  r_stderr :: string
  r_ps :: "(Cmd \<times> (process \<times> bool) option) option"

definition RunParams_Run ::
  "GOOS \<Rightarrow> string list \<Rightarrow> ((string, string) mapping \<Rightarrow> string list) \<Rightarrow> starter \<Rightarrow> RunParams
   \<Rightarrow> panic + exec_error option \<times> RunParams" where
  "RunParams_Run goos environ ks start r =
     sum_bind (if goos = Windows then mergeEnvironment environ ks (Environment r) else Inr (Environment r)) (\<lambda>env.
       let r = r\<lparr>Environment := env\<rparr>;
           (shell, args) = shellAndArgs goos;
           cmd = exec_Command shell args;
           cmd = (if Environment r \<noteq> None then cmd\<lparr>cmd_env := Environment r\<rparr> else cmd);
           cmd = (if WorkingDir r \<noteq> [] then cmd\<lparr>cmd_dir := WorkingDir r\<rparr> else cmd);
           cmd = cmd\<lparr>cmd_stdin := Commands r\<rparr>;
           r = r\<lparr>r_stdout := [], r_stderr := []\<rparr>
       in Inr (case start cmd of
                 Inl err \<Rightarrow> (Some (StartError err), r\<lparr>r_ps := Some (cmd, None)\<rparr>)
               | Inr p \<Rightarrow> (None, r\<lparr>r_ps := Some (cmd, Some (p, False))\<rparr>)))"

definition RunParams_Process :: "RunParams \<Rightarrow> process option" where
  "RunParams_Process r = (case r_ps r of Some (_, Some (p, _)) \<Rightarrow> Some p | _ \<Rightarrow> None)"

text \<open>\<^verbatim>\<open>Wait\<close> of a command: the buffers are filled when it returns.\<close>

definition Cmd_Wait :: "RunParams \<Rightarrow> exec_error option \<times> RunParams" where
  "Cmd_Wait r =
     (case r_ps r of
        Some (cmd, Some (p, False)) \<Rightarrow>
          (wait_result p, r\<lparr>r_stdout := r_stdout r @ out_data p, r_stderr := r_stderr r @ err_data p, r_ps := Some (cmd, Some (p, True))\<rparr>)
      | Some (_, Some (_, True)) \<Rightarrow> (Some WaitCalled, r)
      | _ \<Rightarrow> (Some NotStarted, r))"

definition RunParams_Wait :: "RunParams \<Rightarrow> (ExecResponse option \<times> exec_error option) \<times> RunParams" where
  "RunParams_Wait r =
     (if r_ps r = None then ((None, Some NoProcessStarted), r)
      else
        let (err, r) = Cmd_Wait r;
            result = \<lparr>Code = 0, Stdout = r_stdout r, Stderr = r_stderr r\<rparr>
        in case err of
             Some (ExitError (Exited n)) \<Rightarrow> ((Some (result\<lparr>Code := n\<rparr>), None), r)
           | _ \<Rightarrow> ((Some result, err), r))"

definition RunCommands ::
  "GOOS \<Rightarrow> string list \<Rightarrow> ((string, string) mapping \<Rightarrow> string list) \<Rightarrow> starter \<Rightarrow> RunParams
   \<Rightarrow> panic + ExecResponse option \<times> exec_error option" where
  "RunCommands goos environ ks start run =
     sum_bind (RunParams_Run goos environ ks start run) (\<lambda>(err, run).
       if err \<noteq> None then Inr (None, err) else Inr (fst (RunParams_Wait run)))"

subsection \<open>Properties\<close>

lemma add_environ_lookup:
  "add_environ es m = Inr m' \<Longrightarrow> Mapping.lookup m' = Mapping.lookup m ++ env_of (rev es)"
proof (induction es arbitrary: m)
  case (Cons e es)
  then obtain k v where kv: "strings_SplitN2 CHR ''='' e = [k, v]" "add_environ es (Mapping.update k v m) = Inr m'"
    by (auto split: list.splits)
  then have "env_of (rev (e # es)) = [k \<mapsto> v] ++ env_of (rev es)" by (simp add: env_of_append)
  then show ?case
    using Cons.IH[OF kv(2)] by (simp add: Mapping.lookup_update' fun_eq_iff map_add_def split: option.split)
qed (simp add: map_add_def)

lemma add_environ_ok: "\<forall>e \<in> set es. CHR ''='' \<in> set e \<Longrightarrow> \<exists>m'. add_environ es m = Inr m'"
proof (induction es arbitrary: m)
  case (Cons e es)
  then show ?case by (cases rule: strings_SplitN2_cases[of "CHR ''=''" e]) auto
qed simp

lemma add_environ_panic:
  "e \<in> set es \<Longrightarrow> CHR ''='' \<notin> set e \<Longrightarrow> add_environ es m = Inl (Panic ''index out of range'')"
proof (induction es arbitrary: m)
  case (Cons d es)
  then show ?case
    by (cases rule: strings_SplitN2_cases[of "CHR ''=''" d]) (auto simp: strings_SplitN2_no_sep)
qed simp

lemma env_of_printed:
  "\<forall>k \<in> set ks. CHR ''='' \<notin> set k \<Longrightarrow>
   env_of (map (\<lambda>k. k @ ''='' @ f k) ks) = (\<lambda>k. if k \<in> set ks then Some (f k) else None)"
  by (induction ks) (auto simp: env_of_entry simp del: env_of.simps(2))

text \<open>Merging entries that all have an equals sign.\<close>

lemma mergeEnvironment_env:
  assumes "\<forall>m. finite (Mapping.keys m) \<longrightarrow> range_order (Some m) (ks m)" "\<forall>e \<in> set (environ @ env). CHR ''='' \<in> set e"
  shows "\<exists>merged. mergeEnvironment environ ks (Some env) = Inr merged
    \<and> env_of (case merged of None \<Rightarrow> [] | Some es \<Rightarrow> es) = env_of (rev environ) ++ env_of (rev env)"
proof -
  obtain m1 where m1: "add_environ environ Mapping.empty = Inr m1"
    using assms(2) add_environ_ok[of environ Mapping.empty] by auto
  obtain m where m: "add_environ env m1 = Inr m" using assms(2) add_environ_ok[of env m1] by auto
  let ?f = "\<lambda>key. case Mapping.lookup m key of Some v \<Rightarrow> v | None \<Rightarrow> []"
  have look: "Mapping.lookup m = env_of (rev environ) ++ env_of (rev env)"
    using add_environ_lookup[OF m] add_environ_lookup[OF m1] by simp
  then have keys: "Mapping.keys m = dom (env_of (rev environ)) \<union> dom (env_of (rev env))"
    by (auto simp: keys_dom_lookup)
  then have order: "set (ks m) = Mapping.keys m"
    using assms(1)[rule_format, of m] finite_env_of by (simp add: range_order_def)
  have "env_of (map (\<lambda>k. k @ ''='' @ ?f k) (ks m)) = (\<lambda>k. if k \<in> set (ks m) then Some (?f k) else None)"
  proof (rule env_of_printed)
    show "\<forall>k \<in> set (ks m). CHR ''='' \<notin> set k" using order keys env_of_keys by blast
  qed
  also have "\<dots> = Mapping.lookup m"
    by (auto simp: order keys_dom_lookup fun_eq_iff split: option.split)
  finally have "env_of (map (\<lambda>k. k @ ''='' @ ?f k) (ks m)) = env_of (rev environ) ++ env_of (rev env)"
    using look by simp
  then show ?thesis using m1 m by (auto simp: mergeEnvironment_def Let_def)
qed

text \<open>The merged environment has, for every variable, the value of the given entries, or else that of the
  current environment; where a list has several entries for a variable the last one counts. Merging
  panics exactly when there is an entry without an equals sign, and leaves a nil environment alone.\<close>

theorem mergeEnvironment_merges:
  assumes "\<forall>m. finite (Mapping.keys m) \<longrightarrow> range_order (Some m) (ks m)"
  shows "(if \<exists>e \<in> set (environ @ env). CHR ''='' \<notin> set e
      then mergeEnvironment environ ks (Some env) = Inl (Panic ''index out of range'')
      else \<exists>merged. mergeEnvironment environ ks (Some env) = Inr merged
        \<and> env_of (case merged of None \<Rightarrow> [] | Some es \<Rightarrow> es) = env_of (rev environ) ++ env_of (rev env))
    \<and> mergeEnvironment environ ks None = Inr None"
proof (cases "\<exists>e \<in> set (environ @ env). CHR ''='' \<notin> set e")
  case True
  have "add_environ environ Mapping.empty = Inl (Panic ''index out of range'')
    \<or> (\<exists>m. add_environ environ Mapping.empty = Inr m \<and> add_environ env m = Inl (Panic ''index out of range''))"
    using True add_environ_panic add_environ_ok[of environ Mapping.empty] by (metis UnE set_append)
  then show ?thesis using True by (auto simp: mergeEnvironment_def)
next
  case False
  then show ?thesis using mergeEnvironment_env[OF assms, of environ env] by (auto simp: mergeEnvironment_def)
qed

theorem mergeEnvironment_merges_witness:
  "\<exists>merged. mergeEnvironment [''A=1'', ''B=2''] (\<lambda>m. sorted_list_of_set (Mapping.keys m)) (Some [''B=3'']) = Inr merged
    \<and> env_of (case merged of None \<Rightarrow> [] | Some es \<Rightarrow> es) = env_of (rev [''A=1'', ''B=2'']) ++ env_of (rev [''B=3''])"
proof -
  have "\<forall>m::(string, string) mapping. finite (Mapping.keys m) \<longrightarrow> range_order (Some m) (sorted_list_of_set (Mapping.keys m))"
    by (simp add: range_order_def)
  from mergeEnvironment_merges[OF this, of "[''A=1'', ''B=2'']" "[''B=3'']"] show ?thesis by simp
qed

text \<open>The entries that Windows keeps for the current directories of drives start with an equals sign: they
  share the empty name, and only one of them is left.\<close>

lemma mergeEnvironment_drives:
  "map_sum id (map_option (map (\<lambda>e. e = ''=D:=x''))) (mergeEnvironment [''=C:=c'', ''=D:=x''] (\<lambda>m. [[]]) (Some [])) = Inr (Some [True])"
  by code_simp

text \<open>Commands run by the shell: the text of the commands is its input, the environment and the working
  directory are used when they are given, and an exit status is no error while other ends are.\<close>

lemma RunParams_Run_Unix:
  "RunParams_Run Unix environ ks start run =
     (let cmd = \<lparr>cmd_path = ''/bin/bash'', cmd_args = [''-s''], cmd_env = Environment run, cmd_dir = WorkingDir run,
                 cmd_stdin = Commands run\<rparr>;
          r = run\<lparr>r_stdout := [], r_stderr := []\<rparr>
      in Inr (case start cmd of
                Inl err \<Rightarrow> (Some (StartError err), r\<lparr>r_ps := Some (cmd, None)\<rparr>)
              | Inr p \<Rightarrow> (None, r\<lparr>r_ps := Some (cmd, Some (p, False))\<rparr>)))"
  by (cases run; cases "Environment run"; cases "WorkingDir run = []")
    (simp_all add: RunParams_Run_def shellAndArgs_def exec_Command_def Let_def split: sum.split)

theorem RunCommands_outcome:
  "RunCommands Unix environ ks start run =
     (case start \<lparr>cmd_path = ''/bin/bash'', cmd_args = [''-s''], cmd_env = Environment run, cmd_dir = WorkingDir run,
                 cmd_stdin = Commands run\<rparr> of
        Inl err \<Rightarrow> Inr (None, Some (StartError err))
      | Inr p \<Rightarrow>
          let resp = \<lparr>Code = 0, Stdout = out_data p, Stderr = err_data p\<rparr> in
          Inr (case wait_result p of
                 None \<Rightarrow> (Some resp, None)
               | Some (ExitError (Exited n)) \<Rightarrow> (Some (resp\<lparr>Code := n\<rparr>), None)
               | Some e \<Rightarrow> (Some resp, Some e)))"
  unfolding RunCommands_def RunParams_Run_Unix Let_def
  by (simp add: RunParams_Wait_def Cmd_Wait_def Let_def split: sum.split option.split exec_error.split wait_status.split)

text \<open>The command that is started for an environment that is not nil.\<close>

lemma RunParams_Run_env:
  assumes "(if goos = Windows then mergeEnvironment environ ks (Environment run) else Inr (Environment run)) = Inr (Some es)"
  shows "\<exists>err run' cmd started. RunParams_Run goos environ ks start run = Inr (err, run')
    \<and> r_ps run' = Some (cmd, started) \<and> cmd_stdin cmd = Commands run \<and> cmd_env cmd = Some es"
proof -
  obtain shell args where sh: "shellAndArgs goos = (shell, args)" by force
  define cmd where "cmd = (let c = exec_Command shell args\<lparr>cmd_env := Some es\<rparr> in
    (if WorkingDir run \<noteq> [] then c\<lparr>cmd_dir := WorkingDir run\<rparr> else c)\<lparr>cmd_stdin := Commands run\<rparr>)"
  have cmd: "cmd_stdin cmd = Commands run" "cmd_env cmd = Some es" by (simp_all add: cmd_def Let_def)
  have "RunParams_Run goos environ ks start run =
      Inr (let r = run\<lparr>Environment := Some es, r_stdout := [], r_stderr := []\<rparr> in
        case start cmd of
          Inl err \<Rightarrow> (Some (StartError err), r\<lparr>r_ps := Some (cmd, None)\<rparr>)
        | Inr p \<Rightarrow> (None, r\<lparr>r_ps := Some (cmd, Some (p, False))\<rparr>))"
    unfolding RunParams_Run_def assms by (simp add: sh cmd_def Let_def split: sum.split)
  then show ?thesis using cmd by (cases "start cmd") auto
qed

end
