(* ===== verification/Apt.thy ===== *)
theory Apt
  imports Attempt FeatureFlag Proxy Exec
begin

text \<open>
  Running apt (\<^verbatim>\<open>src/apt/apt.go\<close>): the commands to install packages, retried by an attempt strategy, and the
  proxies of the configuration, which a regular expression finds in the output of a tool. The command
  runner \<^verbatim>\<open>CommandOutput\<close>, which tests replace, and clock readings are arguments.
\<close>

subsection \<open>Commands\<close>

definition installAttemptStrategy :: AttemptStrategy where
  "installAttemptStrategy = \<lparr>s_Total = 0, s_Delay = 10 * 1000000000, s_Min = 30\<rparr>"

definition getCommand :: "string list" where
  "getCommand =
     [''apt-get'', ''--option=Dpkg::Options::=--force-confold'', ''--option=Dpkg::options::=--force-unsafe-io'',
      ''--assume-yes'', ''--quiet'']"

definition getEnvOptions :: "string list" where
  "getEnvOptions = [''DEBIAN_FRONTEND=noninteractive'']"

definition cloudArchivePackages :: "string list" where
  "cloudArchivePackages =
     [''cloud-image-utils'', ''cloud-utils'', ''curtin'', ''djorm-ext-pgarray'', ''golang'', ''iproute2'', ''isc-dhcp'',
      ''juju-core'', ''libseccomp'', ''libv8-3.14'', ''lxc'', ''maas'', ''mongodb'', ''mongodb-server'', ''python-django'',
      ''python-django-piston'', ''python-jujuclient'', ''python-tx-tftp'', ''python-websocket-client'',
      ''raphael 2.1.0-1ubuntu1'', ''simplestreams'', ''txlongpoll'', ''uvtool'', ''yui3'']"

definition targetRelease :: "string \<Rightarrow> string" where
  "targetRelease series = (if series = ''precise'' then ''precise-updates/cloud-tools'' else [])"

fun split_packages :: "string list \<Rightarrow> string list \<Rightarrow> string list \<Rightarrow> string list \<times> string list" where
  "split_packages with_target pkgs [] = (with_target, pkgs)"
| "split_packages with_target pkgs (pkg # packages) =
     (if pkg \<in> set cloudArchivePackages then split_packages (with_target @ [pkg]) pkgs packages
      else split_packages with_target (pkgs @ [pkg]) packages)"

definition GetPreparePackages :: "string list \<Rightarrow> string \<Rightarrow> string list list" where
  "GetPreparePackages packages series =
     (let target = targetRelease series in
      if target = [] then [packages]
      else
        let (pkgs_with_target, pkgs) = split_packages [''--target-release'', target] [] packages;
            installCommands = (if length pkgs_with_target > 2 then [pkgs_with_target] else [])
        in if length pkgs > 0 then installCommands @ [pkgs] else installCommands)"

subsection \<open>Installation\<close>

type_synonym command_output = "Cmd \<Rightarrow> string \<times> exec_error option"

datatype install_error = UnexpectedError exec_error | UnexpectedState wait_status | AptFailed exec_error

text \<open>The loop over the attempts; \<open>i\<close> is the number of commands that were run and \<open>err\<close> the error of the last
  one. The result is nothing when the clock readings run out.\<close>

fun install_loop ::
  "(nat \<Rightarrow> command_output) \<Rightarrow> (wait_status \<Rightarrow> int option) \<Rightarrow> Cmd \<Rightarrow> Attempt \<Rightarrow> (int \<times> int) list \<Rightarrow> nat \<Rightarrow> install_error option
   \<Rightarrow> (install_error option \<times> nat) option" where
  "install_loop run processStateSys cmd a [] i err = None"
| "install_loop run processStateSys cmd a ((now, woke) # clock) i err =
     (let (again, a) = Attempt_Next a now woke in
      if \<not> again then Some (err, i)
      else (case snd (run i cmd) of
              None \<Rightarrow> Some (None, Suc i)
            | Some (ExitError status) \<Rightarrow>
                (case processStateSys status of
                   None \<Rightarrow> Some (Some (UnexpectedState status), Suc i)
                 | Some code \<Rightarrow>
                     if code \<noteq> 100 then Some (Some (AptFailed (ExitError status)), Suc i)
                     else install_loop run processStateSys cmd a clock (Suc i) (Some (AptFailed (ExitError status))))
            | Some e \<Rightarrow> Some (Some (UnexpectedError e), Suc i)))"

definition install_cmd :: "string list \<Rightarrow> string list \<Rightarrow> Cmd" where
  "install_cmd environ packages =
     (let cmdArgs = getCommand @ [''install''] @ packages in
      (exec_Command (hd cmdArgs) (tl cmdArgs))\<lparr>cmd_env := Some (environ @ getEnvOptions)\<rparr>)"

definition GetInstall ::
  "(nat \<Rightarrow> command_output) \<Rightarrow> (wait_status \<Rightarrow> int option) \<Rightarrow> string list \<Rightarrow> int \<Rightarrow> (int \<times> int) list \<Rightarrow> string list
   \<Rightarrow> (install_error option \<times> nat) option" where
  "GetInstall run processStateSys environ start clock packages =
     install_loop run processStateSys (install_cmd environ packages)
       (AttemptStrategy_Start installAttemptStrategy start) clock 0 None"

definition IsPackageInstalled :: "starter \<Rightarrow> string \<Rightarrow> bool" where
  "IsPackageInstalled start packageName = (snd (RunCommand start ''dpkg-query'' [''--status'', packageName]) = None)"

subsection \<open>The regular expression\<close>

text \<open>\<^verbatim>\<open>(?im)^\s*Acquire::(?P<protocol>[a-z]+)::Proxy\s+"(?P<proxy>[^"]+)";\s*$\<close>. Every repetition but the
  last one is followed by a character it does not match, so it takes all it can; the last one
  gives back what follows the last newline when it does not reach the end of the text.\<close>

definition re_space :: "char \<Rightarrow> bool" where
  "re_space c = (let n = of_char c :: nat in n = 32 \<or> n = 9 \<or> n = 10 \<or> n = 12 \<or> n = 13)"

definition re_letter :: "char \<Rightarrow> bool" where
  "re_letter c = (let n = of_char (lower_char c) :: nat in 97 \<le> n \<and> n \<le> 122)"

definition dquote :: char where "dquote = CHR 0x22"

fun re_literal :: "string \<Rightarrow> string \<Rightarrow> string option" where
  "re_literal [] s = Some s"
| "re_literal (p # ps) s =
     (case s of [] \<Rightarrow> None | c # cs \<Rightarrow> if lower_char c = lower_char p then re_literal ps cs else None)"

definition re_many1 :: "(char \<Rightarrow> bool) \<Rightarrow> string \<Rightarrow> (string \<times> string) option" where
  "re_many1 P s = (if takeWhile P s = [] then None else Some (takeWhile P s, dropWhile P s))"

definition re_line_end :: "string \<Rightarrow> string option" where
  "re_line_end s =
     (let ws = takeWhile re_space s; rest = dropWhile re_space s in
      if rest = [] then Some []
      else if newline \<in> set ws then Some (drop (length (tl (dropWhile (\<lambda>c. c \<noteq> newline) (rev ws)))) s)
      else None)"

text \<open>The groups and the rest of the text.\<close>

definition proxyRE_at :: "string \<Rightarrow> (string \<times> string \<times> string) option" where
  "proxyRE_at s =
     Option.bind (re_literal ''Acquire::'' (dropWhile re_space s)) (\<lambda>s.
     Option.bind (re_many1 re_letter s) (\<lambda>(protocol, s).
     Option.bind (re_literal ''::Proxy'' s) (\<lambda>s.
     Option.bind (re_many1 re_space s) (\<lambda>(_, s).
     Option.bind (re_literal [dquote] s) (\<lambda>s.
     Option.bind (re_many1 (\<lambda>c. c \<noteq> dquote) s) (\<lambda>(proxy, s).
     Option.bind (re_literal [dquote, CHR '';''] s) (\<lambda>s.
     Option.bind (re_line_end s) (\<lambda>s. Some (protocol, proxy, s)))))))))"

lemma re_literal_length: "re_literal p s = Some r \<Longrightarrow> length r + length p = length s"
  by (induction p s rule: re_literal.induct) (auto split: list.splits if_splits)

lemma re_many1_length: "re_many1 P s = Some (a, r) \<Longrightarrow> length r < length s"
proof -
  assume "re_many1 P s = Some (a, r)"
  then have "a \<noteq> []" "s = a @ r" by (auto simp: re_many1_def split: if_splits)
  then show ?thesis by simp
qed

lemma proxyRE_at_shorter:
  assumes "proxyRE_at s = Some (protocol, proxy, r)"
  shows "length r < length s"
proof -
  obtain s1 s2 s3 s4 s5 s6 s7 x where
    "re_literal ''Acquire::'' (dropWhile re_space s) = Some s1" "re_many1 re_letter s1 = Some (protocol, s2)"
    "re_literal ''::Proxy'' s2 = Some s3" "re_many1 re_space s3 = Some (x, s4)" "re_literal [dquote] s4 = Some s5"
    "re_many1 (\<lambda>c. c \<noteq> dquote) s5 = Some (proxy, s6)" "re_literal [dquote, CHR '';''] s6 = Some s7" "re_line_end s7 = Some r"
    using assms by (auto simp: proxyRE_at_def bind_eq_Some_conv)
  note * = this
  have "length r \<le> length s7" using *(8) by (auto simp: re_line_end_def Let_def split: if_splits)
  then show ?thesis
    using *(1,3,5,7)[THEN re_literal_length] *(2,4,6)[THEN re_many1_length] length_dropWhile_le[of re_space s]
    by linarith
qed

text \<open>All matches in order, each with its text and its groups. A match starts at the beginning of a line,
  which the first argument says of the current position.\<close>

function proxy_matches :: "bool \<Rightarrow> string \<Rightarrow> (string \<times> string \<times> string) list" where
  "proxy_matches bol [] = []"
| "proxy_matches bol (c # cs) =
     (case (if bol then proxyRE_at (c # cs) else None) of
        Some (protocol, proxy, rest) \<Rightarrow>
          let m = take (length (c # cs) - length rest) (c # cs)
          in (m, protocol, proxy) # proxy_matches (last m = newline) rest
      | None \<Rightarrow> proxy_matches (c = newline) cs)"
  by pat_completeness auto
termination
  by (relation "measure (\<lambda>(bol, s). length s)") (auto dest: proxyRE_at_shorter split: if_splits)

declare proxy_matches.simps(2) [simp del]

subsection \<open>Proxies\<close>

definition config_args :: "string list" where
  "config_args = [''apt-config'', ''dump'', ''Acquire::http::Proxy'', ''Acquire::https::Proxy'', ''Acquire::ftp::Proxy'']"

definition ConfigProxy :: "command_output \<Rightarrow> exec_error + string" where
  "ConfigProxy run =
     (let (out, err) = run (exec_Command (hd config_args) (tl config_args)) in
      case err of
        Some err \<Rightarrow> Inl err
      | None \<Rightarrow> Inr (strings_Join [newline] (map fst (proxy_matches True out))))"

definition add_match :: "string \<times> string \<times> string \<Rightarrow> Settings \<Rightarrow> Settings" where
  "add_match m result =
     (let (_, protocol, proxy) = m in
      if protocol = ''http'' then result\<lparr>Http := proxy\<rparr>
      else if protocol = ''https'' then result\<lparr>Https := proxy\<rparr>
      else if protocol = ''ftp'' then result\<lparr>Ftp := proxy\<rparr>
      else result)"

definition Apt_DetectProxies :: "command_output \<Rightarrow> exec_error + Settings" where
  "Apt_DetectProxies run =
     (case ConfigProxy run of
        Inl err \<Rightarrow> Inl err
      | Inr output \<Rightarrow>
          Inr (fold add_match (proxy_matches True output) \<lparr>Http = [], Https = [], Ftp = [], NoProxy = []\<rparr>))"

definition addLine_apt :: "string \<Rightarrow> string \<Rightarrow> string list \<Rightarrow> string list" where
  "addLine_apt proxySettings value lines =
     (if value \<noteq> [] then lines @ [''Acquire::'' @ proxySettings @ ''::Proxy '' @ strconv_Quote value @ '';''] else lines)"

definition ProxyContent :: "Settings \<Rightarrow> string" where
  "ProxyContent s =
     (let lines = addLine_apt ''http'' (Http s) [];
          lines = addLine_apt ''https'' (Https s) lines;
          lines = addLine_apt ''ftp'' (Ftp s) lines
      in strings_Join [newline] lines)"

subsection \<open>What is written is read back\<close>

text \<open>Values that need no escape.\<close>

definition plain_value :: "string \<Rightarrow> bool" where
  "plain_value v \<longleftrightarrow> list_all (\<lambda>c. quote_char c = [c]) v"

lemma plain_Quote: "plain_value v \<Longrightarrow> strconv_Quote v = dquote # v @ [dquote]"
proof -
  assume "plain_value v"
  then have "concat (map quote_char v) = v" by (induction v) (auto simp: plain_value_def)
  then show ?thesis by (simp add: strconv_Quote_def dquote_def)
qed

lemma plain_no_dquote: "plain_value v \<Longrightarrow> dquote \<notin> set v"
  by (auto simp: plain_value_def list_all_iff quote_char_def dquote_def)

definition proxy_line :: "string \<Rightarrow> string \<Rightarrow> string" where
  "proxy_line protocol v = ''Acquire::'' @ protocol @ ''::Proxy '' @ dquote # v @ [dquote, CHR '';'']"

lemma takeWhile_all: "list_all P xs \<Longrightarrow> ys = [] \<or> \<not> P (hd ys) \<Longrightarrow> takeWhile P (xs @ ys) = xs \<and> dropWhile P (xs @ ys) = ys"
  by (induction xs) (cases ys; auto)+

lemma re_literal_same: "re_literal p (p @ s) = Some s"
  by (induction p) auto

lemma proxyRE_at_line:
  assumes "list_all re_letter protocol" "protocol \<noteq> []" "v \<noteq> []" "dquote \<notin> set v" "re_line_end rest = Some rest'"
  shows "proxyRE_at (proxy_line protocol v @ rest) = Some (protocol, v, rest')"
proof -
  have "dropWhile re_space (proxy_line protocol v @ rest) = ''Acquire::'' @ (protocol @ ''::Proxy '' @ dquote # v @ dquote # CHR '';'' # rest)"
    by (simp add: proxy_line_def re_space_def)
  moreover have "re_many1 re_letter (protocol @ ''::Proxy '' @ dquote # v @ dquote # CHR '';'' # rest)
      = Some (protocol, ''::Proxy'' @ CHR '' '' # dquote # v @ dquote # CHR '';'' # rest)"
    using takeWhile_all[OF assms(1), of "''::Proxy '' @ dquote # v @ dquote # CHR '';'' # rest"] assms(2)
    by (simp add: re_many1_def re_letter_def lower_char_def Let_def)
  moreover have "re_many1 re_space (CHR '' '' # dquote # v @ dquote # CHR '';'' # rest) = Some ('' '', [dquote] @ v @ dquote # CHR '';'' # rest)"
    by (simp add: re_many1_def re_space_def dquote_def)
  moreover have "re_many1 (\<lambda>c. c \<noteq> dquote) (v @ dquote # CHR '';'' # rest) = Some (v, [dquote, CHR '';''] @ rest)"
  proof -
    have "list_all (\<lambda>c. c \<noteq> dquote) v" using assms(4) by (auto simp: list_all_iff)
    then show ?thesis using takeWhile_all[of "\<lambda>c. c \<noteq> dquote" v "dquote # CHR '';'' # rest"] assms(3) by (simp add: re_many1_def)
  qed
  ultimately show ?thesis
    using assms(5) by (simp only: proxyRE_at_def re_literal_same Option.bind_lunit case_prod_conv)
qed

definition line_ok :: "string \<times> string \<Rightarrow> bool" where
  "line_ok l \<longleftrightarrow> list_all re_letter (fst l) \<and> fst l \<noteq> [] \<and> snd l \<noteq> [] \<and> dquote \<notin> set (snd l)"

abbreviation print_line :: "string \<times> string \<Rightarrow> string" where
  "print_line l \<equiv> proxy_line (fst l) (snd l)"

lemma line_end_before_line: "re_line_end (newline # print_line l @ r) = Some (newline # print_line l @ r)"
  by (simp add: re_line_end_def proxy_line_def re_space_def newline_def)

lemma proxy_matches_line:
  assumes "line_ok l" "re_line_end rest = Some rest"
  shows "proxy_matches True (print_line l @ rest) = (print_line l, fst l, snd l) # proxy_matches False rest"
proof -
  have at: "proxyRE_at (print_line l @ rest) = Some (fst l, snd l, rest)"
    using assms proxyRE_at_line by (simp add: line_ok_def)
  have "print_line l \<noteq> []" by (simp add: proxy_line_def)
  then obtain c cs where cs: "print_line l @ rest = c # cs" by (cases "print_line l") auto
  have "take (length (print_line l @ rest) - length rest) (print_line l @ rest) = print_line l" by simp
  moreover have "last (print_line l) \<noteq> newline" by (simp add: proxy_line_def newline_def)
  ultimately show ?thesis
    using at proxy_matches.simps(2)[of True c cs] unfolding cs[symmetric] by (simp add: Let_def)
qed

lemma proxy_matches_lines:
  "list_all line_ok ls \<Longrightarrow>
   proxy_matches True (strings_Join [newline] (map print_line ls)) = map (\<lambda>l. (print_line l, fst l, snd l)) ls"
proof (induction ls)
  case (Cons l ls)
  show ?case
  proof (cases ls)
    case Nil
    then show ?thesis using Cons proxy_matches_line[of l "[]"] by (simp add: re_line_end_def)
  next
    case (Cons l2 ls2)
    let ?t = "strings_Join [newline] (map print_line ls)"
    have "\<exists>r. ?t = print_line l2 @ r" using Cons by (cases ls2) auto
    then have "re_line_end (newline # ?t) = Some (newline # ?t)" using line_end_before_line by metis
    moreover have "strings_Join [newline] (map print_line (l # ls)) = print_line l @ newline # ?t" using Cons by simp
    moreover have "proxy_matches False (newline # ?t) = proxy_matches True ?t" by (simp add: proxy_matches.simps(2))
    ultimately show ?thesis using Cons.IH Cons.prems proxy_matches_line[of l "newline # ?t"] by simp
  qed
qed simp

definition content_lines :: "Settings \<Rightarrow> (string \<times> string) list" where
  "content_lines s = filter (\<lambda>l. snd l \<noteq> []) [(''http'', Http s), (''https'', Https s), (''ftp'', Ftp s)]"

lemma ProxyContent_lines:
  assumes "plain_value (Http s)" "plain_value (Https s)" "plain_value (Ftp s)"
  shows "ProxyContent s = strings_Join [newline] (map print_line (content_lines s))" "list_all line_ok (content_lines s)"
  using assms plain_no_dquote
  by (auto simp: ProxyContent_def addLine_apt_def content_lines_def proxy_line_def plain_Quote line_ok_def
      re_letter_def lower_char_def)

text \<open>(C24) The proxies of a configuration that was written from the settings are detected again: all values but the one that
  apt has no proxy for, when they have no character that needs an escape.\<close>

theorem Apt_DetectProxies_of_Content:
  assumes "plain_value (Http s)" "plain_value (Https s)" "plain_value (Ftp s)"
    and "run (exec_Command ''apt-config'' (tl config_args)) = (ProxyContent s, None)"
  shows "Apt_DetectProxies run = Inr (s\<lparr>NoProxy := []\<rparr>)"
proof -
  note lines = ProxyContent_lines[OF assms(1-3)]
  have "ConfigProxy run = Inr (strings_Join [newline] (map print_line (content_lines s)))"
    using assms(4) proxy_matches_lines[OF lines(2)] lines(1) by (simp add: ConfigProxy_def config_args_def comp_def)
  then have "Apt_DetectProxies run = Inr (fold add_match (map (\<lambda>l. (print_line l, fst l, snd l)) (content_lines s))
      \<lparr>Http = [], Https = [], Ftp = [], NoProxy = []\<rparr>)"
    using proxy_matches_lines[OF lines(2)] by (simp add: Apt_DetectProxies_def)
  also have "\<dots> = Inr (s\<lparr>NoProxy := []\<rparr>)"
    by (cases s) (auto simp: content_lines_def add_match_def)
  finally show ?thesis .
qed

theorem Apt_DetectProxies_of_Content_witness:
  "Apt_DetectProxies (\<lambda>_. (ProxyContent \<lparr>Http = ''http://p:3128'', Https = [], Ftp = ''f'', NoProxy = ''h''\<rparr>, None))
     = Inr \<lparr>Http = ''http://p:3128'', Https = [], Ftp = ''f'', NoProxy = []\<rparr>"
proof -
  have "plain_value ''http://p:3128''" "plain_value []" "plain_value ''f''" by code_simp+
  then show ?thesis
    using Apt_DetectProxies_of_Content[of "\<lparr>Http = ''http://p:3128'', Https = [], Ftp = ''f'', NoProxy = ''h''\<rparr>"
        "\<lambda>_. (ProxyContent \<lparr>Http = ''http://p:3128'', Https = [], Ftp = ''f'', NoProxy = ''h''\<rparr>, None)"] by simp
qed

text \<open>A backslash is written with an escape and read back as two. The pattern ignores case and the
  protocol is then compared with it.\<close>

lemma Apt_DetectProxies_differs:
  "Apt_DetectProxies (\<lambda>_. (ProxyContent \<lparr>Http = [CHR 0x5C], Https = [], Ftp = [], NoProxy = []\<rparr>, None))
     = Inr \<lparr>Http = [CHR 0x5C, CHR 0x5C], Https = [], Ftp = [], NoProxy = []\<rparr>"
  "(let run = (\<lambda>_. (proxy_line ''HTTP'' ''p'', None)) in
     ConfigProxy run = Inr (proxy_line ''HTTP'' ''p'') \<and> Apt_DetectProxies run = Inr \<lparr>Http = [], Https = [], Ftp = [], NoProxy = []\<rparr>)"
  by code_simp+

subsection \<open>Installation is retried\<close>

definition dpkg_busy :: "(wait_status \<Rightarrow> int option) \<Rightarrow> exec_error option \<Rightarrow> bool" where
  "dpkg_busy sys e \<longleftrightarrow> (\<exists>st. e = Some (ExitError st) \<and> sys st = Some 100)"

definition install_result :: "(wait_status \<Rightarrow> int option) \<Rightarrow> exec_error option \<Rightarrow> install_error option" where
  "install_result sys e =
     (case e of
        None \<Rightarrow> None
      | Some (ExitError st) \<Rightarrow> (case sys st of None \<Rightarrow> Some (UnexpectedState st) | Some _ \<Rightarrow> Some (AptFailed (ExitError st)))
      | Some e \<Rightarrow> Some (UnexpectedError e))"

text \<open>The strategy has no total time: there is a next attempt exactly while there were fewer than thirty.\<close>

lemma install_Next:
  assumes "attempt_inv t0 installAttemptStrategy a"
  shows "fst (Attempt_Next a now woke) \<longleftrightarrow> a_count a < 30"
proof (cases "Attempt_Next a now woke")
  case (Pair again a')
  have "0 < a_count a \<longrightarrow> a_end a \<le> now + Attempt_nextSleep a now"
  proof
    assume "0 < a_count a"
    then have "0 \<le> (a_count a - 1) * s_Delay installAttemptStrategy" by (simp add: installAttemptStrategy_def)
    then show "a_end a \<le> now + Attempt_nextSleep a now"
      using assms nextSleep_ge[of a now] by (simp add: attempt_inv_def installAttemptStrategy_def)
  qed
  then show ?thesis
    using Pair assms Attempt_Next_False[of a now woke a'] Attempt_Next_True(5)[of a now woke a']
    by (cases again) (auto simp: attempt_inv_def installAttemptStrategy_def)
qed

lemma install_loop_retries:
  assumes "attempt_inv t0 installAttemptStrategy a" "a_count a = int i" "clock_ok (a_last a) a clock"
    and "i \<le> n" "n < 30" "n - i + 1 < length clock"
    and "\<forall>j. i \<le> j \<and> j < n \<longrightarrow> dpkg_busy sys (snd (run j cmd))" "n = 29 \<or> \<not> dpkg_busy sys (snd (run n cmd))"
  shows "install_loop run sys cmd a clock i err = Some (install_result sys (snd (run n cmd)), Suc n)"
  using assms
proof (induction clock arbitrary: a i err)
  case (Cons t clock)
  obtain now woke where t: "t = (now, woke)" by fastforce
  have "fst (Attempt_Next a now woke)" using install_Next[OF Cons.prems(1)] Cons.prems(2,4,5) by simp
  then obtain a' where nx: "Attempt_Next a now woke = (True, a')" by (cases "Attempt_Next a now woke") simp
  have ck: "a_last a \<le> now" "now + Attempt_nextSleep a now \<le> woke" "clock_ok (a_last a') a' clock"
    using Cons.prems(3) t nx by auto
  have inv: "attempt_inv t0 installAttemptStrategy a'"
    by (rule attempt_inv_Next[OF Cons.prems(1) nx ck(2,1)]) (simp add: installAttemptStrategy_def)
  have count: "a_count a' = int (Suc i)" using Attempt_Next_True(4)[OF nx] Cons.prems(2) by simp
  show ?case
  proof (cases "dpkg_busy sys (snd (run i cmd))")
    case False
    then have "i = n" using Cons.prems(4,7) by (metis order.strict_iff_order order_refl)
    with False nx t show ?thesis
      by (auto simp: install_result_def dpkg_busy_def split: option.split exec_error.split)
  next
    case True
    then obtain st where st: "snd (run i cmd) = Some (ExitError st)" "sys st = Some 100" by (auto simp: dpkg_busy_def)
    show ?thesis
    proof (cases "i = n")
      case True
      then have "i = 29" using Cons.prems(8) \<open>dpkg_busy sys (snd (run i cmd))\<close> by simp
      obtain t2 clock2 where "clock = t2 # clock2" using Cons.prems(6) by (cases clock) auto
      moreover obtain now2 woke2 where "t2 = (now2, woke2)" by fastforce
      moreover have "\<not> fst (Attempt_Next a' now2 woke2)" using install_Next[OF inv] count \<open>i = 29\<close> by simp
      then obtain a2 where "Attempt_Next a' now2 woke2 = (False, a2)" by (cases "Attempt_Next a' now2 woke2") simp
      ultimately show ?thesis
        using nx t st True by (simp add: install_result_def)
    next
      case False
      then have "install_loop run sys cmd a' clock (Suc i) (Some (AptFailed (ExitError st)))
          = Some (install_result sys (snd (run n cmd)), Suc n)"
        using Cons.prems by (intro Cons.IH[OF inv count ck(3)]) auto
      then show ?thesis using nx t st by simp
    qed
  qed
qed simp

text \<open>(C23) \<^verbatim>\<open>GetInstall\<close> returns, after at most thirty commands: the command is run again while apt reports that it
  could not work (exit status 100), and the first other outcome, or else the thirtieth, is the result. Whatever the clock shows, as long
  as it does not run backwards and sleeps are not cut short.\<close>

theorem GetInstall_retries:
  assumes "clock_ok t0 (AttemptStrategy_Start installAttemptStrategy t0) clock" "30 < length clock"
    and "n < 30" "\<forall>j<n. dpkg_busy sys (snd (run j (install_cmd environ packages)))"
    and "n = 29 \<or> \<not> dpkg_busy sys (snd (run n (install_cmd environ packages)))"
  shows "GetInstall run sys environ t0 clock packages
    = Some (install_result sys (snd (run n (install_cmd environ packages))), Suc n)"
proof -
  let ?a = "AttemptStrategy_Start installAttemptStrategy t0"
  have "attempt_inv t0 installAttemptStrategy ?a" by (rule attempt_inv_Start) (simp add: installAttemptStrategy_def)
  moreover have "a_count ?a = int 0" "a_last ?a = t0" by (simp_all add: AttemptStrategy_Start_def)
  ultimately show ?thesis
    unfolding GetInstall_def using assms by (intro install_loop_retries) auto
qed

theorem GetInstall_retries_witness:
  "GetInstall (\<lambda>i _. ([], if i < 2 then Some (ExitError (Exited 100)) else None)) (\<lambda>st. case st of Exited n \<Rightarrow> Some n | Signaled _ \<Rightarrow> Some (-1))
     [] 0 (map (\<lambda>k. (int k * 10000000000, int k * 10000000000 + 10000000000)) [0..<31]) [''lxc''] = Some (None, 3)"
proof -
  let ?clock = "map (\<lambda>k. (int k * 10000000000, int k * 10000000000 + 10000000000)) [0..<31]"
  let ?run = "\<lambda>i (_::Cmd). ([]::string, if i < (2::nat) then Some (ExitError (Exited 100)) else None)"
  let ?sys = "\<lambda>st. case st of Exited n \<Rightarrow> Some n | Signaled _ \<Rightarrow> Some (-1)"
  have "clock_ok 0 (AttemptStrategy_Start installAttemptStrategy 0) ?clock" by code_simp
  then show ?thesis
    using GetInstall_retries[of 0 ?clock 2 ?sys ?run "[]" "[''lxc'']"] by (simp add: dpkg_busy_def install_result_def)
qed

subsection \<open>Packages are installed once\<close>

lemma split_packages_filter:
  "split_packages ws ps packages =
     (ws @ filter (\<lambda>p. p \<in> set cloudArchivePackages) packages, ps @ filter (\<lambda>p. p \<notin> set cloudArchivePackages) packages)"
  by (induction packages arbitrary: ws ps) auto

text \<open>For a series with a cloud archive the packages are installed in at most two commands, first those of the
  archive with its release, none of them without a package; otherwise in one.\<close>

lemma GetPreparePackages_commands:
  "GetPreparePackages packages ''precise'' =
     (let cloud = filter (\<lambda>p. p \<in> set cloudArchivePackages) packages;
          others = filter (\<lambda>p. p \<notin> set cloudArchivePackages) packages
      in (if cloud = [] then [] else [[''--target-release'', ''precise-updates/cloud-tools''] @ cloud])
         @ (if others = [] then [] else [others]))"
  "series \<noteq> ''precise'' \<Longrightarrow> GetPreparePackages packages series = [packages]"
  by (simp_all add: GetPreparePackages_def targetRelease_def split_packages_filter Let_def)

end
