(* ===== verification/JsonHttp.thy ===== *)
theory JsonHttp
  imports Prelude
begin

text \<open>
  JSON responses of HTTP handlers (\<^verbatim>\<open>src/jsonhttp/jsonhttp.go\<close>) over the \<^verbatim>\<open>ResponseWriter\<close> of
  \<^verbatim>\<open>net/http\<close>. What a handler does to its writer is the list of its calls. Arguments are the handlers, the
  encoder of \<^verbatim>\<open>encoding/json\<close>, the conversion of errors that the client supplies, and the functions of
  \<^verbatim>\<open>errgo\<close> that wrap an error.
\<close>

subsection \<open>net/http\<close>

text \<open>The header is sent once, with the entries it has then; nothing changes it afterwards.\<close>

record response =
  header :: "string \<rightharpoonup> string"
  sent :: "(int \<times> (string \<rightharpoonup> string)) option"
  body :: string
  flusher :: bool

definition http_NewResponse :: "bool \<Rightarrow> response" where
  "http_NewResponse fl = \<lparr>header = Map.empty, sent = None, body = [], flusher = fl\<rparr>"

definition StatusOK :: int where "StatusOK = 200"

definition bodyAllowedForStatus :: "int \<Rightarrow> bool" where
  "bodyAllowedForStatus code \<longleftrightarrow> \<not> (100 \<le> code \<and> code \<le> 199) \<and> code \<noteq> 204 \<and> code \<noteq> 304"

definition http_WriteHeader :: "int \<Rightarrow> response \<Rightarrow> response" where
  "http_WriteHeader code w = (if sent w = None then w\<lparr>sent := Some (code, header w)\<rparr> else w)"

definition http_Write :: "string \<Rightarrow> response \<Rightarrow> response" where
  "http_Write data w =
     (let w = http_WriteHeader StatusOK w in
      if bodyAllowedForStatus (fst (the (sent w))) then w\<lparr>body := body w @ data\<rparr> else w)"

definition http_Flush :: "response \<Rightarrow> response" where
  "http_Flush w = http_WriteHeader StatusOK w"

definition Header_Set :: "string \<Rightarrow> string \<Rightarrow> response \<Rightarrow> response" where
  "Header_Set k v w = w\<lparr>header := (header w)(k \<mapsto> v)\<rparr>"

text \<open>What the client gets when the handler has returned.\<close>

definition http_reply :: "response \<Rightarrow> int \<times> (string \<rightharpoonup> string) \<times> string" where
  "http_reply w = (let (code, h) = the (sent (http_WriteHeader StatusOK w)) in (code, h, body w))"

subsection \<open>The wrapped writer\<close>

record responseWriter =
  headerWritten :: bool
  ResponseWriter :: response

definition responseWriter_Write :: "string \<Rightarrow> responseWriter \<Rightarrow> responseWriter" where
  "responseWriter_Write data w =
     (let w = w\<lparr>headerWritten := True\<rparr> in w\<lparr>ResponseWriter := http_Write data (ResponseWriter w)\<rparr>)"

definition responseWriter_WriteHeader :: "int \<Rightarrow> responseWriter \<Rightarrow> responseWriter" where
  "responseWriter_WriteHeader code w =
     (let w = w\<lparr>headerWritten := True\<rparr> in w\<lparr>ResponseWriter := http_WriteHeader code (ResponseWriter w)\<rparr>)"

definition responseWriter_Flush :: "responseWriter \<Rightarrow> responseWriter" where
  "responseWriter_Flush w =
     (let w = w\<lparr>headerWritten := True\<rparr> in
      if flusher (ResponseWriter w) then w\<lparr>ResponseWriter := http_Flush (ResponseWriter w)\<rparr> else w)"

datatype writer_call = CallHeaderSet string string | CallWrite string | CallWriteHeader int | CallFlush

fun wrapped_call :: "writer_call \<Rightarrow> responseWriter \<Rightarrow> responseWriter" where
  "wrapped_call (CallHeaderSet k v) w = w\<lparr>ResponseWriter := Header_Set k v (ResponseWriter w)\<rparr>"
| "wrapped_call (CallWrite d) w = responseWriter_Write d w"
| "wrapped_call (CallWriteHeader c) w = responseWriter_WriteHeader c w"
| "wrapped_call CallFlush w = responseWriter_Flush w"

subsection \<open>Handlers\<close>

type_synonym ('e, 'v) ErrorToResponse = "'e \<Rightarrow> int \<times> 'v"
type_synonym ('r, 'e) ErrorHandler = "'r \<Rightarrow> writer_call list \<times> 'e option"

text \<open>\<^verbatim>\<open>WriteJSON\<close> as the calls it makes and the error it returns.\<close>

definition WriteJSON :: "('v \<Rightarrow> 'e + string) \<Rightarrow> ('e \<Rightarrow> 'e) \<Rightarrow> int \<Rightarrow> 'v \<Rightarrow> writer_call list \<times> 'e option" where
  "WriteJSON marshal maskErr code val =
     (case marshal val of
        Inl err \<Rightarrow> ([], Some (maskErr err))
      | Inr data \<Rightarrow> ([CallHeaderSet ''Content-Type'' ''application/json'', CallWriteHeader code, CallWrite data], None))"

fun direct_call :: "writer_call \<Rightarrow> response \<Rightarrow> response" where
  "direct_call (CallHeaderSet k v) w = Header_Set k v w"
| "direct_call (CallWrite d) w = http_Write d w"
| "direct_call (CallWriteHeader c) w = http_WriteHeader c w"
| "direct_call CallFlush w = (if flusher w then http_Flush w else w)"

definition WriteError ::
  "('v \<Rightarrow> 'e + string) \<Rightarrow> ('e \<Rightarrow> 'e) \<Rightarrow> ('e, 'v) ErrorToResponse \<Rightarrow> response \<Rightarrow> 'e \<Rightarrow> response" where
  "WriteError marshal maskErr errToResp w err =
     (let (status, resp) = errToResp err in fold direct_call (fst (WriteJSON marshal maskErr status resp)) w)"

definition HandleErrors ::
  "('v \<Rightarrow> 'e + string) \<Rightarrow> ('e \<Rightarrow> 'e) \<Rightarrow> ('e, 'v) ErrorToResponse \<Rightarrow> ('r, 'e) ErrorHandler \<Rightarrow> response \<Rightarrow> 'r \<Rightarrow> response" where
  "HandleErrors marshal maskErr errToResp handle w req =
     (let (calls, err) = handle req;
          w1 = fold wrapped_call calls \<lparr>headerWritten = False, ResponseWriter = w\<rparr>
      in case err of
           Some err \<Rightarrow>
             if \<not> headerWritten w1 then WriteError marshal maskErr errToResp (ResponseWriter w1) err else ResponseWriter w1
         | None \<Rightarrow> ResponseWriter w1)"

text \<open>A JSON handler sets entries of the header and returns a value or an error.\<close>

type_synonym ('r, 'e, 'v) JSONHandler = "'r \<Rightarrow> (string \<times> string) list \<times> ('e + 'v)"

definition HandleJSON ::
  "('v \<Rightarrow> 'e + string) \<Rightarrow> ('e \<Rightarrow> 'e) \<Rightarrow> ('e \<Rightarrow> 'e) \<Rightarrow> ('e, 'v) ErrorToResponse \<Rightarrow> ('r, 'e, 'v) JSONHandler \<Rightarrow> response \<Rightarrow> 'r \<Rightarrow> response" where
  "HandleJSON marshal maskErr maskAny errToResp handle =
     HandleErrors marshal maskErr errToResp (\<lambda>req.
       let (hs, r) = handle req; sets = map (\<lambda>(k, v). CallHeaderSet k v) hs in
       case r of
         Inl err \<Rightarrow> (sets, Some (maskAny err))
       | Inr val \<Rightarrow> (let (calls, err) = WriteJSON marshal maskErr StatusOK val in (sets @ calls, err)))"

subsection \<open>Properties\<close>

text \<open>The wrapped writer does to the response what the writer does, and knows when the header was sent, if
  the writer can flush.\<close>

lemma wrapped_direct: "ResponseWriter (wrapped_call c w) = direct_call c (ResponseWriter w)"
  by (cases c) (simp_all add: responseWriter_Write_def responseWriter_WriteHeader_def responseWriter_Flush_def Let_def)

lemma fold_wrapped_direct: "ResponseWriter (fold wrapped_call cs w) = fold direct_call cs (ResponseWriter w)"
  by (induction cs arbitrary: w) (simp_all add: wrapped_direct)

definition writes_header :: "writer_call \<Rightarrow> bool" where
  "writes_header c = (case c of CallHeaderSet _ _ \<Rightarrow> False | _ \<Rightarrow> True)"

lemma headerWritten_fold: "headerWritten (fold wrapped_call cs w) \<longleftrightarrow> headerWritten w \<or> (\<exists>c \<in> set cs. writes_header c)"
proof (induction cs arbitrary: w)
  case (Cons c cs)
  then show ?case
    by (cases c) (simp_all add: writes_header_def responseWriter_Write_def responseWriter_WriteHeader_def
        responseWriter_Flush_def Let_def)
qed simp

text \<open>Setting entries of the header.\<close>

lemma fold_sets:
  "\<forall>c \<in> set cs. \<not> writes_header c \<Longrightarrow>
   \<exists>h. fold direct_call cs w = w\<lparr>header := h\<rparr>"
proof (induction cs arbitrary: w)
  case (Cons c cs)
  then obtain k v where c: "c = CallHeaderSet k v" by (cases c) (auto simp: writes_header_def)
  obtain h where "fold direct_call cs (Header_Set k v w) = (Header_Set k v w)\<lparr>header := h\<rparr>" using Cons by fastforce
  then show ?case using c by (auto simp: Header_Set_def)
qed (metis fold_simps(1) response.surjective response.update_convs(1))

text \<open>The reply to an error after the header entries \<open>h\<close> were set. When the error itself cannot be encoded there is no
  trace of it.\<close>

definition error_reply ::
  "('v \<Rightarrow> 'e + string) \<Rightarrow> ('e, 'v) ErrorToResponse \<Rightarrow> (string \<rightharpoonup> string) \<Rightarrow> 'e \<Rightarrow> int \<times> (string \<rightharpoonup> string) \<times> string" where
  "error_reply marshal errToResp h e =
     (let (status, resp) = errToResp e in
      case marshal resp of
        Inr data \<Rightarrow> (status, h(''Content-Type'' \<mapsto> ''application/json''), if bodyAllowedForStatus status then data else [])
      | Inl _ \<Rightarrow> (StatusOK, h, []))"

lemmas http_calls = http_WriteHeader_def http_Write_def http_reply_def Header_Set_def http_NewResponse_def Let_def

lemma fold_WriteJSON:
  assumes "marshal val = Inr data"
  shows "http_reply (fold direct_call (fst (WriteJSON marshal maskErr code val)) ((http_NewResponse fl)\<lparr>header := h\<rparr>))
    = (code, h(''Content-Type'' \<mapsto> ''application/json''), if bodyAllowedForStatus code then data else [])"
  using assms by (simp add: WriteJSON_def http_calls)

lemma WriteError_reply:
  "http_reply (WriteError marshal maskErr errToResp ((http_NewResponse fl)\<lparr>header := h\<rparr>) e) = error_reply marshal errToResp h e"
proof (cases "errToResp e")
  case (Pair status resp)
  then show ?thesis
    using fold_WriteJSON[where marshal = marshal and val = resp and maskErr = maskErr and code = status and fl = fl and h = h]
    by (cases "marshal resp") (simp_all add: WriteError_def error_reply_def WriteJSON_def http_calls)
qed

text \<open>The error of a handler is the reply, with its status and JSON body, exactly when the handler has not
  written anything; otherwise the reply is what the handler has written and the error does not
  corrupt it. Header entries that the handler has set stay.\<close>

theorem HandleErrors_reply:
  "http_reply (HandleErrors marshal maskErr errToResp handle (http_NewResponse fl) req) =
     (let (calls, err) = handle req; w = fold direct_call calls (http_NewResponse fl) in
      case err of
        Some e \<Rightarrow>
          if list_all (\<lambda>c. \<not> writes_header c) calls then error_reply marshal errToResp (header w) e else http_reply w
      | None \<Rightarrow> http_reply w)"
proof (cases "handle req")
  case (Pair calls err)
  let ?w = "fold direct_call calls (http_NewResponse fl)"
  have "?w = (http_NewResponse fl)\<lparr>header := header ?w\<rparr>" if "list_all (\<lambda>c. \<not> writes_header c) calls"
    using fold_sets[of calls "http_NewResponse fl"] that by (auto simp: list_all_iff)
  then have "http_reply (WriteError marshal maskErr errToResp ?w e) = error_reply marshal errToResp (header ?w) e"
    if "list_all (\<lambda>c. \<not> writes_header c) calls" for e
    using that WriteError_reply[where fl = fl and h = "header ?w" and maskErr = maskErr] by simp
  then show ?thesis
    using Pair by (auto simp: HandleErrors_def fold_wrapped_direct headerWritten_fold list_all_iff Let_def split: option.split)
qed


text \<open>When the response of an error cannot be encoded the client gets an empty reply with status 200; a nil
  response is encoded as any value, not replaced by the text of the error; and a \<^verbatim>\<open>Flush\<close> of a writer
  that cannot flush hides an error that follows.\<close>

lemma HandleErrors_lost_error:
  "http_reply (HandleErrors (\<lambda>v. Inl ''unsupported'') id (\<lambda>e. (500, ())) (\<lambda>r. ([], Some ''boom'')) (http_NewResponse True) ())
     = (200, Map.empty, [])"
  "http_reply (HandleErrors (\<lambda>v. Inr (case v of None \<Rightarrow> ''null'' | Some s \<Rightarrow> s)) id (\<lambda>e. (500, None)) (\<lambda>r. ([], Some ''boom''))
       (http_NewResponse True) ())
     = (500, [''Content-Type'' \<mapsto> ''application/json''], ''null'')"
  "http_reply (HandleErrors (\<lambda>v. Inr v) id (\<lambda>e. (500, e)) (\<lambda>r. ([CallFlush], Some ''boom'')) (http_NewResponse False) ())
     = (200, Map.empty, [])"
  unfolding HandleErrors_reply
  by (simp_all add: error_reply_def writes_header_def StatusOK_def bodyAllowedForStatus_def http_calls)

end
