(* ===== verification/Http.thy ===== *)
theory Http
  imports Base64
begin

text \<open>
  HTTP clients and network addresses (\<^verbatim>\<open>src/http.go\<close>, \<^verbatim>\<open>src/network.go\<close>) and the number of processors
  (\<^verbatim>\<open>src/gomaxprocs.go\<close>). The state is the shared client that does not verify certificates; its mutex makes
  every call one step. What the package \<^verbatim>\<open>net\<close> makes of addresses is an argument.
\<close>

subsection \<open>Transports and clients\<close>

text \<open>A transport with what the code sets: whether certificates are verified, whether connections are kept,
  whether it dials with the function \<^verbatim>\<open>dial\<close> below, and its registered protocols.\<close>

record Transport =
  InsecureSkipVerify :: bool
  DisableKeepAlives :: bool
  guarded_dial :: bool
  protocols :: "string list"

definition registerFileProtocol :: "Transport \<Rightarrow> panic + Transport" where
  "registerFileProtocol transport =
     (if ''file'' \<in> set (protocols transport) then Inl (Panic ''protocol file already registered'')
      else Inr (transport\<lparr>protocols := ''file'' # protocols transport\<rparr>))"

definition NewHttpTLSTransport :: "bool \<Rightarrow> panic + Transport" where
  "NewHttpTLSTransport insecureSkipVerify =
     registerFileProtocol
       \<lparr>InsecureSkipVerify = insecureSkipVerify, DisableKeepAlives = True, guarded_dial = True, protocols = []\<rparr>"

text \<open>A client is a pointer: \<open>DefaultClient\<close>, whose transport is the default one, or the number of one that was made.\<close>

datatype Client = DefaultClient | Made nat

record http_state =
  defaultTransport :: Transport
  insecureClient :: "Client option"
  made :: "Transport list"

definition http_init :: "http_state \<Rightarrow> panic + http_state" where
  "http_init s =
     map_sum id (\<lambda>t. s\<lparr>defaultTransport := t\<rparr>)
       (registerFileProtocol ((defaultTransport s)\<lparr>DisableKeepAlives := True, guarded_dial := True\<rparr>))"

definition GetValidatingHTTPClient :: "http_state \<Rightarrow> panic + Client \<times> http_state" where
  "GetValidatingHTTPClient s = Inr (DefaultClient, s)"

definition GetNonValidatingHTTPClient :: "http_state \<Rightarrow> panic + Client \<times> http_state" where
  "GetNonValidatingHTTPClient s =
     (case insecureClient s of
        Some c \<Rightarrow> Inr (c, s)
      | None \<Rightarrow>
          sum_bind (NewHttpTLSTransport True) (\<lambda>transport.
            let c = Made (length (made s))
            in Inr (c, s\<lparr>insecureClient := Some c, made := made s @ [transport]\<rparr>)))"

definition GetHTTPClient :: "bool \<Rightarrow> http_state \<Rightarrow> panic + Client \<times> http_state" where
  "GetHTTPClient verify s = (if verify then GetValidatingHTTPClient s else GetNonValidatingHTTPClient s)"

definition client_transport :: "http_state \<Rightarrow> Client \<Rightarrow> Transport" where
  "client_transport s c = (case c of DefaultClient \<Rightarrow> defaultTransport s | Made i \<Rightarrow> made s ! i)"

subsection \<open>Basic authentication\<close>

definition BasicAuthHeader :: "string \<Rightarrow> string \<Rightarrow> (string \<times> string list) list" where
  "BasicAuthHeader username password =
     (let auth = username @ '':'' @ password; encoded = ''Basic '' @ EncodeToString auth
      in [(''Authorization'', [encoded])])"

text \<open>How a server reads it (RFC 2617): the credentials are decoded and split at the first colon.\<close>

definition read_basic_auth :: "(string \<times> string list) list \<Rightarrow> (string \<times> string) option" where
  "read_basic_auth h =
     (case map_of h ''Authorization'' of
        Some [v] \<Rightarrow>
          if strings_HasPrefix v ''Basic '' then
            (case DecodeString (drop 6 v) of
               Some d \<Rightarrow> (case strings_SplitN2 CHR '':'' d of [u, p] \<Rightarrow> Some (u, p) | _ \<Rightarrow> None)
             | None \<Rightarrow> None)
          else None
      | _ \<Rightarrow> None)"

subsection \<open>Dialling\<close>

text \<open>\<^verbatim>\<open>net.SplitHostPort\<close>.\<close>

datatype addr_error = MissingPort | MissingBracket | TooManyColons | MissingBrackets | UnexpectedOpen | UnexpectedClose

definition check_brackets :: "string \<Rightarrow> string \<Rightarrow> string \<Rightarrow> string \<Rightarrow> addr_error + string \<times> string" where
  "check_brackets host port after_open after_close =
     (if CHR ''['' \<in> set after_open then Inl UnexpectedOpen
      else if CHR '']'' \<in> set after_close then Inl UnexpectedClose
      else Inr (host, port))"

definition SplitHostPort :: "string \<Rightarrow> addr_error + string \<times> string" where
  "SplitHostPort hostport =
     (if CHR '':'' \<notin> set hostport then Inl MissingPort
      else
        let port = rev (takeWhile (\<lambda>c. c \<noteq> CHR '':'') (rev hostport));
            i = length hostport - length port - 1
        in if hd hostport = CHR ''['' then
             (if CHR '']'' \<notin> set hostport then Inl MissingBracket
              else let k = length (takeWhile (\<lambda>c. c \<noteq> CHR '']'') hostport) in
                if k + 1 = length hostport then Inl MissingPort
                else if k + 1 = i then
                  check_brackets (take (k - 1) (tl hostport)) port (drop 1 hostport) (drop (k + 1) hostport)
                else if hostport ! (k + 1) = CHR '':'' then Inl TooManyColons
                else Inl MissingPort)
           else
             let host = take i hostport in
             if CHR '':'' \<in> set host then Inl TooManyColons
             else if CHR ''%'' \<in> set host then Inl MissingBrackets
             else check_brackets host port hostport hostport)"

datatype 'c dial_result = Dialed 'c | NotAllowed string

definition dial :: "bool \<Rightarrow> (string \<Rightarrow> 'ip option) \<Rightarrow> ('ip \<Rightarrow> bool) \<Rightarrow> (string \<Rightarrow> string \<Rightarrow> 'c) \<Rightarrow> string \<Rightarrow> string \<Rightarrow> 'c dial_result" where
  "dial OutgoingAccessAllowed ParseIP IsLoopback netDial network addr =
     (if \<not> OutgoingAccessAllowed then
        (case SplitHostPort addr of
           Inl err \<Rightarrow> Dialed (netDial network addr)
         | Inr (host, _) \<Rightarrow>
             if host \<noteq> ''localhost'' \<and> (case ParseIP host of None \<Rightarrow> True | Some ip \<Rightarrow> \<not> IsLoopback ip)
             then NotAllowed addr
             else Dialed (netDial network addr))
      else Dialed (netDial network addr))"

subsection \<open>Addresses and processors\<close>

datatype 'e net_error = NetError 'e | NoAddressesMatch

fun GetIPv4Address :: "('a \<Rightarrow> 'e + 'ip) \<Rightarrow> ('ip \<Rightarrow> string option) \<Rightarrow> 'a list \<Rightarrow> 'e net_error + string" where
  "GetIPv4Address ParseCIDR To4 [] = Inl NoAddressesMatch"
| "GetIPv4Address ParseCIDR To4 (addr # addresses) =
     (case ParseCIDR addr of
        Inl err \<Rightarrow> Inl (NetError err)
      | Inr ip \<Rightarrow>
          (case To4 ip of
             None \<Rightarrow> GetIPv4Address ParseCIDR To4 addresses
           | Some ipv4 \<Rightarrow> Inr ipv4))"

definition GetAddressForInterface ::
  "(string \<Rightarrow> 'e + 'i) \<Rightarrow> ('i \<Rightarrow> 'e + 'a list) \<Rightarrow> ('a \<Rightarrow> 'e + 'ip) \<Rightarrow> ('ip \<Rightarrow> string option) \<Rightarrow> string \<Rightarrow> 'e net_error + string" where
  "GetAddressForInterface InterfaceByName Addrs ParseCIDR To4 interfaceName =
     (case InterfaceByName interfaceName of
        Inl err \<Rightarrow> Inl (NetError err)
      | Inr iface \<Rightarrow>
          (case Addrs iface of
             Inl err \<Rightarrow> Inl (NetError err)
           | Inr addrs \<Rightarrow> GetIPv4Address ParseCIDR To4 addrs))"

definition UseMultipleCPUs :: "env \<Rightarrow> nat \<Rightarrow> nat \<Rightarrow> nat" where
  "UseMultipleCPUs env numCPU gomaxprocs = (if os_Getenv env ''GOMAXPROCS'' \<noteq> [] then gomaxprocs else numCPU)"

subsection \<open>Properties\<close>

text \<open>A server reads from the header the user name and the password that it was made with, if the name has no
  colon; the password may have any characters.\<close>

theorem BasicAuth_roundtrip:
  assumes "CHR '':'' \<notin> set username"
  shows "read_basic_auth (BasicAuthHeader username password) = Some (username, password)"
  using strings_SplitN2_append[OF assms, of password]
  by (simp add: read_basic_auth_def BasicAuthHeader_def strings_HasPrefix_def)

theorem BasicAuth_roundtrip_witness:
  "read_basic_auth (BasicAuthHeader ''user-admin'' ''a:b'') = Some (''user-admin'', ''a:b'')"
  by (rule BasicAuth_roundtrip) simp

text \<open>Any sequence of requests for clients, by whatever callers.\<close>

fun get_clients :: "bool list \<Rightarrow> http_state \<Rightarrow> panic + Client list \<times> http_state" where
  "get_clients [] s = Inr ([], s)"
| "get_clients (v # vs) s =
     sum_bind (GetHTTPClient v s) (\<lambda>(c, s). sum_bind (get_clients vs s) (\<lambda>(cs, s). Inr (c # cs, s)))"

definition started :: "http_state \<Rightarrow> bool" where
  "started s \<longleftrightarrow> made s = [] \<and> insecureClient s = None"

definition clients_inv :: "http_state \<Rightarrow> bool" where
  "clients_inv s \<longleftrightarrow>
     (case insecureClient s of None \<Rightarrow> made s = []
      | Some c \<Rightarrow> c = Made 0 \<and> (\<exists>t. made s = [t] \<and> InsecureSkipVerify t \<and> DisableKeepAlives t \<and> guarded_dial t \<and> protocols t = [''file'']))"

lemma GetHTTPClient_inv:
  assumes "clients_inv s"
  shows "\<exists>s'. GetHTTPClient v s = Inr (if v then DefaultClient else Made 0, s') \<and> clients_inv s'
    \<and> defaultTransport s' = defaultTransport s \<and> (\<not> v \<or> s \<noteq> s' \<longrightarrow> made s' \<noteq> [])"
  using assms
  by (auto simp: clients_inv_def GetHTTPClient_def GetValidatingHTTPClient_def GetNonValidatingHTTPClient_def
      NewHttpTLSTransport_def registerFileProtocol_def Let_def split: option.splits)

lemma get_clients_inv:
  "clients_inv s \<Longrightarrow> \<exists>s'. get_clients vs s = Inr (map (\<lambda>v. if v then DefaultClient else Made 0) vs, s') \<and> clients_inv s'
    \<and> defaultTransport s' = defaultTransport s \<and> (made s \<noteq> [] \<or> False \<in> set vs \<longrightarrow> made s' \<noteq> [])"
proof (induction vs arbitrary: s)
  case (Cons v vs)
  obtain s1 where s1: "GetHTTPClient v s = Inr (if v then DefaultClient else Made 0, s1)" "clients_inv s1"
    "defaultTransport s1 = defaultTransport s" "\<not> v \<or> s \<noteq> s1 \<longrightarrow> made s1 \<noteq> []"
    using GetHTTPClient_inv[OF Cons.prems] by blast
  then show ?case using Cons.IH[OF s1(2)] by auto
qed auto

text \<open>However often clients are asked for, no call panics and at most one client that does not verify
  certificates is made: all requests for one get the same, with connections that are not kept and dialled
  by \<^verbatim>\<open>dial\<close>; all requests for a verifying client get the default one.\<close>

theorem GetHTTPClient_shared:
  assumes "started s"
  shows "\<exists>s'. get_clients vs s = Inr (map (\<lambda>v. if v then DefaultClient else Made 0) vs, s')
    \<and> length (made s') \<le> 1
    \<and> (False \<in> set vs \<longrightarrow>
         client_transport s' (Made 0) = \<lparr>InsecureSkipVerify = True, DisableKeepAlives = True, guarded_dial = True, protocols = [''file'']\<rparr>)
    \<and> client_transport s' DefaultClient = defaultTransport s"
proof -
  have "clients_inv s" using assms by (simp add: started_def clients_inv_def)
  from get_clients_inv[OF this, of vs] obtain s' where
    s': "get_clients vs s = Inr (map (\<lambda>v. if v then DefaultClient else Made 0) vs, s')" "clients_inv s'"
    "defaultTransport s' = defaultTransport s" "made s \<noteq> [] \<or> False \<in> set vs \<longrightarrow> made s' \<noteq> []"
    by blast
  then have "length (made s') \<le> 1" by (auto simp: clients_inv_def split: option.splits)
  moreover have "client_transport s' (Made 0)
      = \<lparr>InsecureSkipVerify = True, DisableKeepAlives = True, guarded_dial = True, protocols = [''file'']\<rparr>" if "False \<in> set vs"
    using s'(2,4) that by (auto simp: clients_inv_def client_transport_def split: option.splits)
  ultimately show ?thesis using s' by (auto simp: client_transport_def)
qed

definition demo_http :: http_state where
  "demo_http = \<lparr>defaultTransport = \<lparr>InsecureSkipVerify = False, DisableKeepAlives = True, guarded_dial = True, protocols = [''file'']\<rparr>,
     insecureClient = None, made = []\<rparr>"

theorem GetHTTPClient_shared_witness:
  "\<exists>s'. get_clients [False, True, False] demo_http = Inr ([Made 0, DefaultClient, Made 0], s') \<and> length (made s') \<le> 1"
  using GetHTTPClient_shared[of demo_http "[False, True, False]"] by (auto simp: started_def demo_http_def)

text \<open>While outgoing access is not allowed, no connection is dialled to an address with a host and a port whose host
  is neither \<^verbatim>\<open>localhost\<close> nor an address of the loopback interface.\<close>

theorem dial_guarded:
  assumes "SplitHostPort addr = Inr (host, port)"
  shows "dial allowed ParseIP IsLoopback netDial network addr =
    (if allowed \<or> host = ''localhost'' \<or> (\<exists>ip. ParseIP host = Some ip \<and> IsLoopback ip)
     then Dialed (netDial network addr) else NotAllowed addr)"
  using assms by (auto simp: dial_def split: option.split)

text \<open>Hosts and ports that were joined are split again.\<close>

lemma SplitHostPort_join:
  assumes "set host \<inter> {CHR '':'', CHR ''%'', CHR ''['', CHR '']''} = {}" "set port \<inter> {CHR '':'', CHR ''['', CHR '']''} = {}" "host \<noteq> []"
  shows "SplitHostPort (host @ '':'' @ port) = Inr (host, port)"
proof -
  have "takeWhile (\<lambda>c. c \<noteq> CHR '':'') (rev port @ CHR '':'' # rev host) = rev port"
    using assms(2) by (auto simp: takeWhile_append takeWhile_eq_all_conv)
  moreover have "hd (host @ CHR '':'' # port) \<noteq> CHR ''[''" using assms(1,3) by (cases host) auto
  ultimately show ?thesis
    using assms by (auto simp: SplitHostPort_def check_brackets_def Let_def)
qed

theorem dial_guarded_witness:
  "dial False (\<lambda>h. if h = ''127.0.0.1'' then Some () else None) (\<lambda>_. True) (\<lambda>n a. a) ''tcp'' ''example.com:80'' = NotAllowed ''example.com:80''
   \<and> dial False (\<lambda>h. if h = ''127.0.0.1'' then Some () else None) (\<lambda>_. True) (\<lambda>n a. a) ''tcp'' ''127.0.0.1:80'' = Dialed ''127.0.0.1:80''"
proof -
  have "SplitHostPort ''example.com:80'' = Inr (''example.com'', ''80'')" "SplitHostPort ''127.0.0.1:80'' = Inr (''127.0.0.1'', ''80'')"
    by code_simp+
  then show ?thesis by (simp add: dial_guarded)
qed

text \<open>The first IPv4 address is returned; an address before it that cannot be parsed is an error.\<close>

lemma GetIPv4Address_first:
  "\<forall>a \<in> set as. \<exists>ip. ParseCIDR a = Inr ip \<and> To4 ip = None \<Longrightarrow>
   GetIPv4Address ParseCIDR To4 (as @ bs) = GetIPv4Address ParseCIDR To4 bs"
  by (induction as) auto

end
