(* ===== verification/Size.thy ===== *)
theory Size
  imports Prelude Complex_Main
begin

text \<open>
  Sizes with a unit (\<^verbatim>\<open>src/size.go\<close>). A \<^verbatim>\<open>float64\<close> is a rational number, an infinity or not a number;
  \<^verbatim>\<open>strconv.ParseFloat\<close>, which rounds to the nearest of them, is an argument. Multiplication by the units, powers
  of two, and rounding up are exact on them. The conversion of a number that does not fit into 64 bits depends on the
  processor and is an argument too.
\<close>

datatype float64 = Fin rat | PosInf | NegInf | NaN

fun float_less_zero :: "float64 \<Rightarrow> bool" where
  "float_less_zero (Fin x) = (x < 0)"
| "float_less_zero NegInf = True"
| "float_less_zero _ = False"

fun float_mult :: "float64 \<Rightarrow> rat \<Rightarrow> float64" where
  "float_mult (Fin x) m = Fin (x * m)"
| "float_mult f m = f"

definition to_uint64 :: "(float64 \<Rightarrow> 64 word) \<Rightarrow> float64 \<Rightarrow> 64 word" where
  "to_uint64 overflow f =
     (case f of
        Fin x \<Rightarrow> if 0 \<le> \<lceil>x\<rceil> \<and> \<lceil>x\<rceil> < 2 ^ 64 then of_int \<lceil>x\<rceil> else overflow f
      | _ \<Rightarrow> overflow f)"

datatype size_error = InvalidSuffix string | ExpectedNumber string

definition sizeSuffixes :: string where "sizeSuffixes = ''MGTPEZY''"

definition sizeSuffixMultiplier :: "nat \<Rightarrow> nat" where
  "sizeSuffixMultiplier i = 2 ^ (i * 10)"

definition is_digit_or_period :: "char \<Rightarrow> bool" where
  "is_digit_or_period c \<longleftrightarrow> c = CHR ''.'' \<or> (48 \<le> (of_char c :: nat) \<and> (of_char c :: nat) \<le> 57)"

text \<open>The loop over the suffixes; the multiplier is zero while none has matched.\<close>

definition suffix_multiplier :: "string \<Rightarrow> nat" where
  "suffix_multiplier sfx =
     fold (\<lambda>j m. let base = [sizeSuffixes ! j] in
                 if sfx = base \<or> sfx = base @ ''B'' \<or> sfx = base @ ''iB'' then sizeSuffixMultiplier j else m)
       [0..<length sizeSuffixes] 0"

definition parse_number ::
  "(string \<Rightarrow> float64 option) \<Rightarrow> (float64 \<Rightarrow> 64 word) \<Rightarrow> string \<Rightarrow> nat \<Rightarrow> size_error + 64 word" where
  "parse_number ParseFloat overflow str multiplier =
     (case ParseFloat str of
        None \<Rightarrow> Inl (ExpectedNumber str)
      | Some val \<Rightarrow>
          if float_less_zero val then Inl (ExpectedNumber str)
          else Inr (to_uint64 overflow (float_mult val (of_nat multiplier))))"

definition ParseSize :: "(string \<Rightarrow> float64 option) \<Rightarrow> (float64 \<Rightarrow> 64 word) \<Rightarrow> string \<Rightarrow> size_error + 64 word" where
  "ParseSize ParseFloat overflow str =
     (let digits = takeWhile is_digit_or_period str; sfx = dropWhile is_digit_or_period str in
      if sfx \<noteq> [] \<and> digits \<noteq> [] then
        (let multiplier = suffix_multiplier sfx in
         if multiplier = 0 then Inl (InvalidSuffix sfx) else parse_number ParseFloat overflow digits multiplier)
      else parse_number ParseFloat overflow str 1)"

subsection \<open>Properties\<close>

text \<open>The suffixes and what they stand for.\<close>

definition units :: "(string \<times> nat) list" where
  "units = concat (map (\<lambda>j. [([sizeSuffixes ! j], j), ([sizeSuffixes ! j] @ ''B'', j), ([sizeSuffixes ! j] @ ''iB'', j)])
     [0..<length sizeSuffixes])"

lemma suffix_multiplier_units:
  "suffix_multiplier sfx = (case map_of units sfx of Some j \<Rightarrow> sizeSuffixMultiplier j | None \<Rightarrow> 0)"
  by (simp add: suffix_multiplier_def units_def sizeSuffixes_def upt_conv_Cons)

text \<open>A whole number with a unit is that many units, where a number alone is of mebibytes and each unit is 1024
  of the one before: exactly, as long as the result fits into 64 bits. Any other sfx is an error. Numbers
  below \<open>2 ^ 53\<close> are parsed without rounding.\<close>

theorem ParseSize_units:
  assumes "\<forall>n < 2 ^ 53. ParseFloat (decimal n) = Some (Fin (of_nat n))" "n < 2 ^ 53"
    and "sfx = [] \<or> \<not> is_digit_or_period (hd sfx)"
  shows "ParseSize ParseFloat overflow (decimal n @ sfx) =
    (case (if sfx = [] then Some 0 else map_of units sfx) of
       None \<Rightarrow> Inl (InvalidSuffix sfx)
     | Some j \<Rightarrow> Inr (if n * 1024 ^ j < 2 ^ 64 then of_nat (n * 1024 ^ j) else overflow (Fin (of_nat (n * 1024 ^ j)))))"
proof -
  have number: "parse_number ParseFloat overflow (decimal n) (2 ^ (j * 10))
      = Inr (if n * 1024 ^ j < 2 ^ 64 then of_nat (n * 1024 ^ j) else overflow (Fin (of_nat (n * 1024 ^ j))))" for j
  proof -
    have "(2::nat) ^ (j * 10) = 1024 ^ j" by (simp add: power_mult mult.commute[of j])
    then have "rat_of_nat n * of_nat (2 ^ (j * 10)) = of_nat (n * 1024 ^ j)" by (simp only: of_nat_mult)
    then have "float_mult (Fin (of_nat n)) (of_nat (2 ^ (j * 10))) = Fin (of_nat (n * 1024 ^ j))" by simp
    moreover have "to_uint64 overflow (Fin (of_nat k)) = (if k < 2 ^ 64 then of_nat k else overflow (Fin (of_nat k)))" for k
    proof -
      have "\<lceil>rat_of_nat k\<rceil> = int k" by (simp add: ceiling_of_nat)
      moreover have "int k < 2 ^ 64 \<longleftrightarrow> k < 2 ^ 64" by (metis of_nat_less_numeral_power_cancel_iff)
      ultimately show ?thesis by (simp add: to_uint64_def)
    qed
    ultimately show ?thesis
      unfolding parse_number_def using assms(1,2) by (simp only: option.case float_less_zero.simps) simp
  qed
  have "list_all is_digit_or_period (decimal n)"
    using decimal_digits[of n] by (auto simp: list_all_iff is_digit_or_period_def)
  then have "takeWhile is_digit_or_period (decimal n @ sfx) = decimal n" "dropWhile is_digit_or_period (decimal n @ sfx) = sfx"
    using assms(3) by (induction "decimal n") (auto simp: list_all_iff takeWhile_append dropWhile_append, (cases sfx; auto)+)
  then show ?thesis
    using number[of 0] number
    by (auto simp: ParseSize_def Let_def suffix_multiplier_units sizeSuffixMultiplier_def split: option.split)
qed

definition parse_nat :: "string \<Rightarrow> float64 option" where
  "parse_nat s = (if s \<noteq> [] \<and> list_all (\<lambda>c. 48 \<le> (of_char c :: nat) \<and> (of_char c :: nat) \<le> 57) s
     then Some (Fin (of_nat (decimal_value s))) else None)"

theorem ParseSize_units_witness:
  "ParseSize parse_nat (\<lambda>_. 0) (decimal 3 @ ''GiB'') = Inr 3072
   \<and> ParseSize parse_nat (\<lambda>_. 0) (decimal 3 @ ''kB'') = Inl (InvalidSuffix ''kB'')"
proof -
  have "\<forall>n < 2 ^ 53. parse_nat (decimal n) = Some (Fin (of_nat n))"
    using decimal_digits by (simp add: parse_nat_def list_all_iff)
  from ParseSize_units[OF this, of 3] show ?thesis
    by (simp add: units_def sizeSuffixes_def upt_conv_Cons is_digit_or_period_def)
qed

text \<open>When the first character is neither a digit nor a period there is no suffix, and whatever
  \<^verbatim>\<open>ParseFloat\<close> accepts is taken: infinities and what is not a number are no errors.\<close>

lemma ParseSize_not_finite:
  assumes "ParseFloat ''inf'' = Some PosInf" "ParseFloat ''nan'' = Some NaN"
  shows "ParseSize ParseFloat overflow ''inf'' = Inr (overflow PosInf)" "ParseSize ParseFloat overflow ''nan'' = Inr (overflow NaN)"
  using assms by (simp_all add: ParseSize_def is_digit_or_period_def parse_number_def to_uint64_def)

end
