(* ===== verification/Timeit.thy ===== *)
theory Timeit
  imports Prelude
begin

text \<open>
  Timers of nested calls (\<^verbatim>\<open>src/timeit.go\<close>). Timers are shared by pointers, so the state has a heap of them, and
  a timer is its index; the package variable \<^verbatim>\<open>stack\<close> has the timers that run. What is written to the
  standard error is part of the state. Readings of the clock and the format of a duration are arguments.
\<close>

record timer =
  action :: string
  t_start :: int
  depth :: nat
  duration :: int
  subActions :: "nat list"

record timeit =
  heap :: "timer list"
  stack :: "nat list"
  stderr_text :: string

subsection \<open>The code\<close>

definition timer_line :: "(int \<Rightarrow> string) \<Rightarrow> int \<Rightarrow> nat \<Rightarrow> string \<Rightarrow> string" where
  "timer_line secs d n a = secs d @ ''s '' @ replicate n CHR '' '' @ a @ [CHR 0x0A]"

text \<open>The timers of a heap are not nested deeper than there are timers, which bounds the recursion.\<close>

fun timer_String :: "(int \<Rightarrow> string) \<Rightarrow> nat \<Rightarrow> timer list \<Rightarrow> nat \<Rightarrow> string" where
  "timer_String secs 0 h t = []"
| "timer_String secs (Suc n) h t =
     timer_line secs (duration (h ! t)) (depth (h ! t)) (action (h ! t))
     @ concat (map (timer_String secs n h) (subActions (h ! t)))"

definition Timeit :: "string \<Rightarrow> int \<Rightarrow> timeit \<Rightarrow> nat \<times> timeit" where
  "Timeit a now s =
     (let cur = length (heap s);
          t = \<lparr>action = a, t_start = now, depth = length (stack s), duration = 0, subActions = []\<rparr>;
          h = (if stack s \<noteq> [] then
                 let tip = last (stack s) in
                 (heap s)[tip := (heap s ! tip)\<lparr>subActions := subActions (heap s ! tip) @ [cur]\<rparr>]
               else heap s)
      in (cur, s\<lparr>heap := h @ [t], stack := stack s @ [cur]\<rparr>))"

text \<open>The function that \<^verbatim>\<open>Timeit\<close> returns.\<close>

definition toc :: "(int \<Rightarrow> string) \<Rightarrow> nat \<Rightarrow> int \<Rightarrow> timeit \<Rightarrow> timeit" where
  "toc secs cur now s =
     (let h = (heap s)[cur := (heap s ! cur)\<lparr>duration := now - t_start (heap s ! cur)\<rparr>]; s = s\<lparr>heap := h\<rparr> in
      if stack s = [] \<or> cur = hd (stack s) then
        s\<lparr>stderr_text := stderr_text s @ timer_String secs (Suc (length h)) h cur, stack := []\<rparr>
      else s\<lparr>stack := butlast (stack s)\<rparr>)"

subsection \<open>Nested calls\<close>

text \<open>A program of calls, each timed as with \<^verbatim>\<open>defer\<close>; the clock has a reading for every start and end.\<close>

datatype call = Call string "call list"

fun run_calls :: "(int \<Rightarrow> string) \<Rightarrow> (nat \<Rightarrow> int) \<Rightarrow> nat \<Rightarrow> call list \<Rightarrow> timeit \<Rightarrow> nat \<times> timeit" where
  "run_calls secs clock k [] s = (k, s)"
| "run_calls secs clock k (Call a cs # calls) s =
     (let (cur, s) = Timeit a (clock k) s;
          (k', s) = run_calls secs clock (Suc k) cs s;
          s = toc secs cur (clock k') s
      in run_calls secs clock (Suc k') calls s)"

text \<open>What is to be printed: a line for each call, in the order in which they start, indented by its depth.\<close>

fun trace :: "(int \<Rightarrow> string) \<Rightarrow> (nat \<Rightarrow> int) \<Rightarrow> nat \<Rightarrow> nat \<Rightarrow> call list \<Rightarrow> string \<times> nat" where
  "trace secs clock d k [] = ([], k)"
| "trace secs clock d k (Call a cs # calls) =
     (let (sub, k') = trace secs clock (Suc d) (Suc k) cs;
          (rest, k'') = trace secs clock d (Suc k') calls
      in (timer_line secs (clock k' - clock k) d a @ sub @ rest, k''))"

text \<open>Timers from \<open>lo\<close> to \<open>hi\<close> whose sub-actions are among the later ones of them.\<close>

definition closed_timers :: "timer list \<Rightarrow> nat \<Rightarrow> nat \<Rightarrow> bool" where
  "closed_timers h lo hi \<longleftrightarrow> (\<forall>i. lo \<le> i \<and> i < hi \<longrightarrow> set (subActions (h ! i)) \<subseteq> {i<..<hi})"

lemma timer_String_stable:
  assumes "closed_timers h lo hi" "\<forall>i. lo \<le> i \<and> i < hi \<longrightarrow> h' ! i = h ! i"
  shows "lo \<le> i \<Longrightarrow> i < hi \<Longrightarrow> timer_String secs n h' i = timer_String secs n h i"
proof (induction n arbitrary: i)
  case (Suc n)
  have "concat (map (timer_String secs n h') (subActions (h ! i))) = concat (map (timer_String secs n h) (subActions (h ! i)))"
  proof (rule arg_cong[of _ _ concat], rule map_cong[OF refl])
    fix x
    assume "x \<in> set (subActions (h ! i))"
    then have "lo \<le> x" "x < hi" using assms(1) Suc.prems by (force simp: closed_timers_def)+
    then show "timer_String secs n h' x = timer_String secs n h x" by (rule Suc.IH)
  qed
  then show ?case using assms(2) Suc.prems by simp
qed simp

text \<open>What a run of calls does below a running timer: it adds timers, the first ones of them as sub-actions of
  the timer, and leaves everything else as it was.\<close>

definition ran_below :: "(int \<Rightarrow> string) \<Rightarrow> timeit \<Rightarrow> string \<Rightarrow> timeit \<Rightarrow> bool" where
  "ran_below secs s txt s' \<longleftrightarrow>
     (let n = length (heap s); n' = length (heap s'); tip = last (stack s) in
      stack s' = stack s \<and> stderr_text s' = stderr_text s
      \<and> (\<exists>ids new. heap s' = (heap s)[tip := (heap s ! tip)\<lparr>subActions := subActions (heap s ! tip) @ ids\<rparr>] @ new
           \<and> set ids \<subseteq> {n..<n'} \<and> closed_timers (heap s') n n'
           \<and> (\<forall>fuel \<ge> n' - n. concat (map (timer_String secs fuel (heap s')) ids) = txt)))"

lemma ran_below_step:
  assumes s: "stack s \<noteq> []" "set (stack s) \<subseteq> {..<length (heap s)}"
    and s1: "Timeit a t s = (cur, s1)"
    and s2: "ran_below secs s1 sub s2"
    and s4: "ran_below secs (toc secs cur t' s2) rest s4"
  shows "ran_below secs s (timer_line secs (t' - t) (length (stack s)) a @ sub @ rest) s4"
proof -
  define n h tip where "n = length (heap s)" and "h = heap s" and "tip = last (stack s)"
  have tip: "tip < n" "hd (stack s) \<noteq> n" using s last_in_set[OF s(1)] hd_in_set[OF s(1)] by (force simp: n_def tip_def)+
  define t0 where "t0 = \<lparr>action = a, t_start = t, depth = length (stack s), duration = 0, subActions = []\<rparr>"
  define add where "add ids = h[tip := (h ! tip)\<lparr>subActions := subActions (h ! tip) @ ids\<rparr>]" for ids
  have add: "length (add ids) = n" "add ids ! tip = (h ! tip)\<lparr>subActions := subActions (h ! tip) @ ids\<rparr>"
    "(add ids)[tip := (h ! tip)\<lparr>subActions := subActions (h ! tip) @ ids'\<rparr>] = add ids'" for ids ids'
    using tip by (simp_all add: add_def n_def h_def)
  have cur: "cur = n" and h1: "heap s1 = add [n] @ [t0]" "stack s1 = stack s @ [n]" "stderr_text s1 = stderr_text s"
    using s1 s(1) by (auto simp: Timeit_def Let_def n_def h_def tip_def add_def t0_def)
  obtain ids1 new1 where h2: "heap s2 = add [n] @ (t0\<lparr>subActions := ids1\<rparr>) # new1"
    and s2': "stack s2 = stack s @ [n]" "stderr_text s2 = stderr_text s" "set ids1 \<subseteq> {Suc n..<length (heap s2)}"
    "closed_timers (heap s2) (Suc n) (length (heap s2))"
    "\<forall>fuel \<ge> length (heap s2) - Suc n. concat (map (timer_String secs fuel (heap s2)) ids1) = sub"
    using s2 by (auto simp: ran_below_def Let_def h1 add list_update_append nth_append t0_def)
  define t1 where "t1 = t0\<lparr>subActions := ids1, duration := t' - t\<rparr>"
  have s3: "heap (toc secs cur t' s2) = add [n] @ t1 # new1" "stack (toc secs cur t' s2) = stack s"
    "stderr_text (toc secs cur t' s2) = stderr_text s"
    using tip s(1) by (simp_all add: toc_def cur h2 s2' Let_def list_update_append nth_append add t1_def t0_def)
  define n2 where "n2 = length (heap s2)"
  have n2: "n < n2" "length (heap (toc secs cur t' s2)) = n2" by (simp_all add: n2_def h2 add s3)
  obtain ids2 new2 where h4: "heap s4 = add ([n] @ ids2) @ t1 # new1 @ new2"
    and s4': "stack s4 = stack s" "stderr_text s4 = stderr_text s" "set ids2 \<subseteq> {n2..<length (heap s4)}"
    "closed_timers (heap s4) n2 (length (heap s4))"
    "\<forall>fuel \<ge> length (heap s4) - n2. concat (map (timer_String secs fuel (heap s4)) ids2) = rest"
    using s4 tip(1) n2(2)
    by (auto simp: ran_below_def Let_def s3 tip_def[symmetric] add list_update_append nth_append)
  have n4: "n2 \<le> length (heap s4)" by (simp add: h4 n2_def h2 add)
  have same: "heap s4 ! i = heap s2 ! i" if "Suc n \<le> i" "i < n2" for i
    using that by (auto simp: h4 h2 nth_append add nth_Cons n2_def split: nat.split)
  have own: "heap s4 ! n = t1" by (simp add: h4 nth_append add)
  have "closed_timers (heap s4) n (length (heap s4))"
    unfolding closed_timers_def
  proof (intro allI impI)
    fix i
    assume i: "n \<le> i \<and> i < length (heap s4)"
    consider "i = n" | "Suc n \<le> i" "i < n2" | "n2 \<le> i" using i by linarith
    then show "set (subActions (heap s4 ! i)) \<subseteq> {i<..<length (heap s4)}"
    proof cases
      case 1
      then show ?thesis using s2'(3) n4 own by (auto simp: t1_def n2_def)
    next
      case 2
      then show ?thesis using s2'(4) same n4 by (fastforce simp: closed_timers_def n2_def)
    next
      case 3
      then show ?thesis using s4'(4) i by (simp add: closed_timers_def)
    qed
  qed
  moreover have "concat (map (timer_String secs fuel (heap s4)) (n # ids2)) = timer_line secs (t' - t) (length (stack s)) a @ sub @ rest"
    if fuel: "fuel \<ge> length (heap s4) - n" for fuel
  proof -
    obtain f where f: "fuel = Suc f" using fuel n2(1) n4 by (cases fuel) auto
    have "timer_String secs f (heap s4) i = timer_String secs f (heap s2) i" if "i \<in> set ids1" for i
      by (rule timer_String_stable[OF s2'(4)]) (use same s2'(3) that in \<open>auto simp: n2_def\<close>)
    then have "concat (map (timer_String secs f (heap s4)) ids1) = concat (map (timer_String secs f (heap s2)) ids1)"
      by (intro arg_cong[of _ _ concat] map_cong refl)
    moreover have "concat (map (timer_String secs f (heap s2)) ids1) = sub" using s2'(5) fuel f n4 n2(1) by (auto simp: n2_def)
    moreover have "concat (map (timer_String secs fuel (heap s4)) ids2) = rest" using s4'(5) fuel n2(1) by auto
    ultimately show ?thesis using own f by (simp add: t1_def t0_def)
  qed
  moreover have "set (n # ids2) \<subseteq> {n..<length (heap s4)}" using s4'(3) n2(1) n4 by auto
  ultimately show ?thesis
    unfolding ran_below_def Let_def
    by (intro conjI exI[of _ "n # ids2"] exI[of _ "t1 # new1 @ new2"]) (use s4'(1,2) h4 in \<open>auto simp: add_def n_def h_def tip_def\<close>)
qed

lemma ran_below_refl: "stack s \<noteq> [] \<Longrightarrow> set (stack s) \<subseteq> {..<length (heap s)} \<Longrightarrow> ran_below secs s [] s"
  by (auto simp: ran_below_def Let_def closed_timers_def intro!: exI[of _ "[]"])

lemma ran_below_length: "ran_below secs s txt s' \<Longrightarrow> length (heap s) \<le> length (heap s')"
  by (auto simp: ran_below_def Let_def)

lemma toc_shape: "length (heap (toc secs cur t s)) = length (heap s)"
  "stack s \<noteq> [] \<Longrightarrow> cur \<noteq> hd (stack s) \<Longrightarrow> stack (toc secs cur t s) = butlast (stack s)"
  by (simp_all add: toc_def Let_def)

lemma run_calls_below:
  assumes "stack s \<noteq> []" "set (stack s) \<subseteq> {..<length (heap s)}"
  shows "\<exists>s'. run_calls secs clock k calls s = (snd (trace secs clock (length (stack s)) k calls), s')
    \<and> ran_below secs s (fst (trace secs clock (length (stack s)) k calls)) s'"
  using assms
proof (induction secs clock k calls s rule: run_calls.induct)
  case (1 secs clock k s)
  then show ?case using ran_below_refl by simp
next
  case (2 secs clock k a cs calls s)
  obtain cur s1 where s1: "Timeit a (clock k) s = (cur, s1)" by fastforce
  then have cur: "cur = length (heap s)" "stack s1 = stack s @ [cur]" "length (heap s1) = Suc (length (heap s))"
    by (auto simp: Timeit_def Let_def)
  obtain sub k' where sub: "trace secs clock (Suc (length (stack s))) (Suc k) cs = (sub, k')" by fastforce
  have "stack s1 \<noteq> []" "set (stack s1) \<subseteq> {..<length (heap s1)}" using cur 2(4) by auto
  from 2(1)[OF s1[symmetric] refl this] obtain s2 where
    s2: "run_calls secs clock (Suc k) cs s1 = (k', s2)" "ran_below secs s1 sub s2"
    using sub cur(2) by auto
  let ?s3 = "toc secs cur (clock k') s2"
  have stack2: "stack s2 = stack s @ [cur]" using s2(2) cur(2) by (auto simp: ran_below_def Let_def)
  have "hd (stack s) < cur" using subsetD[OF 2(4) hd_in_set[OF 2(3)]] cur(1) by simp
  then have "cur \<noteq> hd (stack s2)" using 2(3) stack2 by simp
  then have stack3: "stack ?s3 = stack s" using toc_shape(2)[of s2 cur] stack2 by simp
  have "length (heap s) \<le> length (heap ?s3)" using ran_below_length[OF s2(2)] cur(3) toc_shape(1) by simp
  then have ok: "stack ?s3 \<noteq> []" "set (stack ?s3) \<subseteq> {..<length (heap ?s3)}" using stack3 2(3,4) by fastforce+
  obtain rest k'' where rest: "trace secs clock (length (stack s)) (Suc k') calls = (rest, k'')" by fastforce
  from 2(2)[OF s1[symmetric] refl s2(1)[symmetric] refl refl ok] obtain s4 where
    s4: "run_calls secs clock (Suc k') calls ?s3 = (k'', s4)" "ran_below secs ?s3 rest s4"
    using rest stack3 by auto
  have "ran_below secs s (timer_line secs (clock k' - clock k) (length (stack s)) a @ sub @ rest) s4"
    using ran_below_step[OF 2(3,4) s1 s2(2) s4(2)] .
  then show ?case using s1 s2(1) s4(1) sub rest by simp
qed

text \<open>Timing nested calls writes, when the outermost call returns and not before, a line for every call: in the
  order in which they start, indented by the nesting, with the time from its start to its end. The stack is then empty again.\<close>

theorem Timeit_prints_calls:
  assumes "stack s = []"
  shows "\<exists>s'. run_calls secs clock k calls s = (snd (trace secs clock 0 k calls), s')
    \<and> stack s' = [] \<and> stderr_text s' = stderr_text s @ fst (trace secs clock 0 k calls)"
  using assms
proof (induction calls arbitrary: k s)
  case (Cons c calls)
  obtain a cs where c: "c = Call a cs" by (cases c)
  define n where "n = length (heap s)"
  define t0 where "t0 = \<lparr>action = a, t_start = clock k, depth = 0, duration = 0, subActions = []\<rparr>"
  define s1 where "s1 = s\<lparr>heap := heap s @ [t0], stack := [n]\<rparr>"
  have s1: "Timeit a (clock k) s = (n, s1)" using Cons.prems by (simp add: Timeit_def Let_def n_def t0_def s1_def)
  obtain sub k' where sub: "trace secs clock 1 (Suc k) cs = (sub, k')" by fastforce
  obtain s2 where s2: "run_calls secs clock (Suc k) cs s1 = (k', s2)" "ran_below secs s1 sub s2"
    using run_calls_below[of s1 secs clock "Suc k" cs] sub by (auto simp: s1_def n_def)
  obtain ids new where h2: "heap s2 = heap s @ (t0\<lparr>subActions := ids\<rparr>) # new"
    and s2': "stack s2 = [n]" "stderr_text s2 = stderr_text s" "set ids \<subseteq> {Suc n..<length (heap s2)}"
    "closed_timers (heap s2) (Suc n) (length (heap s2))"
    "\<forall>fuel \<ge> length (heap s2) - Suc n. concat (map (timer_String secs fuel (heap s2)) ids) = sub"
    using s2(2) by (auto simp: ran_below_def Let_def s1_def n_def list_update_append nth_append t0_def)
  let ?h3 = "(heap s2)[n := (heap s2 ! n)\<lparr>duration := clock k' - t_start (heap s2 ! n)\<rparr>]"
  have own: "?h3 ! n = t0\<lparr>subActions := ids, duration := clock k' - clock k\<rparr>"
    by (simp add: h2 n_def nth_append t0_def)
  have "timer_String secs f ?h3 i = timer_String secs f (heap s2) i" if "i \<in> set ids" for f i
    by (rule timer_String_stable[OF s2'(4)]) (use s2'(3) that in auto)
  then have "concat (map (timer_String secs (length (heap s2)) ?h3) ids) = concat (map (timer_String secs (length (heap s2)) (heap s2)) ids)"
    by (intro arg_cong[of _ _ concat] map_cong refl)
  then have printed: "timer_String secs (Suc (length (heap s2))) ?h3 n = timer_line secs (clock k' - clock k) 0 a @ sub"
    using s2'(5) own by (simp add: t0_def)
  let ?s3 = "toc secs n (clock k') s2"
  have s3: "stack ?s3 = []" "stderr_text ?s3 = stderr_text s @ timer_line secs (clock k' - clock k) 0 a @ sub"
    using s2'(1,2) printed by (simp_all add: toc_def Let_def)
  obtain rest k'' where rest: "trace secs clock 0 (Suc k') calls = (rest, k'')" by fastforce
  show ?case using Cons.IH[OF s3(1), of "Suc k'"] s1 s2(1) s3(2) sub rest c by auto
qed simp

theorem Timeit_prints_calls_witness:
  "\<exists>s'. run_calls (\<lambda>d. if d = 1 then ''1'' else ''3'') int 0 [Call ''f'' [Call ''g'' []]] \<lparr>heap = [], stack = [], stderr_text = []\<rparr> = (4, s')
    \<and> stderr_text s' = ''3s f'' @ [CHR 0x0A] @ ''1s  g'' @ [CHR 0x0A]"
  using Timeit_prints_calls[of "\<lparr>heap = [], stack = [], stderr_text = []\<rparr>" "\<lambda>d. if d = 1 then ''1'' else ''3''" int 0
      "[Call ''f'' [Call ''g'' []]]"]
  by (auto simp: timer_line_def eval_nat_numeral simp del: run_calls.simps)

text \<open>A timer that is stopped after its caller's is taken for an outermost one and printed again.\<close>

lemma toc_out_of_order:
  "(let (f, s) = Timeit ''f'' 0 \<lparr>heap = [], stack = [], stderr_text = []\<rparr>; (g, s) = Timeit ''g'' 1 s;
        s = toc (\<lambda>d. []) f 2 s; s = toc (\<lambda>d. []) g 3 s
    in stderr_text s) = ''s f'' @ [CHR 0x0A] @ ''s  g'' @ [CHR 0x0A] @ ''s  g'' @ [CHR 0x0A]"
  by (simp add: Timeit_def toc_def timer_line_def Let_def)

end
