(* ===== verification/Utf16.thy ===== *)
theory Utf16
  imports Prelude
begin

text \<open>
  Strings for the system calls of Windows: the conversions of Go between its strings (bytes in UTF-8), runes
  and UTF-16 (\<^verbatim>\<open>[]rune(s)\<close>, \<^verbatim>\<open>string(runes)\<close>, \<^verbatim>\<open>utf16.Encode\<close>, \<^verbatim>\<open>utf16.Decode\<close>, \<^verbatim>\<open>syscall.UTF16FromString\<close>,
  \<^verbatim>\<open>syscall.UTF16ToString\<close>). What cannot be converted becomes the replacement character, as in Go. Shown: on
  text that is valid the conversions are inverse to each other.
\<close>

type_synonym rune = nat
type_synonym uint16 = "16 word"

definition replacementChar :: rune where "replacementChar = 0xFFFD"

text \<open>The values that are characters.\<close>

definition scalar :: "rune \<Rightarrow> bool" where
  "scalar r \<longleftrightarrow> r < 0xD800 \<or> 0xE000 \<le> r \<and> r \<le> 0x10FFFF"

subsection \<open>UTF-8\<close>

definition rune_bytes :: "rune \<Rightarrow> nat list" where
  "rune_bytes r =
     (if r < 0x80 then [r]
      else if r < 0x800 then [0xC0 + r div 64, 0x80 + r mod 64]
      else if r < 0x10000 then [0xE0 + r div 4096, 0x80 + r div 64 mod 64, 0x80 + r mod 64]
      else [0xF0 + r div 262144, 0x80 + r div 4096 mod 64, 0x80 + r div 64 mod 64, 0x80 + r mod 64])"

definition utf8_EncodeRune :: "rune \<Rightarrow> string" where
  "utf8_EncodeRune r = map char_of (rune_bytes (if scalar r then r else replacementChar))"

definition cont :: "nat \<Rightarrow> bool" where
  "cont b \<longleftrightarrow> 0x80 \<le> b \<and> b < 0xC0"

text \<open>The rune at the start of a string and how many bytes it takes. A sequence that is not the shortest
  for its rune, encodes a surrogate or is not complete counts as one invalid byte.\<close>

fun decode_at :: "nat list \<Rightarrow> rune \<times> nat" where
  "decode_at (a # b # c # d # s) =
     (if a < 0x80 then (a, 1)
      else if 0xC2 \<le> a \<and> a < 0xE0 \<and> cont b then ((a - 0xC0) * 64 + (b - 0x80), 2)
      else if 0xE0 \<le> a \<and> a < 0xF0 \<and> cont b \<and> cont c \<and> (a = 0xE0 \<longrightarrow> 0xA0 \<le> b) \<and> (a = 0xED \<longrightarrow> b < 0xA0)
        then ((a - 0xE0) * 4096 + (b - 0x80) * 64 + (c - 0x80), 3)
      else if 0xF0 \<le> a \<and> a < 0xF5 \<and> cont b \<and> cont c \<and> cont d \<and> (a = 0xF0 \<longrightarrow> 0x90 \<le> b) \<and> (a = 0xF4 \<longrightarrow> b < 0x90)
        then ((a - 0xF0) * 262144 + (b - 0x80) * 4096 + (c - 0x80) * 64 + (d - 0x80), 4)
      else (replacementChar, 1))"
| "decode_at bs = (replacementChar, 1)"

text \<open>A string that ends is looked at with zeros behind it, which continue no sequence.\<close>

definition utf8_DecodeRune :: "string \<Rightarrow> rune \<times> nat" where
  "utf8_DecodeRune s = decode_at (map of_char s @ [0, 0, 0])"

function string_runes :: "string \<Rightarrow> rune list" where
  "string_runes [] = []"
| "string_runes (c # s) = (let (r, n) = utf8_DecodeRune (c # s) in r # string_runes (drop (max 1 n) (c # s)))"
  by pat_completeness auto
termination by (relation "measure length") auto

definition runes_string :: "rune list \<Rightarrow> string" where
  "runes_string rs = concat (map utf8_EncodeRune rs)"

definition valid_utf8 :: "string \<Rightarrow> bool" where
  "valid_utf8 s \<longleftrightarrow> runes_string (string_runes s) = s \<and> list_all scalar (string_runes s)"

lemma rune_digits:
  "r = r div 4096 * 4096 + r div 64 mod 64 * 64 + r mod 64"
  "r = r div 262144 * 262144 + r div 4096 mod 64 * 4096 + r div 64 mod 64 * 64 + r mod 64" for r :: nat
proof -
  have d: "r div 4096 = r div 64 div 64" "r div 262144 = r div 4096 div 64" by (simp_all add: div_mult2_eq[symmetric])
  have "r = r div 64 * 64 + r mod 64" "r div 64 = r div 4096 * 64 + r div 64 mod 64"
    "r div 4096 = r div 262144 * 64 + r div 4096 mod 64"
    unfolding d by simp_all
  then show "r = r div 4096 * 4096 + r div 64 mod 64 * 64 + r mod 64"
    "r = r div 262144 * 262144 + r div 4096 mod 64 * 4096 + r div 64 mod 64 * 64 + r mod 64" by linarith+
qed

lemma decode_rune_bytes:
  assumes "scalar r" "3 \<le> length t"
  shows "decode_at (rune_bytes r @ t) = (r, length (rune_bytes r))"
proof -
  obtain x y z u where t: "t = x # y # z # u"
    using assms(2) by (metis Suc_le_length_iff numeral_3_eq_3)
  consider "r < 0x80" | "0x80 \<le> r" "r < 0x800" | "0x800 \<le> r" "r < 0x10000" | "0x10000 \<le> r" "r < 0x110000"
    using assms(1) unfolding scalar_def by linarith
  then show ?thesis
  proof cases
    case 2
    define p q where pq: "p = r div 64" "q = r mod 64"
    have b: "rune_bytes r = [0xC0 + p, 0x80 + q]" using 2 by (simp add: rune_bytes_def pq)
    have r: "r = p * 64 + q" "q < 64" by (simp_all add: pq)
    then have "2 \<le> p" "p < 32" using 2 by linarith+
    then show ?thesis unfolding b t using r by (simp add: cont_def)
  next
    case 3
    define p q n where pq: "p = r div 4096" "q = r div 64 mod 64" "n = r mod 64"
    have b: "rune_bytes r = [0xE0 + p, 0x80 + q, 0x80 + n]" using 3 by (simp add: rune_bytes_def pq)
    have r: "r = p * 4096 + q * 64 + n" "q < 64" "n < 64" using rune_digits(1)[of r] by (simp_all add: pq)
    then have "p < 16" "p = 0 \<Longrightarrow> 32 \<le> q" "p = 13 \<Longrightarrow> q < 32" using 3 assms(1) by (auto simp: scalar_def)
    then show ?thesis unfolding b t using r by (simp add: cont_def)
  next
    case 4
    define p q n m where pq: "p = r div 262144" "q = r div 4096 mod 64" "n = r div 64 mod 64" "m = r mod 64"
    have b: "rune_bytes r = [0xF0 + p, 0x80 + q, 0x80 + n, 0x80 + m]" using 4 by (simp add: rune_bytes_def pq)
    have r: "r = p * 262144 + q * 4096 + n * 64 + m" "q < 64" "n < 64" "m < 64"
      using rune_digits(2)[of r] by (simp_all add: pq)
    then have "p < 5" "p = 0 \<Longrightarrow> 16 \<le> q" "p = 4 \<Longrightarrow> q < 16" using 4 by auto
    then show ?thesis unfolding b t using r by (simp add: cont_def)
  qed (simp add: rune_bytes_def t)
qed

lemma rune_bytes_range: "scalar r \<Longrightarrow> b \<in> set (rune_bytes r) \<Longrightarrow> b < 256"
  by (auto simp: rune_bytes_def scalar_def split: if_splits)

lemma rune_bytes_length: "0 < length (rune_bytes r)" "length (rune_bytes r) \<le> 4"
  by (simp_all add: rune_bytes_def)

lemma DecodeRune_EncodeRune:
  assumes "scalar r"
  shows "utf8_DecodeRune (utf8_EncodeRune r @ s) = (r, length (utf8_EncodeRune r))"
proof -
  have "map of_char (utf8_EncodeRune r) = rune_bytes r"
    using assms rune_bytes_range[OF assms] by (simp add: utf8_EncodeRune_def map_idI)
  then show ?thesis
    using decode_rune_bytes[OF assms, of "map of_char s @ [0, 0, 0]"] assms
    by (simp add: utf8_DecodeRune_def utf8_EncodeRune_def)
qed

lemma string_runes_EncodeRune: "scalar r \<Longrightarrow> string_runes (utf8_EncodeRune r @ s) = r # string_runes s"
proof -
  assume r: "scalar r"
  have "utf8_EncodeRune r \<noteq> []" using rune_bytes_length(1)[of r] r by (auto simp: utf8_EncodeRune_def)
  then obtain c cs where c: "utf8_EncodeRune r = c # cs" by (meson neq_Nil_conv)
  then show ?thesis using DecodeRune_EncodeRune[OF r, of s] by simp
qed

lemma string_runes_runes_string: "list_all scalar rs \<Longrightarrow> string_runes (runes_string rs) = rs"
  by (induction rs) (simp_all add: runes_string_def string_runes_EncodeRune)

text \<open>The valid strings are those of sequences of characters.\<close>

lemma valid_utf8_iff: "valid_utf8 s \<longleftrightarrow> (\<exists>rs. list_all scalar rs \<and> s = runes_string rs)"
  unfolding valid_utf8_def using string_runes_runes_string by metis

lemma runes_string_append: "runes_string (rs @ rs') = runes_string rs @ runes_string rs'"
  by (simp add: runes_string_def)

lemma valid_utf8_append: "valid_utf8 s \<Longrightarrow> valid_utf8 t \<Longrightarrow> valid_utf8 (s @ t)"
  unfolding valid_utf8_iff by (metis list_all_append runes_string_append)

lemma ascii_rune: "r < 128 \<Longrightarrow> utf8_EncodeRune r = [char_of r]"
  by (simp add: utf8_EncodeRune_def rune_bytes_def scalar_def)

lemma valid_utf8_ascii: "\<forall>c \<in> set s. of_char c < (128 :: nat) \<Longrightarrow> valid_utf8 s"
proof (induction s)
  case (Cons c s)
  have "valid_utf8 [c]"
    unfolding valid_utf8_iff using Cons.prems
    by (intro exI[of _ "[of_char c]"]) (simp add: runes_string_def ascii_rune scalar_def)
  then show ?case using valid_utf8_append[of "[c]" s] Cons by simp
qed (simp add: valid_utf8_def runes_string_def)

subsection \<open>UTF-16\<close>

definition utf16_EncodeRune :: "rune \<Rightarrow> nat list" where
  "utf16_EncodeRune r =
     (if \<not> scalar r then [replacementChar]
      else if r < 0x10000 then [r]
      else [0xD800 + (r - 0x10000) div 1024, 0xDC00 + (r - 0x10000) mod 1024])"

definition utf16_Encode :: "rune list \<Rightarrow> uint16 list" where
  "utf16_Encode rs = concat (map (map of_nat \<circ> utf16_EncodeRune) rs)"

fun decode_units :: "nat list \<Rightarrow> rune list" where
  "decode_units [] = []"
| "decode_units [u] = [if scalar u then u else replacementChar]"
| "decode_units (u # v # us) =
     (if scalar u then u # decode_units (v # us)
      else if u < 0xDC00 \<and> 0xDC00 \<le> v \<and> v < 0xE000
        then ((u - 0xD800) * 1024 + (v - 0xDC00) + 0x10000) # decode_units us
      else replacementChar # decode_units (v # us))"

definition utf16_Decode :: "uint16 list \<Rightarrow> rune list" where
  "utf16_Decode us = decode_units (map unat us)"

lemma decode_units_scalar: "scalar u \<Longrightarrow> decode_units (u # us) = u # decode_units us"
  by (cases us) simp_all

lemma decode_units_EncodeRune: "scalar r \<Longrightarrow> decode_units (utf16_EncodeRune r @ us) = r # decode_units us"
proof (cases "r < 0x10000")
  case False
  assume r: "scalar r"
  define p q where pq: "p = (r - 0x10000) div 1024" "q = (r - 0x10000) mod 1024"
  have e: "utf16_EncodeRune r = [0xD800 + p, 0xDC00 + q]" using r False by (simp add: utf16_EncodeRune_def pq)
  have "r - 0x10000 = p * 1024 + q" "q < 1024" by (simp_all add: pq)
  moreover have "r < 0x110000" using r by (auto simp: scalar_def)
  ultimately have "r = p * 1024 + q + 0x10000" "q < 1024" "p < 1024" using False by linarith+
  then show ?thesis unfolding e by (simp add: scalar_def)
qed (simp add: utf16_EncodeRune_def decode_units_scalar)

lemma utf16_units_range: "u \<in> set (utf16_EncodeRune r) \<Longrightarrow> u < 0x10000"
  by (auto simp: utf16_EncodeRune_def scalar_def replacementChar_def split: if_splits)

lemma unat_units: "\<forall>u \<in> set us. u < 0x10000 \<Longrightarrow> map unat (map of_nat us :: uint16 list) = us"
  by (induction us) (simp_all add: unat_of_nat)

lemma utf16_Decode_Encode: "list_all scalar rs \<Longrightarrow> utf16_Decode (utf16_Encode rs) = rs"
proof (induction rs)
  case (Cons r rs)
  then show ?case
    using unat_units[of "utf16_EncodeRune r"] utf16_units_range[of _ r]
    by (simp add: utf16_Decode_def utf16_Encode_def decode_units_EncodeRune del: map_map)
qed (simp add: utf16_Decode_def utf16_Encode_def)

text \<open>Strings with a zero byte are refused; others end with the only zero of the result, which is where
  reading stops.\<close>

definition UTF16FromString :: "string \<Rightarrow> uint16 list option" where
  "UTF16FromString s = (if nul \<in> set s then None else Some (utf16_Encode (string_runes (s @ [nul]))))"

definition cstring :: "uint16 list \<Rightarrow> uint16 list" where
  "cstring us = takeWhile (\<lambda>u. u \<noteq> 0) us"

definition UTF16ToString :: "uint16 list \<Rightarrow> string" where
  "UTF16ToString us = runes_string (utf16_Decode (cstring us))"

text \<open>The text of a string for the system, without its end.\<close>

definition utf16 :: "string \<Rightarrow> uint16 list" where
  "utf16 s = utf16_Encode (string_runes s)"

lemma DecodeRune_snoc:
  assumes "s \<noteq> []"
  shows "utf8_DecodeRune (s @ [nul]) = utf8_DecodeRune s" "snd (utf8_DecodeRune s) \<le> length s"
proof -
  have n: "of_char nul = (0 :: nat)" by (simp add: nul_def)
  consider a where "s = [a]" | a b where "s = [a, b]" | a b c where "s = [a, b, c]" | a b c d t where "s = a # b # c # d # t"
    using assms by (metis neq_Nil_conv)
  then have "utf8_DecodeRune (s @ [nul]) = utf8_DecodeRune s \<and> snd (utf8_DecodeRune s) \<le> length s"
    by cases (simp_all add: utf8_DecodeRune_def cont_def n)
  then show "utf8_DecodeRune (s @ [nul]) = utf8_DecodeRune s" "snd (utf8_DecodeRune s) \<le> length s" by blast+
qed

lemma string_runes_snoc: "string_runes (s @ [nul]) = string_runes s @ [0]"
proof (induction s rule: string_runes.induct)
  case 1
  then show ?case by (simp add: utf8_DecodeRune_def nul_def)
next
  case (2 c s)
  obtain r n where d: "utf8_DecodeRune (c # s) = (r, n)" by force
  with DecodeRune_snoc[of "c # s"] have d': "utf8_DecodeRune ((c # s) @ [nul]) = (r, n)" "max 1 n \<le> length (c # s)"
    by simp_all
  then have "drop (max 1 n) ((c # s) @ [nul]) = drop (max 1 n) (c # s) @ [nul]" unfolding drop_append by simp
  then have "string_runes ((c # s) @ [nul]) = r # string_runes (drop (max 1 n) (c # s) @ [nul])"
    using d'(1) by simp
  with 2[OF d[symmetric] refl] show ?case using d by simp
qed

lemma rune_zero: "0 \<in> set (string_runes s) \<Longrightarrow> nul \<in> set s"
proof (induction s rule: string_runes.induct)
  case (2 c s)
  obtain r n where d: "utf8_DecodeRune (c # s) = (r, n)" by force
  consider "r = 0" | "0 \<in> set (string_runes (drop (max 1 n) (c # s)))" using 2(2) d by auto
  then show ?case
  proof cases
    case 1
    have "of_char c = (0 :: nat)"
    proof -
      obtain x y z t where "map of_char s @ [0, 0, 0] = x # y # z # (t :: nat list)"
        by (cases "map of_char s :: nat list"; cases "tl (map of_char s) :: nat list"; cases "tl (tl (map of_char s)) :: nat list") auto
      then show ?thesis using d 1
        by (auto simp: utf8_DecodeRune_def cont_def replacementChar_def split: if_splits)
    qed
    then have "of_char c = (of_char nul :: nat)" by (simp add: nul_def)
    then show ?thesis by simp
  next
    case 2
    then show ?thesis using "2.IH"[OF d[symmetric] refl] in_set_dropD by metis
  qed
qed simp

lemma utf16_no_zero: "nul \<notin> set s \<Longrightarrow> 0 \<notin> set (utf16 s)"
proof
  assume nz: "nul \<notin> set s" and "0 \<in> set (utf16 s)"
  then obtain r u where r: "r \<in> set (string_runes s)" "u \<in> set (utf16_EncodeRune r)" "of_nat u = (0 :: uint16)"
    by (auto simp: utf16_def utf16_Encode_def)
  have "u = 0" using arg_cong[OF r(3), of unat] utf16_units_range[OF r(2)] by (simp add: unat_of_nat)
  moreover have "r \<noteq> 0" using r(1) nz rune_zero by metis
  ultimately show False using r(2) by (auto simp: utf16_EncodeRune_def replacementChar_def split: if_splits)
qed

lemma UTF16FromString_eq: "UTF16FromString s = (if nul \<in> set s then None else Some (utf16 s @ [0]))"
  by (simp add: UTF16FromString_def string_runes_snoc utf16_def utf16_Encode_def utf16_EncodeRune_def scalar_def)

lemma cstring_end: "0 \<notin> set us \<Longrightarrow> cstring (us @ 0 # vs) = us"
  unfolding cstring_def by (subst takeWhile_append2) auto

lemma cstring_all: "0 \<notin> set us \<Longrightarrow> cstring us = us"
  unfolding cstring_def by (subst takeWhile_eq_all_conv) auto

lemma utf16_text: "valid_utf8 s \<Longrightarrow> runes_string (utf16_Decode (utf16 s)) = s"
  by (simp add: utf16_def utf16_Decode_Encode valid_utf8_def)

lemma utf16_append: "valid_utf8 s \<Longrightarrow> valid_utf8 t \<Longrightarrow> utf16 (s @ t) = utf16 s @ utf16 t"
proof -
  assume "valid_utf8 s" "valid_utf8 t"
  then have "s @ t = runes_string (string_runes s @ string_runes t)" "list_all scalar (string_runes s @ string_runes t)"
    by (simp_all add: valid_utf8_def runes_string_append)
  then show ?thesis using string_runes_runes_string by (metis concat_append map_append utf16_Encode_def utf16_def)
qed

lemma UTF16ToString_all: "valid_utf8 s \<Longrightarrow> nul \<notin> set s \<Longrightarrow> UTF16ToString (utf16 s) = s"
  by (simp add: UTF16ToString_def cstring_all utf16_no_zero utf16_text)

lemma UTF16ToString_utf16: "valid_utf8 s \<Longrightarrow> nul \<notin> set s \<Longrightarrow> UTF16ToString (utf16 s @ 0 # vs) = s"
  by (simp add: UTF16ToString_def cstring_end utf16_no_zero utf16_text)

end
