(* ===== verification/WinCalls.thy ===== *)
theory WinCalls
  imports Utf16
begin

text \<open>
  What the code for Windows shares: the errors it returns, and how a call of the system gets its arguments and
  gives its results back. A call that gets a pointer reads the text up to the first zero of the array; when there is
  none it reads what is not part of the array, and an index outside of a slice panics: both are \<open>Crash\<close>. Calls
  write into an array from its start and cannot make it longer. The kernel itself is an argument of the definitions.
  \<open>Formatted\<close> is an error whose text is a message with another error printed behind it.
\<close>

datatype win_error = EINVAL | Errno nat | ErrorText string
  | LinkError string string string win_error
  | PathError string string win_error
  | UserNotFound win_error string
  | Formatted string win_error

datatype 'a outcome = Ret 'a | Fail win_error | Crash

fun outcome_bind :: "'a outcome \<Rightarrow> ('a \<Rightarrow> 'b outcome) \<Rightarrow> 'b outcome" where
  "outcome_bind (Ret a) k = k a"
| "outcome_bind (Fail e) k = Fail e"
| "outcome_bind Crash k = Crash"

definition of_sum :: "win_error + 'a \<Rightarrow> 'a outcome" where
  "of_sum r = (case r of Inl e \<Rightarrow> Fail e | Inr a \<Rightarrow> Ret a)"

fun wrap_error :: "(win_error \<Rightarrow> win_error) \<Rightarrow> 'a outcome \<Rightarrow> 'a outcome" where
  "wrap_error f (Fail e) = Fail (f e)"
| "wrap_error f r = r"

lemma outcome_bind_Ret: "outcome_bind r k = Ret b \<longleftrightarrow> (\<exists>a. r = Ret a \<and> k a = Ret b)"
  by (cases r) auto

lemma wrap_error_Ret [simp]: "wrap_error f r = Ret a \<longleftrightarrow> r = Ret a" "wrap_error f r = Crash \<longleftrightarrow> r = Crash"
  by (cases r; simp)+

text \<open>The text behind a pointer to the start of an array.\<close>

definition at_pointer :: "uint16 list \<Rightarrow> uint16 list outcome" where
  "at_pointer arr = (if 0 \<in> set arr then Ret (cstring arr) else Crash)"

definition store :: "'a list \<Rightarrow> 'a list \<Rightarrow> 'a list" where
  "store arr new = take (length arr) new @ drop (length new) arr"

text \<open>A pointer to the first element of a slice, which is an array and a length; and the slice up to a length.\<close>

type_synonym slice = "uint16 list \<times> nat"

definition first_of :: "slice \<Rightarrow> uint16 list outcome" where
  "first_of s = (if snd s = 0 then Crash else at_pointer (fst s))"

definition upto :: "uint16 list \<Rightarrow> nat \<Rightarrow> slice outcome" where
  "upto arr n = (if n \<le> length arr then Ret (arr, n) else Crash)"

definition elements :: "slice \<Rightarrow> uint16 list" where
  "elements s = take (snd s) (fst s)"

definition UTF16PtrFromString :: "string \<Rightarrow> uint16 list outcome" where
  "UTF16PtrFromString s = (case UTF16FromString s of None \<Rightarrow> Fail EINVAL | Some a \<Rightarrow> Ret a)"

text \<open>A call has failed when its result is zero; then the last error of the thread says why.\<close>

definition last_error :: "nat \<Rightarrow> win_error" where
  "last_error e1 = (if e1 \<noteq> 0 then Errno e1 else EINVAL)"

definition bool_result :: "nat \<Rightarrow> nat \<Rightarrow> unit outcome" where
  "bool_result r1 e1 = (if r1 = 0 then Fail (last_error e1) else Ret ())"

definition count_result :: "nat \<Rightarrow> nat \<Rightarrow> nat outcome" where
  "count_result r0 e1 = (let n = r0 mod 2 ^ 32 in if n = 0 then Fail (last_error e1) else Ret n)"

lemma length_store [simp]: "length (store arr new) = length arr"
  by (simp add: store_def)

lemma store_text:
  assumes "0 \<notin> set q" "length q < length arr" "prefix (q @ [0]) new" "length new \<le> length arr"
  shows "store arr new = q @ 0 # drop (length q + 1) (store arr new)" "at_pointer (store arr new) = Ret q"
    "take (length q) (store arr new) = q"
proof -
  obtain r where n: "new = q @ 0 # r" using assms(3) by (auto simp: prefix_def)
  then show s: "store arr new = q @ 0 # drop (length q + 1) (store arr new)" using assms(4) by (simp add: store_def)
  show "at_pointer (store arr new) = Ret q" using n assms(1,4) by (simp add: at_pointer_def store_def cstring_end)
  show "take (length q) (store arr new) = q" by (subst s) simp
qed

lemma at_pointer_utf16 [simp]: "nul \<notin> set s \<Longrightarrow> at_pointer (utf16 s @ 0 # vs) = Ret (utf16 s)"
  by (simp add: at_pointer_def cstring_end utf16_no_zero)

lemma UTF16Ptr_eq: "UTF16PtrFromString s = (if nul \<in> set s then Fail EINVAL else Ret (utf16 s @ [0]))"
  by (simp add: UTF16PtrFromString_def UTF16FromString_eq)

end
