(* ===== verification/WinSymlink.thy ===== *)
theory WinSymlink
  imports WinCalls
begin

text \<open>
  Symbolic links on Windows: \<^verbatim>\<open>src/symlink/symlink_windows.go\<close> and the bindings generated for it. The kernel is
  the argument \<open>K\<close>, which works on a state of its own; \<open>kernel_laws\<close> is what the documentation of its calls promises.
  Buffers and the sharing of an array by two slices are explicit.
\<close>

record ('w, 'h) kernel =
  k_GetLongPathNameW :: "uint16 list \<Rightarrow> uint16 list \<Rightarrow> 'w \<Rightarrow> nat \<times> nat \<times> uint16 list"
  k_CreateSymbolicLinkW :: "uint16 list \<Rightarrow> uint16 list \<Rightarrow> nat \<Rightarrow> 'w \<Rightarrow> (nat \<times> nat) \<times> 'w"
  k_GetFinalPathNameByHandleW :: "'h \<Rightarrow> uint16 list \<Rightarrow> 'w \<Rightarrow> nat \<times> nat \<times> uint16 list"
  k_CreateFile :: "uint16 list \<Rightarrow> 'w \<Rightarrow> (win_error + 'h) \<times> 'w"
  k_CloseHandle :: "'h \<Rightarrow> 'w \<Rightarrow> 'w"
  k_Stat :: "string \<Rightarrow> 'w \<Rightarrow> win_error + bool"

subsection \<open>The bindings\<close>

definition createSymbolicLink ::
  "('w, 'h) kernel \<Rightarrow> uint16 list \<Rightarrow> uint16 list \<Rightarrow> nat \<Rightarrow> 'w \<Rightarrow> unit outcome \<times> 'w" where
  "createSymbolicLink K symlinkname targetname flags w =
     (case k_CreateSymbolicLinkW K symlinkname targetname flags w of ((r1, e1), w') \<Rightarrow> (bool_result r1 e1, w'))"

definition getFinalPathNameByHandle ::
  "('w, 'h) kernel \<Rightarrow> 'h \<Rightarrow> uint16 list \<Rightarrow> 'w \<Rightarrow> nat outcome \<times> uint16 list" where
  "getFinalPathNameByHandle K h buf w =
     (case k_GetFinalPathNameByHandleW K h buf w of (r0, e1, new) \<Rightarrow> (count_result r0 e1, store buf new))"

text \<open>\<^verbatim>\<open>syscall.GetLongPathName\<close> is a binding of the same form.\<close>

definition GetLongPathName ::
  "('w, 'h) kernel \<Rightarrow> uint16 list \<Rightarrow> uint16 list \<Rightarrow> 'w \<Rightarrow> nat outcome \<times> uint16 list" where
  "GetLongPathName K path buf w =
     (case k_GetLongPathNameW K path buf w of (r0, e1, new) \<Rightarrow> (count_result r0 e1, store buf new))"

subsection \<open>The package\<close>

definition SYMBOLIC_LINK_FLAG_DIRECTORY :: nat where "SYMBOLIC_LINK_FLAG_DIRECTORY = 1"

definition MAX_PATH :: nat where "MAX_PATH = 260"

text \<open>The first call writes into the array that holds the path; the second one, when the array was too
  small, reads the path from there again and writes into a new one.\<close>

definition getLongPath :: "('w, 'h) kernel \<Rightarrow> string \<Rightarrow> 'w \<Rightarrow> slice outcome" where
  "getLongPath K path w =
     outcome_bind (UTF16PtrFromString path) (\<lambda>pathp.
     outcome_bind (at_pointer pathp) (\<lambda>p.
       case GetLongPathName K p pathp w of (r, longp) \<Rightarrow>
       outcome_bind r (\<lambda>n.
         if n > length longp then
           outcome_bind (at_pointer longp) (\<lambda>p'.
             case GetLongPathName K p' (replicate n 0) w of (r', longp') \<Rightarrow>
             outcome_bind r' (\<lambda>n'. upto longp' n'))
         else upto longp n)))"

definition getLongPathAsString :: "('w, 'h) kernel \<Rightarrow> string \<Rightarrow> 'w \<Rightarrow> string outcome" where
  "getLongPathAsString K path w =
     outcome_bind (getLongPath K path w) (\<lambda>longp. Ret (UTF16ToString (elements longp)))"

definition win_New :: "('w, 'h) kernel \<Rightarrow> string \<Rightarrow> string \<Rightarrow> 'w \<Rightarrow> unit outcome \<times> 'w" where
  "win_New K oldname newname w =
     (let args =
        outcome_bind (of_sum (k_Stat K oldname w)) (\<lambda>isDir.
        let flag = (if isDir then SYMBOLIC_LINK_FLAG_DIRECTORY else 0) in
        outcome_bind (getLongPath K oldname w) (\<lambda>targetp.
        outcome_bind (UTF16PtrFromString newname) (\<lambda>linkp.
        outcome_bind (first_of targetp) (\<lambda>target.
        outcome_bind (at_pointer linkp) (\<lambda>link. Ret (link, target, flag))))))
      in case args of
           Ret (link, target, flag) \<Rightarrow>
             (case createSymbolicLink K link target flag w of
                (r, w') \<Rightarrow> (wrap_error (LinkError ''symlink'' oldname newname) r, w'))
         | Fail e \<Rightarrow> (Fail (LinkError ''symlink'' oldname newname e), w)
         | Crash \<Rightarrow> (Crash, w))"

definition long_prefix :: string where
  "long_prefix = [CHR 0x5C, CHR 0x5C, CHR ''?'', CHR 0x5C]"

text \<open>What \<^verbatim>\<open>Read\<close> does with the handle.\<close>

definition final_path :: "('w, 'h) kernel \<Rightarrow> 'h \<Rightarrow> 'w \<Rightarrow> string outcome" where
  "final_path K h w =
     (case getFinalPathNameByHandle K h (replicate MAX_PATH 0) w of (r, pathw) \<Rightarrow>
      outcome_bind r (\<lambda>n.
      outcome_bind
        (if n > length pathw then
           (case getFinalPathNameByHandle K h (replicate n 0) w of (r', pathw') \<Rightarrow>
            outcome_bind r' (\<lambda>n'.
              if n' > length pathw' then Fail (ErrorText ''link length too long'') else Ret (take n' pathw')))
         else Ret (take n pathw))
        (\<lambda>us.
          let ret = runes_string (utf16_Decode us) in
          if strings_HasPrefix ret long_prefix then Ret (drop 4 ret)
          else outcome_bind (getLongPath K ret w) (\<lambda>retp. Ret (UTF16ToString (elements retp))))))"

definition win_Read :: "('w, 'h) kernel \<Rightarrow> string \<Rightarrow> 'w \<Rightarrow> string outcome \<times> 'w" where
  "win_Read K link w =
     (case outcome_bind (getLongPath K link w) first_of of
        Fail e \<Rightarrow> (Fail e, w)
      | Crash \<Rightarrow> (Crash, w)
      | Ret linkp \<Rightarrow>
          (case k_CreateFile K linkp w of
             (Inl e, w') \<Rightarrow> (Fail (PathError ''readlink'' link e), w')
           | (Inr h, w') \<Rightarrow> (wrap_error (PathError ''readlink'' link) (final_path K h w'), k_CloseHandle K h w')))"

subsection \<open>What the kernel promises\<close>

text \<open>The names of a state: the long path of a path that exists, and the path of the file that is opened by a
  path, after following links.\<close>

record 'w names =
  longname :: "'w \<Rightarrow> uint16 list \<Rightarrow> uint16 list option"
  final_name :: "'w \<Rightarrow> uint16 list \<Rightarrow> uint16 list option"

text \<open>A call that returns a text returns its length when the buffer has room for it and a final zero, and otherwise
  the room that is needed; then it writes nothing.\<close>

definition gives_text :: "(uint16 list \<Rightarrow> nat \<times> nat \<times> uint16 list) \<Rightarrow> uint16 list \<Rightarrow> bool" where
  "gives_text call q \<longleftrightarrow>
     0 \<notin> set q \<and> q \<noteq> [] \<and> length q < 32768
     \<and> (\<forall>buf. case call buf of (r0, e1, new) \<Rightarrow>
          if length q < length buf then r0 = length q \<and> prefix (q @ [0]) new \<and> length new \<le> length buf
          else r0 = length q + 1 \<and> new = [])"

text \<open>Links are created so that opening the link opens the target; the path of an open file starts with
  the prefix of long paths.\<close>

definition kernel_laws :: "('w, 'h) kernel \<Rightarrow> 'w names \<Rightarrow> bool" where
  "kernel_laws K N \<longleftrightarrow>
     (\<forall>w p q. longname N w p = Some q \<longrightarrow> gives_text (\<lambda>buf. k_GetLongPathNameW K p buf w) q)
     \<and> (\<forall>w p f. final_name N w p = Some f \<longrightarrow>
          (\<exists>h w'. k_CreateFile K p w = (Inr h, w')
             \<and> gives_text (\<lambda>buf. k_GetFinalPathNameByHandleW K h buf w') (utf16 long_prefix @ f)))
     \<and> (\<forall>l t flags w r1 e1 w'. k_CreateSymbolicLinkW K l t flags w = ((r1, e1), w') \<longrightarrow> r1 \<noteq> 0 \<longrightarrow>
          (\<exists>l'. longname N w' l = Some l' \<and> final_name N w' l' = final_name N w t))"

lemma kernel_lawsD:
  assumes "kernel_laws K N"
  shows "longname N w p = Some q \<Longrightarrow> gives_text (\<lambda>buf. k_GetLongPathNameW K p buf w) q"
    "final_name N w p = Some f \<Longrightarrow> \<exists>h w'. k_CreateFile K p w = (Inr h, w')
       \<and> gives_text (\<lambda>buf. k_GetFinalPathNameByHandleW K h buf w') (utf16 long_prefix @ f)"
    "k_CreateSymbolicLinkW K l t flags w = ((r1, e1), w') \<Longrightarrow> r1 \<noteq> 0 \<Longrightarrow>
       \<exists>l'. longname N w' l = Some l' \<and> final_name N w' l' = final_name N w t"
  using assms unfolding kernel_laws_def by blast+

lemma gives_text_result:
  assumes "gives_text call q" "call buf = (r0, e1, new)"
  shows "length q < length buf \<Longrightarrow> count_result r0 e1 = Ret (length q)"
    "length q < length buf \<Longrightarrow> at_pointer (store buf new) = Ret q \<and> take (length q) (store buf new) = q"
    "\<not> length q < length buf \<Longrightarrow> count_result r0 e1 = Ret (length q + 1) \<and> store buf new = buf"
proof -
  have q: "0 \<notin> set q" "q \<noteq> []" "length q < 32768" using assms(1) by (simp_all add: gives_text_def)
  have r: "if length q < length buf then r0 = length q \<and> prefix (q @ [0]) new \<and> length new \<le> length buf
      else r0 = length q + 1 \<and> new = []"
    using assms by (auto simp: gives_text_def dest: spec[of _ buf])
  show "length q < length buf \<Longrightarrow> count_result r0 e1 = Ret (length q)"
    using r q by (simp add: count_result_def)
  show "length q < length buf \<Longrightarrow> at_pointer (store buf new) = Ret q \<and> take (length q) (store buf new) = q"
    using r store_text[OF q(1), of buf new] by simp
  show "\<not> length q < length buf \<Longrightarrow> count_result r0 e1 = Ret (length q + 1) \<and> store buf new = buf"
    using r q by (simp add: count_result_def store_def)
qed

subsection \<open>Long paths\<close>

text \<open>Whichever of the two calls succeeds, the slice has the long path, and its array goes on with a zero.\<close>

lemma getLongPath_long:
  assumes "kernel_laws K N" "nul \<notin> set path" "longname N w (utf16 path) = Some q"
  shows "\<exists>longp. getLongPath K path w = Ret longp \<and> elements longp = q \<and> first_of longp = Ret q"
proof -
  have g: "gives_text (\<lambda>buf. k_GetLongPathNameW K (utf16 path) buf w) q"
    using kernel_lawsD(1)[OF assms(1,3)] .
  then have q: "q \<noteq> []" by (simp add: gives_text_def)
  let ?a = "utf16 path @ [0]"
  obtain r0 e1 new where c: "k_GetLongPathNameW K (utf16 path) ?a w = (r0, e1, new)" using prod_cases3 by blast
  note r = gives_text_result[OF g c]
  show ?thesis
  proof (cases "length q < length ?a")
    case True
    then have "getLongPath K path w = Ret (store ?a new, length q)"
      using r(1) assms(2) c by (simp add: getLongPath_def UTF16Ptr_eq GetLongPathName_def upto_def)
    then show ?thesis using r(2)[OF True] q by (auto simp: elements_def first_of_def)
  next
    case False
    let ?b = "replicate (length q + 1) 0 :: uint16 list"
    obtain r0' e1' new' where c': "k_GetLongPathNameW K (utf16 path) ?b w = (r0', e1', new')" using prod_cases3 by blast
    note r' = gives_text_result[OF g c']
    have "getLongPath K path w = Ret (store ?b new', length q)"
      using r(3)[OF False] r'(1) assms(2) c c' False
      by (simp add: getLongPath_def UTF16Ptr_eq GetLongPathName_def upto_def del: replicate_Suc)
    then show ?thesis using r'(2) q by (auto simp: elements_def first_of_def)
  qed
qed

lemma getLongPathAsString_long:
  assumes "kernel_laws K N" "nul \<notin> set path" "longname N w (utf16 path) = Some (utf16 long)" "valid_utf8 long" "nul \<notin> set long"
  shows "getLongPathAsString K path w = Ret long"
  using getLongPath_long[OF assms(1-3)] UTF16ToString_all[OF assms(4,5)] by (auto simp: getLongPathAsString_def)

subsection \<open>Reading a link\<close>

lemma long_prefix_valid: "valid_utf8 long_prefix" "nul \<notin> set long_prefix"
  by (auto simp: long_prefix_def nul_def intro!: valid_utf8_ascii)

lemma final_path_text:
  assumes "gives_text (\<lambda>buf. k_GetFinalPathNameByHandleW K h buf w) (utf16 long_prefix @ utf16 f)" "valid_utf8 f"
  shows "final_path K h w = Ret f"
proof -
  define q where "q = utf16 long_prefix @ utf16 f"
  have "q = utf16 (long_prefix @ f)" using utf16_append[OF long_prefix_valid(1) assms(2)] by (simp add: q_def)
  then have str: "runes_string (utf16_Decode q) = long_prefix @ f"
    using utf16_text[OF valid_utf8_append[OF long_prefix_valid(1) assms(2)]] by simp
  have four: "length long_prefix = 4" by (simp add: long_prefix_def)
  let ?call = "\<lambda>buf. k_GetFinalPathNameByHandleW K h buf w"
  let ?a = "replicate MAX_PATH 0 :: uint16 list" and ?b = "replicate (length q + 1) 0 :: uint16 list"
  obtain r0 e1 new where c: "?call ?a = (r0, e1, new)" using prod_cases3 by blast
  obtain r0' e1' new' where c': "?call ?b = (r0', e1', new')" using prod_cases3 by blast
  note r = gives_text_result[OF assms(1)[folded q_def] c] and r' = gives_text_result[OF assms(1)[folded q_def] c']
  show ?thesis
  proof (cases "length q < length ?a")
    case True
    then have "getFinalPathNameByHandle K h ?a w = (Ret (length q), store ?a new)" "take (length q) (store ?a new) = q"
      using r c by (simp_all add: getFinalPathNameByHandle_def)
    then show ?thesis using True str four by (simp add: final_path_def strings_HasPrefix_def)
  next
    case False
    then have "getFinalPathNameByHandle K h ?a w = (Ret (length q + 1), ?a)"
      using r(3) c by (simp add: getFinalPathNameByHandle_def)
    moreover have "getFinalPathNameByHandle K h ?b w = (Ret (length q), store ?b new')" "take (length q) (store ?b new') = q"
      using r' c' by (simp_all add: getFinalPathNameByHandle_def del: replicate_Suc)
    ultimately show ?thesis using False str four
      by (simp add: final_path_def strings_HasPrefix_def del: replicate_Suc)
  qed
qed


text \<open>The kernel reports a file on a share by the prefix \<^verbatim>\<open>\\?\UNC\\<close> and the path behind the two backslashes. Only
  four characters are cut off, so that what \<^verbatim>\<open>Read\<close> returns is a relative path.\<close>

definition unc_prefix :: string where
  "unc_prefix = ''UNC'' @ [CHR 0x5C]"

lemma final_path_UNC:
  assumes "gives_text (\<lambda>buf. k_GetFinalPathNameByHandleW K h buf w) (utf16 long_prefix @ utf16 (unc_prefix @ share))"
    and "valid_utf8 share"
  shows "final_path K h w = Ret (unc_prefix @ share)"
proof (rule final_path_text[OF assms(1)])
  have "valid_utf8 unc_prefix" by (rule valid_utf8_ascii) (simp add: unc_prefix_def)
  then show "valid_utf8 (unc_prefix @ share)" using assms(2) by (rule valid_utf8_append)
qed

text \<open>\<^verbatim>\<open>getLongPath\<close> does not look at the result of its second call: when the path has become longer in between,
  the slice is out of range.\<close>

lemma getLongPath_grown:
  assumes "nul \<notin> set path" "k_GetLongPathNameW K (utf16 path) (utf16 path @ [0]) w = (n, 0, [])"
    and "length (utf16 path) + 1 < n" "n < 2 ^ 32"
    and "k_GetLongPathNameW K (utf16 path) (replicate n 0) w = (m, 0, [])" "n < m" "m < 2 ^ 32"
  shows "getLongPath K path w = Crash"
  using assms by (simp add: getLongPath_def UTF16Ptr_eq GetLongPathName_def count_result_def store_def upto_def)

subsection \<open>A kernel\<close>

text \<open>The state is the list of links with the paths they lead to; all other paths name themselves.\<close>

type_synonym links = "(uint16 list \<times> uint16 list) list"

definition proper :: "uint16 list \<Rightarrow> uint16 list option" where
  "proper p = (if p \<noteq> [] \<and> 0 \<notin> set p \<and> length p < 32000 then Some p else None)"

definition demo_final :: "links \<Rightarrow> uint16 list \<Rightarrow> uint16 list option" where
  "demo_final w p = (case map_of w p of None \<Rightarrow> proper p | Some t \<Rightarrow> proper t)"

definition demo_names :: "links names" where
  "demo_names = \<lparr>longname = (\<lambda>w. proper), final_name = demo_final\<rparr>"

definition fill :: "uint16 list \<Rightarrow> uint16 list \<Rightarrow> nat \<times> nat \<times> uint16 list" where
  "fill q buf = (if length q < length buf then (length q, 0, q @ [0]) else (length q + 1, 0, []))"

definition demo_kernel :: "(links, uint16 list) kernel" where
  "demo_kernel =
     \<lparr>k_GetLongPathNameW = (\<lambda>p buf w. case proper p of None \<Rightarrow> (0, 2, []) | Some q \<Rightarrow> fill q buf),
      k_CreateSymbolicLinkW = (\<lambda>l t flags w.
        case (proper l, demo_final w t) of (Some l, Some f) \<Rightarrow> ((1, 0), (l, f) # w) | _ \<Rightarrow> ((0, 2), w)),
      k_GetFinalPathNameByHandleW = (\<lambda>h buf w. fill (utf16 long_prefix @ h) buf),
      k_CreateFile = (\<lambda>p w. case demo_final w p of None \<Rightarrow> (Inl (Errno 2), w) | Some f \<Rightarrow> (Inr f, w)),
      k_CloseHandle = (\<lambda>h w. w), k_Stat = (\<lambda>p w. Inr False)\<rparr>"

lemma proper_Some: "proper p = Some q \<longleftrightarrow> q = p \<and> p \<noteq> [] \<and> 0 \<notin> set p \<and> length p < 32000"
  by (auto simp: proper_def)

lemma gives_text_fill: "0 \<notin> set q \<Longrightarrow> q \<noteq> [] \<Longrightarrow> length q < 32768 \<Longrightarrow> gives_text (fill q) q"
  by (simp add: gives_text_def fill_def)

lemma demo_final_proper: "demo_final w p = Some f \<Longrightarrow> proper f = Some f"
  by (auto simp: demo_final_def proper_Some split: option.splits)

lemma utf16_long_prefix: "utf16 long_prefix = [0x5C, 0x5C, 0x3F, 0x5C]"
  by (simp add: utf16_def utf16_Encode_def utf16_EncodeRune_def long_prefix_def utf8_DecodeRune_def scalar_def)

lemma demo_kernel_laws: "kernel_laws demo_kernel demo_names"
  unfolding kernel_laws_def
proof (intro conjI allI impI)
  fix w :: links and p q
  assume "longname demo_names w p = Some q"
  then have p: "proper p = Some q" by (simp add: demo_names_def)
  then have "gives_text (fill q) q" by (intro gives_text_fill) (auto simp: proper_Some)
  then show "gives_text (\<lambda>buf. k_GetLongPathNameW demo_kernel p buf w) q" using p by (simp add: demo_kernel_def)
next
  fix w p f
  assume f: "final_name demo_names w p = Some f"
  then have "gives_text (fill (utf16 long_prefix @ f)) (utf16 long_prefix @ f)"
    using demo_final_proper[of w p f]
    by (intro gives_text_fill) (auto simp: utf16_long_prefix proper_Some demo_names_def)
  then show "\<exists>h w'. k_CreateFile demo_kernel p w = (Inr h, w')
      \<and> gives_text (\<lambda>buf. k_GetFinalPathNameByHandleW demo_kernel h buf w') (utf16 long_prefix @ f)"
    using f by (simp add: demo_names_def demo_kernel_def)
next
  fix l t flags w r1 e1 w'
  assume "k_CreateSymbolicLinkW demo_kernel l t flags w = ((r1, e1), w')" "r1 \<noteq> 0"
  then obtain f where "proper l = Some l" "demo_final w t = Some f" "w' = (l, f) # w"
    by (auto simp: demo_kernel_def proper_Some split: option.splits)
  then show "\<exists>l'. longname demo_names w' l = Some l' \<and> final_name demo_names w' l' = final_name demo_names w t"
    using demo_final_proper[of w t f] by (auto simp: demo_names_def demo_final_def[of "(l, f) # w"])
qed


end
