(* ===== verification/WinFile.thy ===== *)
theory WinFile
  imports Paths WinCalls "HOL-Library.Signed_Division"
begin

text \<open>
  The Windows variants of the package \<^verbatim>\<open>utils\<close> (\<^verbatim>\<open>src/file_windows.go\<close>, \<^verbatim>\<open>src/home_windows.go\<close>, \<^verbatim>\<open>src/zfile_windows.go\<close>)
  and of \<^verbatim>\<open>uptime\<close>: file URLs, the home directory in the environment and in the registry, replacing a file and the time
  since the system was started. The functions of \<^verbatim>\<open>path/filepath\<close> are those of Windows; what they do with separators
  is what \<open>Paths\<close> does with slashes.
\<close>

subsection \<open>Paths of Windows\<close>

definition bslash :: char where "bslash = CHR 0x5C"

definition isSlash :: "char \<Rightarrow> bool" where
  "isSlash c \<longleftrightarrow> c = bslash \<or> c = slash"

definition ToSlash :: "string \<Rightarrow> string" where
  "ToSlash s = map (\<lambda>c. if c = bslash then slash else c) s"

definition FromSlash :: "string \<Rightarrow> string" where
  "FromSlash s = map (\<lambda>c. if c = slash then bslash else c) s"

definition drive_letter :: "char \<Rightarrow> bool" where
  "drive_letter c \<longleftrightarrow> (let n = of_char c :: nat in 65 \<le> n \<and> n \<le> 90 \<or> 97 \<le> n \<and> n \<le> 122)"

text \<open>The length of the server and share at the start of a path: two slashes, a name, one slash and a name,
  neither of which starts with a period or a slash.\<close>

definition share_len :: "string \<Rightarrow> nat" where
  "share_len p =
     (case p of
        a # b # c # s \<Rightarrow>
          if isSlash a \<and> isSlash b \<and> \<not> isSlash c \<and> c \<noteq> CHR ''.'' then
            (case dropWhile (\<lambda>c. \<not> isSlash c) s of
               y # x # t \<Rightarrow>
                 if isSlash x \<or> x = CHR ''.'' then 0
                 else 4 + length (takeWhile (\<lambda>c. \<not> isSlash c) s) + length (takeWhile (\<lambda>c. \<not> isSlash c) (x # t))
             | _ \<Rightarrow> 0)
          else 0
      | _ \<Rightarrow> 0)"

definition VolumeName :: "string \<Rightarrow> string" where
  "VolumeName p =
     (case p of
        c # d # s \<Rightarrow> if d = CHR '':'' \<and> drive_letter c then [c, d] else take (share_len p) p
      | _ \<Rightarrow> [])"

definition win_Clean :: "string \<Rightarrow> string" where
  "win_Clean p =
     (let vol = VolumeName p; rest = drop (length vol) p in
      if rest = [] then (if length vol > 1 \<and> vol ! 1 \<noteq> CHR '':'' then FromSlash p else p @ dot)
      else FromSlash (vol @ path_Clean (ToSlash rest)))"

definition win_Join :: "string list \<Rightarrow> string" where
  "win_Join elems =
     (case dropWhile (\<lambda>e. e = []) elems of [] \<Rightarrow> [] | es \<Rightarrow> win_Clean (strings_Join [bslash] es))"

subsection \<open>File URLs\<close>

definition file_scheme :: string where "file_scheme = ''file://''"

definition localhost :: string where
  "localhost = file_scheme @ [bslash, bslash] @ ''localhost'' @ [bslash]"

definition win_MakeFileURL :: "string \<Rightarrow> string" where
  "win_MakeFileURL inp =
     (let volumeName =
        (if strings_HasPrefix inp file_scheme then VolumeName (strings_TrimPrefix inp file_scheme) else VolumeName inp) in
      if volumeName \<noteq> [] then
        (let volumeName = strings_TrimSuffix volumeName '':'' in
         if strings_HasPrefix inp localhost then inp
         else
           (let inp = ToSlash inp; pre = localhost @ volumeName @ ''$'' in
            if strings_HasPrefix inp volumeName then pre @ strings_TrimPrefix inp (volumeName @ '':'')
            else if strings_HasPrefix inp (file_scheme @ volumeName)
              then pre @ strings_TrimPrefix inp (file_scheme @ volumeName @ '':'')
            else inp))
      else inp)"

subsection \<open>The home directory\<close>

definition win_Home :: "env \<Rightarrow> string" where
  "win_Home env = win_Join [os_Getenv env ''HOMEDRIVE'', os_Getenv env ''HOMEPATH'']"

definition setenv_error :: "string \<Rightarrow> string \<Rightarrow> win_error option" where
  "setenv_error key value = (if setenv_ok key value then None else Some EINVAL)"

definition win_SetHome :: "string \<Rightarrow> env \<Rightarrow> win_error option \<times> env" where
  "win_SetHome s env =
     (let v = VolumeName s;
          (err, env1) = (if v \<noteq> [] then (setenv_error ''HOMEDRIVE'' v, os_Setenv ''HOMEDRIVE'' v env) else (None, env))
      in if err \<noteq> None then (err, env1)
         else (setenv_error ''HOMEPATH'' (drop (length v) s), os_Setenv ''HOMEPATH'' (drop (length v) s) env1))"

text \<open>The registry. \<open>RegQueryValueEx\<close> is the call of the kernel, the first or the second of them, for a value and with the
  size of the buffer in bytes (\<^const>\<open>None\<close> without one): an error, or the size of the value and the bytes it writes.
  \<^verbatim>\<open>StringToUTF16Ptr\<close> panics where \<^verbatim>\<open>UTF16PtrFromString\<close> fails.\<close>

definition StringToUTF16Ptr :: "string \<Rightarrow> uint16 list outcome" where
  "StringToUTF16Ptr s = (case UTF16FromString s of None \<Rightarrow> Crash | Some a \<Rightarrow> Ret a)"

type_synonym reg_query = "nat \<Rightarrow> uint16 list \<Rightarrow> nat option \<Rightarrow> win_error + nat \<times> 8 word list"

fun le_words :: "8 word list \<Rightarrow> uint16 list" where
  "le_words (a # b # s) = of_nat (unat a + 256 * unat b) # le_words s"
| "le_words s = []"

definition readRegString :: "reg_query \<Rightarrow> string \<Rightarrow> string outcome" where
  "readRegString RegQueryValueEx key =
     outcome_bind (outcome_bind (StringToUTF16Ptr key) at_pointer) (\<lambda>k.
     outcome_bind (of_sum (RegQueryValueEx 0 k None)) (\<lambda>(buf, _).
     let n = replicate (2 * (buf div 2 + 1)) 0 in
     outcome_bind (of_sum (RegQueryValueEx 1 k (Some buf))) (\<lambda>(_, new).
     Ret (UTF16ToString (le_words (store n new))))))"

definition profile_list :: string where
  "profile_list = ''Software'' @ [bslash] @ ''Microsoft'' @ [bslash] @ ''Windows NT'' @ [bslash] @ ''CurrentVersion''
     @ [bslash] @ ''ProfileList'' @ [bslash]"

definition homeFromRegistry ::
  "(uint16 list \<Rightarrow> win_error + 'h) \<Rightarrow> ('h \<Rightarrow> reg_query) \<Rightarrow> string \<Rightarrow> string outcome" where
  "homeFromRegistry RegOpenKeyEx RegQueryValueEx sid =
     outcome_bind (outcome_bind (StringToUTF16Ptr (profile_list @ sid)) at_pointer) (\<lambda>keyPath.
     outcome_bind (of_sum (RegOpenKeyEx keyPath)) (\<lambda>h. readRegString (RegQueryValueEx h) ''ProfileImagePath''))"

definition getUserSID :: "(string \<Rightarrow> win_error + 'sid) \<Rightarrow> ('sid \<Rightarrow> win_error + string) \<Rightarrow> string \<Rightarrow> win_error + string" where
  "getUserSID LookupSID SID_String username = sum_bind (LookupSID username) SID_String"

definition win_homeDir ::
  "(string \<Rightarrow> win_error + 'sid) \<Rightarrow> ('sid \<Rightarrow> win_error + string) \<Rightarrow> (uint16 list \<Rightarrow> win_error + 'h) \<Rightarrow> ('h \<Rightarrow> reg_query)
    \<Rightarrow> string \<Rightarrow> string outcome" where
  "win_homeDir LookupSID SID_String RegOpenKeyEx RegQueryValueEx user =
     (case getUserSID LookupSID SID_String user of
        Inl err \<Rightarrow> Fail (UserNotFound err ''no such user'')
      | Inr u \<Rightarrow> homeFromRegistry RegOpenKeyEx RegQueryValueEx u)"

subsection \<open>Replacing a file\<close>

definition movefile_flags :: nat where "movefile_flags = 0x1 + 0x8"

text \<open>The kernel's \<^verbatim>\<open>MoveFileExW\<close> works on a state; its results are the first register and the last error.\<close>

definition moveFileEx ::
  "(uint16 list \<Rightarrow> uint16 list \<Rightarrow> nat \<Rightarrow> 'w \<Rightarrow> (nat \<times> nat) \<times> 'w) \<Rightarrow> uint16 list \<Rightarrow> uint16 list \<Rightarrow> nat \<Rightarrow> 'w
    \<Rightarrow> unit outcome \<times> 'w" where
  "moveFileEx MoveFileExW src dst flags w = (case MoveFileExW src dst flags w of ((r1, e1), w') \<Rightarrow> (bool_result r1 e1, w'))"

definition win_ReplaceFile ::
  "(uint16 list \<Rightarrow> uint16 list \<Rightarrow> nat \<Rightarrow> 'w \<Rightarrow> (nat \<times> nat) \<times> 'w) \<Rightarrow> string \<Rightarrow> string \<Rightarrow> 'w \<Rightarrow> unit outcome \<times> 'w" where
  "win_ReplaceFile MoveFileExW source destination w =
     (let args =
        outcome_bind (UTF16PtrFromString source) (\<lambda>src.
        outcome_bind (UTF16PtrFromString destination) (\<lambda>dest.
        outcome_bind (at_pointer src) (\<lambda>s. outcome_bind (at_pointer dest) (\<lambda>d. Ret (s, d)))))
      in case args of
           Ret (s, d) \<Rightarrow>
             (case moveFileEx MoveFileExW s d movefile_flags w of
                (r, w') \<Rightarrow> (wrap_error (LinkError ''replace'' source destination) r, w'))
         | Fail e \<Rightarrow> (Fail (LinkError ''replace'' source destination e), w)
         | Crash \<Rightarrow> (Crash, w))"

subsection \<open>Uptime\<close>

text \<open>The first register has the width of a pointer, the type of \<open>r0\<close>.\<close>

definition getTickCount64 :: "'a::len word \<Rightarrow> nat \<Rightarrow> (64 word) outcome" where
  "getTickCount64 r0 e1 = (let uptime = ucast r0 in if uptime = 0 then Fail (last_error e1) else Ret uptime)"

definition win_Uptime :: "'a::len word \<Rightarrow> nat \<Rightarrow> int outcome" where
  "win_Uptime r0 e1 = wrap_error (Formatted ''Failed to get uptime. Error number: '')
     (outcome_bind (getTickCount64 r0 e1) (\<lambda>uptime. Ret (sint uptime sdiv 1000)))"

subsection \<open>File URLs of drives\<close>

lemma drive_letter_facts:
  assumes "drive_letter d"
  shows "\<not> isSlash d" "d \<noteq> CHR '':''" "d \<noteq> CHR ''/''" "d \<noteq> bslash"
  using assms by (auto simp: drive_letter_def isSlash_def bslash_def slash_def Let_def)

lemma VolumeName_drive: "drive_letter d \<Longrightarrow> VolumeName (d # CHR '':'' # s) = [d, CHR '':'']"
  by (simp add: VolumeName_def)

lemma ToSlash_simps [simp]:
  "ToSlash [] = []" "ToSlash (c # s) = (if c = bslash then slash else c) # ToSlash s" "ToSlash (s @ t) = ToSlash s @ ToSlash t"
  by (simp_all add: ToSlash_def)

lemma TrimSuffix_colon [simp]: "strings_TrimSuffix [d, CHR '':''] '':'' = [d]"
  by (simp add: strings_TrimSuffix_def suffix_def)

lemma prefix_rules [simp]:
  "strings_HasPrefix s []" "\<not> strings_HasPrefix [] (c # p)" "strings_HasPrefix (c # s) (d # p) \<longleftrightarrow> c = d \<and> strings_HasPrefix s p"
  by (auto simp: strings_HasPrefix_def)

lemmas url_simps = file_scheme_def localhost_def strings_TrimPrefix_def bslash_def slash_def

text \<open>(C32) The file URL of a path on a drive, with or without the scheme: the share of the drive on the local host
  and the rest of the path with slashes. A URL that was made is left alone. The form with the scheme is
  read wrongly when the drive is called \<^verbatim>\<open>f\<close>, which is also how the scheme starts.\<close>

theorem MakeFileURL_drive:
  assumes "drive_letter d"
  shows "let url = localhost @ d # CHR ''$'' # ToSlash rest in
    win_MakeFileURL (d # CHR '':'' # rest) = url
    \<and> (d \<noteq> CHR ''f'' \<longrightarrow> win_MakeFileURL (file_scheme @ d # CHR '':'' # rest) = url)
    \<and> win_MakeFileURL url = url
    \<and> win_MakeFileURL (file_scheme @ ''f:'' @ rest) = localhost @ ''f$'' @ file_scheme @ ''f:'' @ ToSlash rest"
proof -
  note d = drive_letter_facts[OF assms] and v = VolumeName_drive[OF assms]
  have "win_MakeFileURL (d # CHR '':'' # rest) = localhost @ d # CHR ''$'' # ToSlash rest"
    using d v by (simp add: win_MakeFileURL_def url_simps Let_def)
  moreover have "win_MakeFileURL (file_scheme @ d # CHR '':'' # rest) = localhost @ d # CHR ''$'' # ToSlash rest" if "d \<noteq> CHR ''f''"
    using d v that by (simp add: win_MakeFileURL_def url_simps Let_def)
  moreover have "win_MakeFileURL (localhost @ s) = localhost @ s" for s
    by (simp add: win_MakeFileURL_def Let_def url_simps)
  moreover have "win_MakeFileURL (file_scheme @ ''f:'' @ rest) = localhost @ ''f$'' @ file_scheme @ ''f:'' @ ToSlash rest"
    using VolumeName_drive[of "CHR ''f''" rest] by (simp add: win_MakeFileURL_def url_simps Let_def drive_letter_def)
  ultimately show ?thesis by (simp add: Let_def)
qed

theorem MakeFileURL_drive_witness:
  "win_MakeFileURL (''C:'' @ [bslash] @ ''foo'') = localhost @ ''C$/foo''
   \<and> win_MakeFileURL (file_scheme @ ''C:'' @ [bslash] @ ''foo'') = localhost @ ''C$/foo''"
  using MakeFileURL_drive[of "CHR ''C''" "[bslash] @ ''foo''"]
  by (simp add: drive_letter_def Let_def slash_def) (simp add: bslash_def)

text \<open>A path on a share gets no scheme, and is no longer left alone when the function is applied again.\<close>

lemma MakeFileURL_share:
  "win_MakeFileURL ([bslash, bslash] @ ''srv'' @ [bslash] @ ''pub'') = ''//srv/pub''"
  "win_MakeFileURL ''//srv/pub'' = localhost @ ''//srv/pub$//srv/pub''"
  by (simp_all add: win_MakeFileURL_def VolumeName_def share_len_def isSlash_def url_simps Let_def strings_TrimSuffix_def suffix_def
      drive_letter_def)

lemma MakeFileURL_other: "VolumeName inp = [] \<Longrightarrow> \<not> strings_HasPrefix inp file_scheme \<Longrightarrow> win_MakeFileURL inp = inp"
  by (simp add: win_MakeFileURL_def)

subsection \<open>The home directory in the environment\<close>

text \<open>A volume stays the volume when a rooted path follows it.\<close>

lemma takeWhile_until: "isSlash x \<Longrightarrow> \<forall>c \<in> set s. \<not> isSlash c \<Longrightarrow>
    takeWhile (\<lambda>c. \<not> isSlash c) (s @ x # t) = s \<and> dropWhile (\<lambda>c. \<not> isSlash c) (s @ x # t) = x # t"
  by (induction s) auto

text \<open>The form of a volume: a drive, or a server and a share.\<close>

definition share_volume :: "char \<Rightarrow> char \<Rightarrow> string \<Rightarrow> char \<Rightarrow> string \<Rightarrow> string" where
  "share_volume a b srv y sh = a # b # srv @ y # sh"

definition share_name :: "string \<Rightarrow> bool" where
  "share_name n \<longleftrightarrow> n \<noteq> [] \<and> hd n \<noteq> CHR ''.'' \<and> (\<forall>c \<in> set n. \<not> isSlash c)"

lemma VolumeName_share:
  assumes "isSlash a" "isSlash b" "isSlash y" "share_name srv" "share_name sh" "t = [] \<or> isSlash (hd t)"
  shows "VolumeName (share_volume a b srv y sh @ t) = share_volume a b srv y sh"
proof -
  obtain c s where c: "srv = c # s" using assms(4) by (auto simp: share_name_def neq_Nil_conv)
  obtain x u where x: "sh = x # u" using assms(5) by (auto simp: share_name_def neq_Nil_conv)
  have s: "takeWhile (\<lambda>c. \<not> isSlash c) (s @ y # sh @ t) = s" "dropWhile (\<lambda>c. \<not> isSlash c) (s @ y # sh @ t) = y # sh @ t"
    using takeWhile_until[OF assms(3), of s "sh @ t"] assms(4) c by (auto simp: share_name_def)
  have sh: "takeWhile (\<lambda>c. \<not> isSlash c) (sh @ t) = sh"
    using takeWhile_until[of "hd t" sh "tl t"] assms(5,6) by (cases t) (auto simp: share_name_def takeWhile_eq_all_conv)
  have "share_len (share_volume a b srv y sh @ t) = length (share_volume a b srv y sh)"
    using assms(1,2,4,5) s sh unfolding c x by (simp add: share_len_def share_volume_def share_name_def)
  moreover have "b \<noteq> CHR '':''" using assms(2) by (auto simp: isSlash_def bslash_def slash_def)
  then have "VolumeName (share_volume a b srv y sh @ t)
      = take (share_len (share_volume a b srv y sh @ t)) (share_volume a b srv y sh @ t)"
    by (simp add: VolumeName_def share_volume_def)
  ultimately show ?thesis by simp
qed

lemma VolumeName_cases:
  assumes "VolumeName p \<noteq> []"
  obtains d where "drive_letter d" "VolumeName p = [d, CHR '':'']" "p = d # CHR '':'' # drop 2 p"
  | a b srv y sh where "isSlash a" "isSlash b" "isSlash y" "share_name srv" "share_name sh"
      "VolumeName p = share_volume a b srv y sh" "p = share_volume a b srv y sh @ drop (length (VolumeName p)) p"
proof -
  obtain c d s where p: "p = c # d # s" using assms by (auto simp: VolumeName_def split: list.splits)
  show thesis
  proof (cases "d = CHR '':'' \<and> drive_letter c")
    case True
    then show thesis using p by (intro that(1)[of c]) (simp_all add: VolumeName_def)
  next
    case False
    then have v: "VolumeName p = take (share_len p) p" "share_len p \<noteq> 0" using assms p by (auto simp: VolumeName_def)
    then obtain e s' where e: "s = e # s'" "isSlash c" "isSlash d" "\<not> isSlash e" "e \<noteq> CHR ''.''"
      using p by (auto simp: share_len_def split: list.splits if_splits)
    define u where "u = takeWhile (\<lambda>c. \<not> isSlash c) s'"
    obtain y x t where d: "dropWhile (\<lambda>c. \<not> isSlash c) s' = y # x # t" "\<not> isSlash x" "x \<noteq> CHR ''.''"
      using v(2) p e by (auto simp: share_len_def split: list.splits if_splits)
    define w where "w = takeWhile (\<lambda>c. \<not> isSlash c) (x # t)"
    have y: "isSlash y" using d(1) by (metis (mono_tags) hd_dropWhile list.discI list.sel(1))
    have s': "s' = u @ y # w @ dropWhile (\<lambda>c. \<not> isSlash c) (x # t)"
      using takeWhile_dropWhile_id[of "\<lambda>c. \<not> isSlash c" s'] d(1) unfolding u_def w_def by simp
    let ?v = "share_volume c d (e # u) y w"
    have p': "p = ?v @ dropWhile (\<lambda>c. \<not> isSlash c) (x # t)"
      unfolding p e(1) share_volume_def by (subst s') simp
    have "share_len p = 4 + length u + length w"
      using p e d by (simp add: share_len_def u_def w_def)
    then have len: "share_len p = length ?v" by (simp add: share_volume_def)
    have n: "share_name (e # u)" "share_name w"
      using e d set_takeWhileD by (fastforce simp: share_name_def u_def w_def)+
    have "VolumeName p = ?v" unfolding v(1) len by (subst p') simp
    moreover from this have "p = ?v @ drop (length (VolumeName p)) p"
      using p' by (metis append_eq_conv_conj)
    ultimately show thesis using that(2) e(2,3) y n by blast
  qed
qed

lemma VolumeName_append:
  assumes "VolumeName p \<noteq> []" "t = [] \<or> isSlash (hd t)"
  shows "VolumeName (VolumeName p @ t) = VolumeName p"
proof (cases rule: VolumeName_cases[OF assms(1)])
  case (1 d)
  then show ?thesis by (simp add: VolumeName_drive)
next
  case (2 a b srv y sh)
  then show ?thesis using VolumeName_share[OF 2(1-5) assms(2)] by simp
qed

definition rooted :: "string \<Rightarrow> bool" where
  "rooted p \<longleftrightarrow> p \<noteq> [] \<and> isSlash (hd p)"

lemma IsAbs_ToSlash: "rooted p \<Longrightarrow> IsAbs (ToSlash p)"
  by (cases p) (auto simp: rooted_def IsAbs_def isSlash_def)

lemma win_Clean_volume:
  assumes "VolumeName v = v" "v \<noteq> []" "rooted p"
  shows "win_Clean (v @ p) = FromSlash (v @ path_Clean (ToSlash p))"
  using VolumeName_append[of v p] assms by (auto simp: win_Clean_def rooted_def)

lemma win_Join_volume:
  assumes "VolumeName v = v" "v \<noteq> []" "rooted p"
  shows "win_Join [v, p] = win_Clean (v @ p)"
proof -
  have "path_Clean (slash # ToSlash p) = path_Clean (ToSlash p)"
    using IsAbs_ToSlash[OF assms(3)] path_comps_Cons[of "ToSlash p"] by (simp add: path_Clean_alt IsAbs_def)
  moreover have "win_Clean (v @ bslash # p) = FromSlash (v @ path_Clean (ToSlash (bslash # p)))"
    using assms(1,2) by (intro win_Clean_volume) (simp_all add: rooted_def isSlash_def)
  ultimately show ?thesis using assms win_Clean_volume[OF assms] by (simp add: win_Join_def)
qed

text \<open>(C31) After \<^verbatim>\<open>SetHome\<close> of a rooted path, \<^verbatim>\<open>Home\<close> is the clean form of that path; a path without a volume
  is on the drive that was set before, which is kept. No other variable changes.\<close>

theorem win_Home_after_SetHome:
  assumes "nul \<notin> set s" "rooted (drop (length (VolumeName s)) s)"
    and "drive = (if VolumeName s = [] then os_Getenv env ''HOMEDRIVE'' else VolumeName s)"
    and "drive \<noteq> []" "VolumeName drive = drive"
  shows "\<exists>env'. win_SetHome s env = (None, env')
    \<and> win_Home env' = (if VolumeName s = [] then win_Clean (drive @ s) else win_Clean s)
    \<and> os_Getenv env' ''HOMEDRIVE'' = drive
    \<and> (\<forall>k. k \<noteq> ''HOMEDRIVE'' \<longrightarrow> k \<noteq> ''HOMEPATH'' \<longrightarrow> env' k = env k)"
proof -
  let ?v = "VolumeName s" and ?r = "drop (length (VolumeName s)) s"
  have s: "?v @ ?r = s"
  proof (cases "?v = []")
    case False
    then show ?thesis by (cases rule: VolumeName_cases[OF False]) (simp_all flip: numeral_2_eq_2)
  qed simp
  have "nul \<notin> set ?v" "nul \<notin> set ?r" using assms(1) s by (metis Un_iff set_append)+
  then have ok: "setenv_ok ''HOMEDRIVE'' ?v" "setenv_ok ''HOMEPATH'' ?r" by (simp_all add: setenv_ok_def nul_def)
  let ?env1 = "if ?v \<noteq> [] then env(''HOMEDRIVE'' \<mapsto> ?v) else env"
  have set: "win_SetHome s env = (None, ?env1(''HOMEPATH'' \<mapsto> ?r))"
    using ok by (auto simp: win_SetHome_def setenv_error_def os_Setenv_def Let_def)
  have drive: "os_Getenv (?env1(''HOMEPATH'' \<mapsto> ?r)) ''HOMEDRIVE'' = drive"
    using assms(3) by (simp add: os_Getenv_def)
  moreover have "os_Getenv (?env1(''HOMEPATH'' \<mapsto> ?r)) ''HOMEPATH'' = ?r" by (simp add: os_Getenv_def)
  ultimately have "win_Home (?env1(''HOMEPATH'' \<mapsto> ?r)) = win_Clean (drive @ ?r)"
    using win_Join_volume[OF assms(5,4,2)] unfolding win_Home_def by metis
  moreover have "drive @ ?r = (if ?v = [] then drive @ s else s)" using assms(3) s by simp
  ultimately show ?thesis
    using set drive by (intro exI[of _ "?env1(''HOMEPATH'' \<mapsto> ?r)"]) auto
qed

theorem win_Home_after_SetHome_witness:
  "\<exists>env'. win_SetHome (''P:'' @ [bslash] @ ''home'') Map.empty = (None, env')
     \<and> win_Home env' = ''P:'' @ [bslash] @ ''home''"
proof -
  have v: "VolumeName (''P:'' @ [bslash] @ ''home'') = ''P:''" "VolumeName ''P:'' = ''P:''"
    by (simp_all add: VolumeName_def drive_letter_def)
  have c: "win_Clean (''P:'' @ [bslash] @ ''home'') = ''P:'' @ [bslash] @ ''home''"
    by (simp add: win_Clean_def v(1)[simplified] Let_def path_Clean_def clean_comps_def clean_step_def IsAbs_def FromSlash_def
        dot_def dotdot_def) (simp add: slash_def bslash_def)
  have "nul \<notin> set (''P:'' @ [bslash] @ ''home'')" by (simp add: nul_def bslash_def)
  then show ?thesis
    using win_Home_after_SetHome[of "''P:'' @ [bslash] @ ''home''" "''P:''" Map.empty] v c
    by (fastforce simp: rooted_def isSlash_def)
qed

subsection \<open>The home directory in the registry\<close>

fun le_bytes :: "uint16 list \<Rightarrow> 8 word list" where
  "le_bytes [] = []"
| "le_bytes (u # us) = of_nat (unat u mod 256) # of_nat (unat u div 256) # le_bytes us"

lemma length_le_bytes [simp]: "length (le_bytes us) = 2 * length us"
  by (induction us) auto

lemma le_words_le_bytes: "le_words (le_bytes us @ bs) = us @ le_words bs"
proof (induction us)
  case (Cons u us)
  have "unat u < 65536" using unsigned_less[of u] by simp
  then have "unat (of_nat (unat u mod 256) :: 8 word) = unat u mod 256" "unat (of_nat (unat u div 256) :: 8 word) = unat u div 256"
    by (simp_all add: unat_of_nat)
  moreover have "unat u mod 256 + 256 * (unat u div 256) = unat u" by simp
  ultimately show ?case using Cons by simp
qed simp

lemma le_words_zeros: "le_words (replicate (2 * n) 0) = replicate n 0"
  by (induction n) simp_all

lemma le_bytes_zeros: "le_bytes (replicate m 0) = replicate (2 * m) 0"
  by (induction m) simp_all

text \<open>A value of the registry that does not change between the two calls.\<close>

definition has_value :: "reg_query \<Rightarrow> uint16 list \<Rightarrow> 8 word list \<Rightarrow> bool" where
  "has_value query k data \<longleftrightarrow>
     (\<forall>i. (\<exists>bs. query i k None = Inr (length data, bs)) \<and> (\<forall>n \<ge> length data. query i k (Some n) = Inr (length data, data)))"

text \<open>The text of a value is read whether it was stored with a final zero, with several or with none.\<close>

lemma readRegString_text:
  assumes "has_value query (utf16 key) (le_bytes (utf16 s @ replicate m 0))" "nul \<notin> set key" "valid_utf8 s" "nul \<notin> set s"
  shows "readRegString query key = Ret s"
proof -
  let ?d = "le_bytes (utf16 s @ replicate m 0)"
  obtain bs where q: "query 0 (utf16 key) None = Inr (length ?d, bs)" "query 1 (utf16 key) (Some (length ?d)) = Inr (length ?d, ?d)"
    using assms(1) unfolding has_value_def by (metis order_refl)
  have "2 * (length ?d div 2 + 1) = length ?d + 2 * 1" by simp
  then have "store (replicate (2 * (length ?d div 2 + 1)) 0) ?d = ?d @ replicate (2 * 1) 0"
    by (simp only: store_def length_replicate drop_replicate) simp
  then have "le_words (store (replicate (2 * (length ?d div 2 + 1)) 0) ?d) = utf16 s @ replicate (m + 1) 0"
    using le_words_le_bytes[of "utf16 s @ replicate m 0" "replicate (2 * 1) 0"] le_words_zeros[of 1]
    by (simp add: replicate_append_same)
  then have "UTF16ToString (le_words (store (replicate (2 * (length ?d div 2 + 1)) 0) ?d)) = s"
    using UTF16ToString_utf16[OF assms(3,4)] by simp
  then show ?thesis
    using q assms(2) by (simp add: readRegString_def StringToUTF16Ptr_def UTF16FromString_eq of_sum_def Let_def)
qed

lemma StringToUTF16Ptr_pointer:
  "outcome_bind (StringToUTF16Ptr s) at_pointer = (if nul \<in> set s then Crash else Ret (utf16 s))"
  by (simp add: StringToUTF16Ptr_def UTF16FromString_eq)

text \<open>The home directory of a user is the value \<^verbatim>\<open>ProfileImagePath\<close> below the key of the user's SID, read as a
  whole however many zeros end it; a user without SID is reported as not found, and errors of the
  registry are returned as they are.\<close>

theorem win_homeDir_profile:
  assumes "getUserSID LookupSID SID_String user = Inr sid" "nul \<notin> set sid"
    and "RegOpenKeyEx (utf16 (profile_list @ sid)) = Inr h"
    and "has_value (RegQueryValueEx h) (utf16 ''ProfileImagePath'') (le_bytes (utf16 home @ replicate m 0))"
    and "valid_utf8 home" "nul \<notin> set home"
  shows "win_homeDir LookupSID SID_String RegOpenKeyEx RegQueryValueEx user = Ret home
    \<and> (\<forall>err. getUserSID LookupSID SID_String other = Inl err \<longrightarrow>
         win_homeDir LookupSID SID_String RegOpenKeyEx RegQueryValueEx other = Fail (UserNotFound err ''no such user''))"
proof -
  have n: "nul \<notin> set (profile_list @ sid)" "nul \<notin> set ''ProfileImagePath''"
    using assms(2) by (simp_all add: profile_list_def bslash_def nul_def)
  from readRegString_text[OF assms(4) n(2) assms(5,6)] show ?thesis
    using assms(1,3) n(1) by (simp add: win_homeDir_def homeFromRegistry_def StringToUTF16Ptr_pointer of_sum_def)
qed

definition demo_registry :: "unit \<Rightarrow> reg_query" where
  "demo_registry h i k n = Inr (10, le_bytes (utf16 ''C:'' @ replicate 3 0))"

theorem win_homeDir_profile_witness:
  "win_homeDir (\<lambda>user. if user = ''me'' then Inr () else Inl (Errno 1332)) (\<lambda>_. Inr ''S-1'') (\<lambda>_. Inr ()) demo_registry ''me'' = Ret ''C:''"
proof -
  have u: "utf16 ''C:'' = [0x43, 0x3A]"
    by (simp add: utf16_def utf16_Encode_def utf16_EncodeRune_def utf8_DecodeRune_def scalar_def)
  have "has_value (demo_registry ()) (utf16 ''ProfileImagePath'') (le_bytes (utf16 ''C:'' @ replicate 3 0))"
    by (simp add: has_value_def demo_registry_def u)
  moreover have "valid_utf8 ''C:''" by (rule valid_utf8_ascii) simp
  ultimately show ?thesis
    using win_homeDir_profile[of "\<lambda>user. if user = ''me'' then Inr () else Inl (Errno 1332)" "\<lambda>_. Inr ''S-1''" "''me''" "''S-1''"
        "\<lambda>_. Inr ()" "()" demo_registry "''C:''" 3]
    by (simp add: getUserSID_def nul_def)
qed

subsection \<open>Replacing a file: the outcome\<close>

text \<open>Names with a zero byte are refused without a call; otherwise there is one call with both names, and it
  replaces and writes through.\<close>

lemma win_ReplaceFile_outcome:
  "win_ReplaceFile M source destination w =
     (if nul \<in> set source \<or> nul \<in> set destination then (Fail (LinkError ''replace'' source destination EINVAL), w)
      else case M (utf16 source) (utf16 destination) 9 w of
        ((r1, e1), w') \<Rightarrow> (if r1 = 0 then Fail (LinkError ''replace'' source destination (last_error e1)) else Ret (), w'))"
  by (simp add: win_ReplaceFile_def UTF16Ptr_eq moveFileEx_def movefile_flags_def bool_result_def split: prod.split)

subsection \<open>Uptime: the outcome\<close>

text \<open>(C33) On a system of 64 bits \<^verbatim>\<open>Uptime\<close> is the number of whole seconds for any time that can pass. On one of 32
  bits only the lower half of the counter is returned by the call, so that the result starts again after
  49 days and 17 hours, and at that moment the call counts as failed.\<close>

theorem win_Uptime_seconds:
  assumes "0 < ms" "ms < 2 ^ 63"
  shows "win_Uptime (of_nat ms :: 64 word) e1 = Ret (int (ms div 1000))
    \<and> win_Uptime (of_nat ms :: 32 word) e1 =
        (let low = ms mod 2 ^ 32 in
         if low = 0 then Fail (Formatted ''Failed to get uptime. Error number: '' (last_error e1)) else Ret (int (low div 1000)))"
proof -
  have up: "sint (of_nat n :: 64 word) sdiv 1000 = int (n div 1000)" if "n < 2 ^ 63" for n
  proof -
    have "sint (of_nat n :: 64 word) = int n"
      using that by (simp add: signed_of_nat signed_take_bit_int_eq_self)
    then show ?thesis by (cases "n = 0") (simp_all add: signed_divide_int_def zdiv_int)
  qed
  have nz: "(of_nat n :: 64 word) = 0 \<longleftrightarrow> n = 0" if "n < 2 ^ 63" for n
  proof
    assume "(of_nat n :: 64 word) = 0"
    then have "unat (of_nat n :: 64 word) = 0" by simp
    then show "n = 0" using that by (simp add: unat_of_nat)
  qed simp
  have low: "(ucast (of_nat ms :: 32 word) :: 64 word) = of_nat (ms mod 2 ^ 32)"
    by (rule word_unat_eq_iff[THEN iffD2]) (simp add: unsigned_ucast_eq unat_of_nat take_bit_eq_mod)
  have small: "ms mod 2 ^ 32 < 2 ^ 63"
    using mod_less_divisor[of "2 ^ 32" ms] by (rule less_trans) simp_all
  show ?thesis
    using assms(1) up[OF assms(2)] nz[OF assms(2)] up[OF small] nz[OF small]
    by (simp add: win_Uptime_def getTickCount64_def Let_def low)
qed

theorem win_Uptime_seconds_witness:
  "win_Uptime (of_nat 4294970296 :: 64 word) 0 = Ret 4294970 \<and> win_Uptime (of_nat 4294970296 :: 32 word) 0 = Ret 3"
  using win_Uptime_seconds[of 4294970296 0] by simp

end
