(* ===== verification/CopyFaults.thy ===== *)
theory CopyFaults
  imports Copy Confinement
begin

text \<open>
  \<^verbatim>\<open>Copy\<close> (\<^verbatim>\<open>src/fs/copy.go\<close>) when calls fail: whatever happens on the way, nothing but the destination changes. The
  source is a tree without links here, and its entries have proper names.
\<close>

definition plain_source :: "path \<Rightarrow> node \<Rightarrow> bool" where
  "plain_source S t \<longleftrightarrow> no_links S t \<and> (\<forall>q x. prefix S q \<longrightarrow> fs_lookup t (q @ [x]) \<noteq> None \<longrightarrow> is_name x)"

lemma names_leads_to: "names_path p ps \<Longrightarrow> prefix R ps \<Longrightarrow> leads_to R p ps"
  by (auto simp: names_path_def leads_to_def is_name_def list_all_iff parallel_def)

text \<open>Confined to the destination, the source stays as it is.\<close>

lemma source_view:
  assumes "confined D s0 s" "S \<parallel> D" "prefix S q"
  shows "fs_view (tree s) q = fs_view (tree s0) q"
proof -
  have "q \<parallel> D" using assms(2,3) by (metis parallel_def prefix_order.trans prefix_same_cases)
  then show ?thesis using assms(1) by (auto simp: confined_def parallel_def)
qed

lemma plain_source_confined:
  assumes "confined D s0 s" "S \<parallel> D" "plain_source S (tree s0)"
  shows "plain_source S (tree s)"
  unfolding plain_source_def no_links_def
proof (intro conjI allI impI)
  fix q
  assume q: "\<not> q \<parallel> S"
  then have "\<not> prefix D q" using assms(2) by (metis parallel_def prefix_order.trans prefix_same_cases)
  then have "fs_view (tree s) q = fs_view (tree s0) q \<or> is_dir (fs_view (tree s) q)"
    using assms(1) by (auto simp: confined_def)
  moreover have "\<not> is_link (fs_lookup (tree s0) q)" using q assms(3) by (auto simp: plain_source_def no_links_def)
  then have "\<not> is_link (fs_view (tree s0) q)" by simp
  ultimately have "\<not> is_link (fs_view (tree s) q)"
    by (cases "fs_view (tree s) q" rule: is_link.cases) auto
  then show "\<not> is_link (fs_lookup (tree s) q)" by simp
next
  fix q x
  assume q: "prefix S q" and x: "fs_lookup (tree s) (q @ [x]) \<noteq> None"
  have "prefix S (q @ [x])" using q by simp
  from source_view[OF assms(1,2) this] x have "fs_lookup (tree s0) (q @ [x]) \<noteq> None" by (metis fs_view_None(1))
  then show "is_name x" using assms(3) q by (auto simp: plain_source_def)
qed

lemma namei_source:
  assumes "plain_source S (tree s)" "names_path p ps" "prefix S ps" "namei follow p s = Inr q"
  shows "q = ps"
  using walk_no_links[of S "tree s" "[]" ps follow max_links q] assms names_leads_to[OF assms(2,3)]
  by (auto simp: plain_source_def leads_to_def namei_def split: if_splits)

lemma ensures_Lstat_source:
  assumes "S \<parallel> D" "plain_source S (tree s0)" "names_path p ps" "prefix S ps"
  shows "io_ensures (confined D s0) (sys_Lstat p) (\<lambda>r. \<forall>n. r = Inr n \<longrightarrow> \<not> is_link (Some n))"
  unfolding sys_Lstat_def read_call_def
proof (rule conf.ensures_os_call)
  fix s n t
  assume s: "confined D s0 s"
    and "sum_bind (namei False p s) (\<lambda>q. map_sum id (\<lambda>a. (a, tree s)) (os_Lstat q (tree s))) = Inr (n, t)"
  then obtain q where q: "namei False p s = Inr q" "os_Lstat q (tree s) = Inr n" "t = tree s"
    by (auto simp: sum_bind_eq_Inr map_sum_eq_Inr)
  note src = plain_source_confined[OF s assms(1,2)]
  have "fs_lookup (tree s) ps = Some n"
    using q namei_source[OF src assms(3,4) q(1)] by (auto simp: os_Lstat_def split: option.splits)
  moreover have "\<not> ps \<parallel> S" using assms(4) by (auto simp: parallel_def)
  ultimately show "confined D s0 (s\<lparr>tree := t\<rparr>) \<and> (\<forall>n'. Inr n = (Inr n' :: errno + node) \<longrightarrow> \<not> is_link (Some n'))"
    using s q(3) src by (auto simp: plain_source_def no_links_def)
qed simp

lemma ensures_Open_source:
  assumes "S \<parallel> D" "plain_source S (tree s0)" "names_path p ps" "prefix S ps"
  shows "io_ensures (confined D s0) (sys_Open p) (\<lambda>r. \<forall>h. r = Inr h \<longrightarrow> prefix S h)"
  unfolding sys_Open_def read_call_def
proof (rule conf.ensures_os_call)
  fix s h t
  assume s: "confined D s0 s"
    and "sum_bind (namei True p s) (\<lambda>q. map_sum id (\<lambda>a. (a, tree s)) (map_sum id (\<lambda>_. q) (os_Lstat q (tree s)))) = Inr (h, t)"
  then have "namei True p s = Inr h" "t = tree s" by (auto simp: sum_bind_eq_Inr map_sum_eq_Inr)
  then show "confined D s0 (s\<lparr>tree := t\<rparr>) \<and> (\<forall>h'. Inr h = (Inr h' :: errno + handle) \<longrightarrow> prefix S h')"
    using s namei_source[OF plain_source_confined[OF s assms(1,2)] assms(3,4)] assms(4) by auto
qed simp

lemma ensures_dir_names_source:
  assumes "S \<parallel> D" "plain_source S (tree s0)" "prefix S h"
  shows "io_ensures (confined D s0) (dir_names h) (list_all is_name)"
  unfolding io_ensures_def
proof (intro allI impI)
  fix s
  assume s: "confined D s0 s"
  have "list_all is_name (map fst es)" if "fs_lookup (tree s) h = Some (Dir m es)" for m es
  proof -
    have "fs_lookup (tree s) (h @ [x]) \<noteq> None" if "x \<in> fst ` set es" for x
      using that \<open>fs_lookup (tree s) h = Some (Dir m es)\<close> by (auto simp: fs_lookup_append map_of_eq_None_iff split: option.split)
    then show ?thesis
      using plain_source_confined[OF s assms(1,2)] assms(3) by (auto simp: plain_source_def list_all_iff)
  qed
  then show "confined D s0 (snd (run_state (dir_names h) s)) \<and> list_all is_name (fst (run_state (dir_names h) s))"
    using s by (auto simp: dir_names_def split: option.split node.split)
qed

lemma ensures_Readdirnames:
  "io_ensures (confined D s0) (sys_Readdirnames names) (\<lambda>(batch, _). set batch \<subseteq> set names)"
  using conf.keeps_Readdirnames[of D s0 names]
  by (auto simp: io_ensures_def sys_Readdirnames_def dest: in_set_takeD split: list.splits option.splits)

subsection \<open>Each part keeps to the destination\<close>

lemma keeps_copyFile:
  assumes "names_path dst ps" "prefix D ps"
  shows "io_keeps (confined D s0) (copyFile src dst mode)"
  unfolding copyFile_def io_Copy_def
  using names_leads_to[OF assms] assms(2)
  by (intro io_rules TrueI conf.keeps_reads io_ensures_bind[OF keeps_Create] keeps_Chmod keeps_Copy_data; simp)

text \<open>What a recursive call has to keep, for the loops over the names of a directory.\<close>

definition copies_safely :: "path \<Rightarrow> path \<Rightarrow> os \<Rightarrow> (string \<Rightarrow> string \<Rightarrow> copy_result io) \<Rightarrow> bool" where
  "copies_safely S D s0 copy \<longleftrightarrow>
     (\<forall>src ps dst qs. names_path src ps \<and> prefix S ps \<and> names_path dst qs \<and> prefix D qs \<longrightarrow>
        io_keeps (confined D s0) (copy src dst))"

lemma keeps_copy_names:
  assumes "copies_safely S D s0 copy" "names_path src ps" "prefix S ps" "names_path dst qs" "prefix D qs"
  shows "list_all is_name names \<Longrightarrow> io_keeps (confined D s0) (copy_names copy src dst names)"
proof (induction names)
  case (Cons x names)
  have "names_path (path_Join [src, x]) (ps @ [x])" "names_path (path_Join [dst, x]) (qs @ [x])"
    using names_path_Join assms(2,4) Cons.prems by simp_all
  then have "io_keeps (confined D s0) (copy (path_Join [src, x]) (path_Join [dst, x]))"
    using assms(1,3,5) unfolding copies_safely_def by (meson prefix_prefix)
  then show ?case using Cons by (auto intro!: io_rules)
qed (simp add: io_ensures_return)

lemma keeps_copy_entries:
  assumes "copies_safely S D s0 copy" "names_path src ps" "prefix S ps" "names_path dst qs" "prefix D qs"
  shows "list_all is_name names \<Longrightarrow> io_keeps (confined D s0) (copy_entries copy src dst names)"
proof (induction "length names" arbitrary: names rule: less_induct)
  case less
  have rest: "io_keeps (confined D s0) (copy_entries copy src dst (drop 100 names))" if "names \<noteq> []"
    using less.hyps[of "drop 100 names"] less.prems that by (auto simp: list_all_iff dest: in_set_dropD)
  have batch: "io_keeps (confined D s0) (copy_names copy src dst b)" if "set b \<subseteq> set names" for b
    using keeps_copy_names[OF assms, of b] that less.prems by (auto simp: list_all_iff)
  show ?case
    by (subst copy_entries.simps, rule io_ensures_bind[OF ensures_Readdirnames])
      (auto intro!: io_rules batch rest split: prod.split read_end.split)
qed

lemma keeps_Copy: "S \<parallel> D \<Longrightarrow> plain_source S (tree s0) \<Longrightarrow> copies_safely S D s0 (Copy n)"
proof (induction n)
  case 0
  then show ?case by (simp add: copies_safely_def io_ensures_return)
next
  case (Suc n)
  show ?case
    unfolding copies_safely_def
  proof (intro allI impI, elim conjE)
    fix src ps dst qs
    assume p: "names_path src ps" "prefix S ps" "names_path dst qs" "prefix D qs"
    note place = names_leads_to[OF p(3,4)]
    have dir: "io_keeps (confined D s0) (copyDir (Copy n) src dst mode)" for mode
      unfolding copyDir_def
      by (rule io_ensures_bind[OF ensures_Open_source[OF Suc.prems p(1,2)]])
        (intro io_rules TrueI io_ensures_bind[OF ensures_dir_names_source[OF Suc.prems]] keeps_Mkdir[OF place]
          keeps_copy_entries[OF Suc.IH[OF Suc.prems] p] keeps_Chmod[OF place p(4)]; simp)
    show "io_keeps (confined D s0) (Copy (Suc n) src dst)"
      unfolding Copy.simps
    proof (rule io_ensures_bind[OF ensures_Lstat_source[OF Suc.prems p(1,2)]])
      fix l :: "errno + node"
      assume l: "\<forall>m. l = Inr m \<longrightarrow> \<not> is_link (Some m)"
      show "io_keeps (confined D s0) (case l of
            Inl e \<Rightarrow> State_Monad.return (Failed e)
          | Inr srcInfo \<Rightarrow>
              do {
                d \<leftarrow> sys_Lstat dst;
                (case d of
                   Inl e \<Rightarrow>
                     if e \<noteq> ENOENT then State_Monad.return (Failed e)
                     else (case srcInfo of
                             File _ mode \<Rightarrow> copyFile src dst mode
                           | Dir mode _ \<Rightarrow> copyDir (Copy n) src dst mode
                           | Link _ \<Rightarrow> copySymLink src dst)
                 | Inr _ \<Rightarrow> State_Monad.return (WillNotOverwrite dst))
              })"
        using l dir keeps_copyFile[OF p(3,4)] conf.keeps_Lstat
        by (cases l; cases "projr l") (auto intro!: io_rules)
    qed
  qed
qed

text \<open>(C5) Copying a tree without links to a place that is not in it, whatever calls fail and whether or not the copy
  succeeds: the source and everything else outside of the destination stay as they are.\<close>

theorem Copy_confined:
  assumes "names_path src S" "names_path dst D" "S \<parallel> D" "plain_source S (tree s)" "no_links D (tree s)"
    and "dirs_to (tree s) D" "run_state (Copy fuel src dst) s = (r, s')" "\<not> prefix D q"
  shows "fs_view (tree s') q = fs_view (tree s) q"
proof -
  have "io_keeps (confined D s) (Copy fuel src dst)"
    using keeps_Copy[OF assms(3,4), of fuel] assms(1,2) by (auto simp: copies_safely_def)
  from io_ensuresD[OF this confined_start[OF assms(5)] assms(7)]
  have "fs_view (tree s') q = fs_view (tree s) q \<or> prefix q D \<and> fs_view (tree s) q = None"
    using assms(8) by (auto simp: confined_def)
  moreover have "fs_view (tree s) q \<noteq> None" if "prefix q D"
  proof -
    have "is_dir (fs_lookup (tree s) q)" using that assms(6,8) by (auto simp: dirs_to_def strict_prefix_def)
    then show ?thesis by (cases "fs_lookup (tree s) q") auto
  qed
  ultimately show ?thesis by blast
qed

text \<open>Writing the copy of a file fails half way.\<close>

definition faulty_os :: os where
  "faulty_os =
     \<lparr>tree = Dir 493 [(''src'', File ''data'' 420)], cwd = [], umask = 18,
      faults = [None, None, None, None, None, None, Some (EIO, 2)]\<rparr>"

theorem Copy_confined_witness:
  "fst (run_state (Copy 1 ''/src'' ''/dst'') faulty_os) = CannotCopy ''/src'' ''/dst'' EIO
   \<and> fs_view (tree (snd (run_state (Copy 1 ''/src'' ''/dst'') faulty_os))) [''src''] = Some (File ''data'' 420)"
proof -
  have "\<not> is_link (fs_lookup (tree faulty_os) q)" for q
    by (cases q; cases "tl q") (auto simp: faulty_os_def)
  moreover have "fs_lookup (tree faulty_os) (q @ [x]) = None" if "prefix [''src''] q" for q x
    using that by (auto simp: faulty_os_def prefix_def split: list.split) (metis append_is_Nil_conv fs_lookup.simps list.discI neq_Nil_conv)
  ultimately have t: "plain_source [''src''] (tree faulty_os)" "no_links [''dst''] (tree faulty_os)"
    "dirs_to (tree faulty_os) [''dst'']"
    by (auto simp: plain_source_def no_links_def dirs_to_def strict_prefix_def prefix_Cons faulty_os_def)
  have p: "names_path ''/src'' [''src'']" "names_path ''/dst'' [''dst'']" "[''src''] \<parallel> [''dst'']"
    "\<not> prefix [''dst''] [''src'']"
    by code_simp+
  have "fst (run_state (Copy 1 ''/src'' ''/dst'') faulty_os) = CannotCopy ''/src'' ''/dst'' EIO"
    "fs_view (tree faulty_os) [''src''] = Some (File ''data'' 420)"
    by code_simp+
  with Copy_confined[OF p(1-3) t prod.collapse[symmetric] p(4), of 1] show ?thesis by simp
qed

end
