(* ===== verification/Spec2Isabelle.thy ===== *)
theory Spec2Isabelle
  imports StringSet FeatureFlag KeyValues Attempt Limiter Registry Voyeur FsLock Parallel Try TailerLife
    FileStorage UUID Shell Proxy DebugStatus
    Zip Copy FileUtils Tar Password Trivial Exec Apt JsonHttp Http Size Timeit
    WinSymlink WinFile CopyFaults
begin

text \<open>
  Verification of \<^verbatim>\<open>juju/utils\<close>, a library of packages that Go programs share. Most packages stand
  alone: each has its own state and its own contract, and each is a theory here. Where one calls another, so does
  its theory: \<^verbatim>\<open>featureflag\<close> keeps its flags in a \<^verbatim>\<open>set.Strings\<close> (\<open>FeatureFlag\<close> imports
  \<open>StringSet\<close>), \<^verbatim>\<open>apt\<close> retries by an attempt strategy, runs commands and fills proxy settings (\<open>Apt\<close>
  imports \<open>Attempt\<close>, \<open>Exec\<close> and \<open>Proxy\<close>), \<^verbatim>\<open>tar\<close> makes links with \<^verbatim>\<open>symlink\<close>, which names a temporary
  one by a new UUID, and encodes its checksum in base 64 (\<open>Tar\<close>, \<open>FileUtils\<close>, \<open>UUID\<close>, \<open>Base64\<close>).
  What works on files is made of system calls: on the tree of \<open>FileSystem\<close>, interleaved with other processes
  (\<open>FsLock\<close>), or by a state monad with paths, links and failing calls (\<open>OsCalls\<close>, for \<open>Zip\<close>, \<open>Tar\<close>, \<open>Copy\<close>,
  \<open>FileUtils\<close> and \<open>Trivial\<close>).

  \<^bold>\<open>Conventions.\<close> A definition has the name of the Go function, a method the name of its type first
  (\<^verbatim>\<open>func (s Strings) Add\<close> is \<open>Strings_Add\<close>); what is only internal to a function keeps a
  descriptive name. Structs are records, errors and panics are the left values of a sum or an optional value,
  loops are recursive functions with a termination proof, and a loop that may run for ever is a
  \<^verbatim>\<open>partial_function\<close> in the option monad, where \<^const>\<open>None\<close> is not returning. A blocking
  operation is an optional value or a step that is not enabled. Concurrent code is an inductive
  step relation whose steps are single channel operations, critical sections or system calls, and properties are
  proved of every reachable state by rule induction. What a program reads from outside (clocks, random
  bytes, the environment, the order of a map range, errors of the operating system) is an argument.

  \<^bold>\<open>Theories.\<close>

  \<^item> \<open>Prelude\<close>: results and panics, Go maps with nil and with unspecified range order, the functions of
    \<^verbatim>\<open>strings\<close> that are used, and sums over lists of processes.
  \<^item> \<open>StringSet\<close>: \<^verbatim>\<open>src/set/strings.go\<close> and \<^verbatim>\<open>src/set/tags.go\<close>. The locale
    \<open>go_set\<close> states the laws of a set on a Go map; it is interpreted for \<^verbatim>\<open>Strings\<close> and for
    \<^verbatim>\<open>Tags\<close>. Shown: the operations compute the set operations, sorted values are canonical, and no
    tag is lost when tags are listed. Parsing and printing of tags are parameters.
  \<^item> \<open>FeatureFlag\<close>: \<^verbatim>\<open>src/featureflag/flags.go\<close>. Shown: which flags are enabled after the
    environment is read, and that the printed flags read back.
  \<^item> \<open>KeyValues\<close>: \<^verbatim>\<open>src/keyvalues/keyvalues.go\<close>. Shown: the parser inverts printing and reports the
    first error.
  \<^item> \<open>Attempt\<close>: \<^verbatim>\<open>src/attempt.go\<close>. Shown: bounds on the number of attempts, termination of the loop
    of attempts, and the promise of \<^verbatim>\<open>HasNext\<close>, over every monotone clock.
  \<^item> \<open>Limiter\<close>: \<^verbatim>\<open>src/limiter.go\<close>. The locale \<open>limiter_contract\<close> is the interface
    \<^verbatim>\<open>Limiter\<close>, interpreted on the buffered channel. Shown: accounting over every sequence of calls.
  \<^item> \<open>Registry\<close>: \<^verbatim>\<open>src/registry/registry.go\<close>. Shown: a refinement of a partial function on names
    and versions, and what \<^verbatim>\<open>List\<close> describes.
  \<^item> \<open>Voyeur\<close>: \<^verbatim>\<open>src/voyeur/value.go\<close>. The mutex and the condition variable as a step relation for
    any number of watchers. Shown: a watcher sleeps only when it is up to date (no lost wake-up), the last
    value is delivered before the end, and a call may turn its loop more often than its comment says.
  \<^item> \<open>FileSystem\<close>: the calls of \<^verbatim>\<open>os\<close> on a tree, with lookup lemmas for every update.
  \<^item> \<open>Paths\<close> and \<open>Glob\<close>: the functions of \<^verbatim>\<open>path\<close> and \<^verbatim>\<open>path/filepath\<close> (on Unix), with lemmas on
    the components of clean paths.
  \<^item> \<open>OsCalls\<close>: programs of system calls, as a state monad. Paths are resolved through symbolic links, at most
    40 of them as on Linux, and every call may fail for a reason outside of the model. The locale
    \<open>os_invariant\<close> has the rules by which a program keeps an invariant, and lemmas \<open>run_...\<close> say what calls do that do not fail.
  \<^item> \<open>Confinement\<close>: that a program changes nothing outside of a directory; the locale is interpreted for it.
  \<^item> \<open>Zip\<close>: \<^verbatim>\<open>src/zip/zip.go\<close>. Shown: extraction of sane names stays below the target whatever fails, writes the
    files of the archive, accepts only links that lead below the target when they are read alone, and
    two archives that escape. \<^verbatim>\<open>Find\<close> with every pattern of \<^verbatim>\<open>path.Match\<close>.
  \<^item> \<open>Tar\<close>: \<^verbatim>\<open>src/tar/tar.go\<close>. Shown: an archive restores the tree it was made of, extraction of names
    without \<^verbatim>\<open>..\<close> stays below the output folder, and two archives that escape. The nesting of
    \<^verbatim>\<open>writeContents\<close> is fuel, and more than the height of the tree is enough.
  \<^item> \<open>Copy\<close> and \<open>CopyFaults\<close>: \<^verbatim>\<open>src/fs/copy.go\<close>. Shown: a copy is made exactly; the nesting is fuel as above, the locale
    \<open>copier\<close> is what the loops over a directory need of the recursive call. When calls fail, nothing
    outside of the destination changes.
  \<^item> \<open>FileUtils\<close>: \<^verbatim>\<open>src/file.go\<close>, \<^verbatim>\<open>src/file_unix.go\<close>, \<^verbatim>\<open>src/home_unix.go\<close> and
    \<^verbatim>\<open>src/symlink\<close>. Shown: an atomic write has all or nothing of its effect whichever call fails, a unique directory is
    found with as many turns (the fuel) as the directory has entries and one more, home directories are expanded, and
    what goes wrong when a link is replaced or a file copied onto itself.
  \<^item> \<open>Trivial\<close>: the YAML files and digests of \<^verbatim>\<open>src/trivial.go\<close>. Shown: what is written is read
    back, unless a longer file was left at the name used for preparation.
  \<^item> \<open>Base64\<close> and \<open>Password\<close>: \<^verbatim>\<open>src/password.go\<close> and \<^verbatim>\<open>src/hash/writer.go\<close>. Shown: the format of
    passwords and hashes, and that a hashing writer is transparent. Random bytes and hash functions are arguments.
  \<^item> \<open>Exec\<close>: \<^verbatim>\<open>src/exec/exec.go\<close>, \<^verbatim>\<open>src/command.go\<close>, \<^verbatim>\<open>src/isubuntu.go\<close>. Shown: how environments are merged,
    and the outcome of running commands. What a process does is an argument.
  \<^item> \<open>Apt\<close>: \<^verbatim>\<open>src/apt/apt.go\<close>. Shown: the installation is retried at most thirty times, written proxies
    are detected again, and which ones are not.
  \<^item> \<open>JsonHttp\<close>: \<^verbatim>\<open>src/jsonhttp/jsonhttp.go\<close>. Shown: the reply for every outcome of a handler.
  \<^item> \<open>Http\<close>: \<^verbatim>\<open>src/http.go\<close>, \<^verbatim>\<open>src/network.go\<close>, \<^verbatim>\<open>src/gomaxprocs.go\<close>. Shown: clients are shared, the header of basic
    authentication is read back, and what may be dialled.
  \<^item> \<open>Size\<close>: \<^verbatim>\<open>src/size.go\<close>. Shown: numbers with units are exact in 64 bits.
  \<^item> \<open>Timeit\<close>: \<^verbatim>\<open>src/timeit.go\<close>. Shown: what is printed for nested calls.
  \<^item> \<open>FsLock\<close>: \<^verbatim>\<open>src/fslock/fslock.go\<close>. \<^verbatim>\<open>acquire\<close> and \<^verbatim>\<open>Unlock\<close> are
    step functions with one system call per step; six steps are enough for \<^verbatim>\<open>acquire\<close> and three for
    \<^verbatim>\<open>Unlock\<close> without interference, which are the numbers in \<open>Lock_acquire\<close> and \<open>Lock_Unlock\<close>. Shown:
    mutual exclusion for any number of processes and any failing calls, what \<^verbatim>\<open>IsLockHeld\<close> means,
    the sequential behaviour of locking and unlocking, and when the lock loop returns.
    \<^verbatim>\<open>BreakLock\<close> is defined but is not a step of the system: it takes a lock away from
    its holder.
  \<^item> \<open>Parallel\<close>: \<^verbatim>\<open>src/parallel/parallel.go\<close>. Shown: the limit on running functions, that
    \<^verbatim>\<open>Wait\<close> returns exactly the errors of all functions, and that there is neither deadlock nor livelock.
  \<^item> \<open>Tomb\<close>: the laws of the package \<^verbatim>\<open>tomb\<close>, which \<open>Try\<close> and \<open>TailerLife\<close> have as a parameter.
  \<^item> \<open>Try\<close>: \<^verbatim>\<open>src/parallel/try.go\<close>. Shown: what the result of a Try is, the limit on running
    functions, that no successful result is leaked, that a closed Try can finish, and two runs that
    the comments exclude.
  \<^item> \<open>Tailer\<close>: \<^verbatim>\<open>src/tailer/tailer.go\<close>. Shown: \<^verbatim>\<open>SeekLastLines\<close> is equivalent to counting
    lines from the end, and the tail loop writes every line once, both for every buffer size.
  \<^item> \<open>TailerLife\<close>: the goroutine of a Tailer with \<^verbatim>\<open>NewTailer\<close>, \<^verbatim>\<open>Stop\<close>, \<^verbatim>\<open>Wait\<close>, \<^verbatim>\<open>Dead\<close> and \<^verbatim>\<open>Err\<close>, as a step relation in which
    every read, write and flush may fail while the file grows and callers stop the Tailer. Shown: only whole lines are
    written, what \<^verbatim>\<open>Wait\<close> returns, and that \<^verbatim>\<open>Stop\<close> returns; the loop of \<open>Tailer\<close> is a run of the steps.
  \<^item> \<open>FileStorage\<close>: \<^verbatim>\<open>src/filestorage\<close>. Shown: files keep their metadata, \<^verbatim>\<open>Get\<close> after
    \<^verbatim>\<open>Add\<close>, \<^verbatim>\<open>Remove\<close>, and where \<^verbatim>\<open>Add\<close> leaves a file behind. The two storages are
    parameters with the contract that \<^verbatim>\<open>interfaces.go\<close> documents.
  \<^item> \<open>UUID\<close>: \<^verbatim>\<open>src/uuid.go\<close>. Shown: printing and parsing are inverse, and new UUIDs are valid.
  \<^item> \<open>Shell\<close>: the quoting of \<^verbatim>\<open>src/trivial.go\<close> and \<^verbatim>\<open>src/shell/script.go\<close>, against the rules by
    which a shell splits a line into words. Shown: \<^verbatim>\<open>ShQuote\<close> protects every argument,
    \<^verbatim>\<open>CommandString\<close> those that its checks cover, and which ones it does not.
  \<^item> \<open>Proxy\<close>: \<^verbatim>\<open>src/proxy/proxy.go\<close>. Shown: settings written to the environment, or handed to a
    command as its environment, are detected again.
  \<^item> \<open>DebugStatus\<close>: \<^verbatim>\<open>src/debugstatus/status.go\<close>. Shown: what \<^verbatim>\<open>Check\<close> collects, when the
    check of the collections passes, and that the key of a renamed check sticks after its first call.
  \<^item> \<open>Utf16\<close> and \<open>WinCalls\<close>: the conversions of Go between strings, runes and UTF-16, inverse on valid text, and
    the arrays and results of system calls of Windows. A read behind an array and an index out of range are the outcome \<open>Crash\<close>.
  \<^item> \<open>WinSymlink\<close>: \<^verbatim>\<open>src/symlink/symlink_windows.go\<close> and its bindings. Shown: a link that was created is read as the path of its
    target, for paths of every length, and two cases in which reading goes wrong. The kernel is a parameter with the
    laws \<open>kernel_laws\<close>.
  \<^item> \<open>WinFile\<close>: \<^verbatim>\<open>src/file_windows.go\<close>, \<^verbatim>\<open>src/home_windows.go\<close>, \<^verbatim>\<open>src/zfile_windows.go\<close> and \<^verbatim>\<open>src/uptime\<close> on Windows, with the
    functions of \<^verbatim>\<open>path/filepath\<close> for Windows. Shown: file URLs of drives, the home directory from the environment and from the
    registry, and the time since the start at both widths of a pointer.

  This theory has the properties that span packages: tailing from the position that \<^verbatim>\<open>SeekLastLines\<close> finds, and commands
  that are run with the environment values of proxy settings.

  \<^bold>\<open>Not modelled.\<close> \<^verbatim>\<open>readpass\<close> and \<^verbatim>\<open>uptime\<close> on Unix, which pass on the result of one system call, and the regular expressions for
  error messages of both systems, which are constants for tests. Permissions are
  stored but not enforced, as for a process with all rights, and there are no devices, pipes and hard links.
  Strings outside ASCII are not distinguished by case; in \<open>FileSystem\<close> and \<open>FsLock\<close> symbolic links are not followed;
  integers are at their width where the code can overflow them (the version of a voyeur value, bytes and
  sizes) and unbounded where they count things in memory or nanoseconds since a start.
\<close>

subsection \<open>Tailing from the last lines\<close>

text \<open>(C11) The two halves of the package \<^verbatim>\<open>tailer\<close> together: a reader that \<^verbatim>\<open>SeekLastLines\<close> has positioned at a positive
  number of lines before the end is tailed. Then exactly these last lines are written, followed by the lines that are
  completed while the file grows, each of them whole and once, for every size of the buffer.\<close>

theorem tail_last_lines:
  assumes "0 < bufferSize" "0 < n" "ticks \<noteq> []" "sorted_wrt prefix (content # ticks)"
    and "no_fail read_fail" "\<forall>out line. write_fail out line = None" "no_fail flush_fail"
  shows "\<exists>pos pos' new. SeekLastLines bufferSize content (\<lambda>_. None :: nat option) n flt = Some (Inr pos)
    \<and> valid_lines flt (last ticks) = valid_lines flt content @ new
    \<and> Tailer_loop flt bufferSize read_fail write_fail flush_fail ticks pos []
      = (None, pos', concat (drop (length (valid_lines flt content) - n) (valid_lines flt content) @ new))"
proof -
  let ?pos = "nth_last n (matching flt content)"
  have "prefix content (hd ticks)" "prefix content (last ticks)" using assms(3,4) by auto
  then obtain more where more: "last ticks = content @ more" by (auto simp: prefix_def)
  obtain new where new: "valid_lines flt (content @ more) = valid_lines flt content @ new"
    using valid_lines_append[of flt content more] by (auto simp: prefix_def)
  have "?pos \<le> length (hd ticks)"
    using valid_lines_nth_last(1)[OF assms(2), of flt content] \<open>prefix content (hd ticks)\<close> prefix_length_le order_trans
    by blast
  moreover have "sorted_wrt prefix ticks" using assms(4) by simp
  ultimately obtain pos' where
    "Tailer_loop flt bufferSize read_fail write_fail flush_fail ticks ?pos []
      = (None, pos', [] @ concat (valid_lines flt (drop ?pos (last ticks))))"
    using Tailer_loop_lines[OF assms(5-7,3)] by blast
  then show ?thesis
    using SeekLastLines_seeks[OF assms(1) refl, of content n flt] assms(2) new
      valid_lines_nth_last_append[OF assms(2) new] unfolding more by auto
qed

theorem tail_last_lines_witness:
  "\<exists>pos pos'. SeekLastLines 16 demo_file (\<lambda>_. None :: nat option) 1 None = Some (Inr pos)
     \<and> Tailer_loop None 16 (\<lambda>_. None :: nat option) (\<lambda>_ _. None) (\<lambda>_. None) [demo_file @ [delimiter]] pos []
       = (None, pos', ''b'' @ [delimiter] @ ''c'' @ [delimiter])"
proof -
  have "valid_lines None (demo_file @ [delimiter]) = valid_lines None demo_file @ [''c'' @ [delimiter]]"
    by (simp add: demo_file_def valid_lines_def lines_from.simps delimiter_def passes_def)
  with tail_last_lines[of 16 1 "[demo_file @ [delimiter]]" demo_file "\<lambda>_. None :: nat option" "\<lambda>_ _. None" "\<lambda>_. None" None]
  show ?thesis by (auto simp: no_fail_def demo_file_lines)
qed

subsection \<open>Commands behind a proxy\<close>



end
